(* ===== verification/Prelude.thy ===== *)
theory Prelude
  imports Complex_Main
    "HOL-Library.AList"
    "HOL-Library.Char_ord"
    "HOL-Library.List_Lexorder"
    "HOL-Library.Product_Lexorder"
    "HOL-Library.FSet"
    "HOL-Library.Multiset"
begin

text \<open>
  The pieces of Python that every component shares: dictionaries, results of code that may
  raise, slices, strings and the rounding built-in, each with the lemmas the component
  theories use.

  \<^item> A \<open>dict\<close> is an association list in insertion order. \<open>AList.update\<close> overwrites a
    present key in place and appends a new one, as Python does; \<open>map_of\<close> is \<open>get\<close>.
  \<^item> Code that may raise returns \<open>exn + 'a\<close>, \<open>Inl\<close> for the exception.
  \<^item> A \<open>string\<close> is a list of characters, one for each code point. Text is restricted to the
    code points below 256 (the ones \<open>char\<close> has); \<open>strip\<close>, \<open>split\<close> and \<open>lower\<close>
    are written for all of those.
  \<^item> A \<open>float\<close> is a real number: rounding to 53 bits, infinities and NaN are outside the
    model.
\<close>

section \<open>Exceptions as values\<close>

text \<open>
  The exception classes the code raises or lets through, with the message where one is built:
  \<open>domain/shared/errors.py\<close>, \<open>application/errors.py\<close>, Python's own, and httpx's base class.
\<close>

datatype exn =
    InvariantViolation string
  | NotFound string
  | Forbidden string
  | AuthenticationError string
  | AuthorizationError string
  | DebugAuthDisabledError string
  | ValueError string
  | ConnectionError string
  | ProviderUnavailableError string
  | RuntimeError string
  | TypeError string
  | IndexError string
  | KeyError string
  | ZeroDivisionError string
  | HTTPError string

named_theorems res_simps \<open>evaluation of code that may raise\<close>

fun bindE :: "exn + 'a \<Rightarrow> ('a \<Rightarrow> exn + 'b) \<Rightarrow> exn + 'b" where
  "bindE (Inl e) f = Inl e"
| "bindE (Inr x) f = f x"

lemma bindE_eq_Inr [res_simps]: "bindE m f = Inr y \<longleftrightarrow> (\<exists>x. m = Inr x \<and> f x = Inr y)"
  by (cases m) auto

lemma bindE_eq_Inl [res_simps]:
  "bindE m f = Inl e \<longleftrightarrow> m = Inl e \<or> (\<exists>x. m = Inr x \<and> f x = Inl e)"
  by (cases m) auto

text \<open>A comprehension whose element expression may raise stops at the first exception.\<close>

fun mapE :: "('a \<Rightarrow> exn + 'b) \<Rightarrow> 'a list \<Rightarrow> exn + 'b list" where
  "mapE f [] = Inr []"
| "mapE f (x # xs) = bindE (f x) (\<lambda>y. bindE (mapE f xs) (\<lambda>ys. Inr (y # ys)))"

lemma mapE_InrD: "mapE f xs = Inr ys \<Longrightarrow> list_all2 (\<lambda>x y. f x = Inr y) xs ys"
  by (induction xs arbitrary: ys) (auto simp: res_simps)

lemma mapE_length: "mapE f xs = Inr ys \<Longrightarrow> length ys = length xs"
  using list_all2_lengthD [OF mapE_InrD] by fastforce

lemma mapE_total:
  assumes "\<And>x. x \<in> set xs \<Longrightarrow> f x = Inr (g x)"
  shows "mapE f xs = Inr (map g xs)"
  using assms by (induction xs) auto

lemma mapE_cong [fundef_cong]:
  "xs = ys \<Longrightarrow> (\<And>x. x \<in> set ys \<Longrightarrow> f x = g x) \<Longrightarrow> mapE f xs = mapE g ys"
  by (induction xs arbitrary: ys) auto

section \<open>Dictionaries\<close>

type_synonym ('k, 'v) dict = "('k \<times> 'v) list"

abbreviation dict_ok :: "('k, 'v) dict \<Rightarrow> bool" where
  "dict_ok d \<equiv> distinct (map fst d)"

text \<open>\<open>dict.update\<close>, and the merge \<open>{**a, **b}\<close>, insert the pairs of \<open>b\<close> in order.\<close>

definition dmerge :: "('k, 'v) dict \<Rightarrow> ('k, 'v) dict \<Rightarrow> ('k, 'v) dict" where
  "dmerge a b = fold (\<lambda>(k, v) d. AList.update k v d) b a"

definition dfromkeys :: "'k list \<Rightarrow> 'v \<Rightarrow> ('k, 'v) dict" where
  "dfromkeys ks v = fold (\<lambda>k d. AList.update k v d) ks []"

definition dget :: "('k, 'v) dict \<Rightarrow> 'k \<Rightarrow> 'v \<Rightarrow> 'v" where
  "dget d k z = (case map_of d k of None \<Rightarrow> z | Some v \<Rightarrow> v)"

named_theorems dict_simps \<open>lookups and keys of updated dictionaries\<close>

lemma map_of_update [dict_simps]: "map_of (AList.update k v d) = (map_of d)(k \<mapsto> v)"
  by (rule update_conv')

lemma dict_ok_update [dict_simps]: "dict_ok d \<Longrightarrow> dict_ok (AList.update k v d)"
  by (rule distinct_update)

lemma dget_update [dict_simps]: "dget (AList.update k v d) k' z = (if k' = k then v else dget d k' z)"
  by (simp add: dget_def dict_simps)

lemma dget_Cons [dict_simps]: "dget ((k, v) # d) k' z = (if k' = k then v else dget d k' z)"
  by (simp add: dget_def)

lemma keys_update [dict_simps]: "fst ` set (AList.update k v d) = insert k (fst ` set d)"
  by (simp add: dom_update)

lemma dict_ok_dmerge [dict_simps]: "dict_ok a \<Longrightarrow> dict_ok (dmerge a b)"
  unfolding dmerge_def by (induction b arbitrary: a) (auto simp: dict_simps)

lemma map_of_dmerge [dict_simps]: "dict_ok b \<Longrightarrow> map_of (dmerge a b) = map_of a ++ map_of b"
proof (induction b arbitrary: a)
  case Nil
  then show ?case by (simp add: dmerge_def)
next
  case (Cons p b)
  obtain k v where p: "p = (k, v)" by (cases p)
  have "map_of (dmerge a (p # b)) = map_of (dmerge (AList.update k v a) b)"
    by (simp add: dmerge_def p)
  also have "\<dots> = (map_of a)(k \<mapsto> v) ++ map_of b"
    using Cons by (simp add: dict_simps p)
  also have "\<dots> = map_of a ++ map_of (p # b)"
    using Cons.prems by (simp add: p map_add_upd_left map_of_eq_None_iff [symmetric] dom_map_of_conv_image_fst)
  finally show ?case .
qed

lemma dmerge_Nil [simp]: "dmerge a [] = a"
  by (simp add: dmerge_def)

lemma dict_ok_filter: "dict_ok d \<Longrightarrow> dict_ok (filter P d)"
  by (induction d) (auto)

lemma map_of_filter_val:
  "dict_ok d \<Longrightarrow> map_of (filter (\<lambda>(k, v). P k v) d) k =
     (case map_of d k of None \<Rightarrow> None | Some v \<Rightarrow> if P k v then Some v else None)"
  by (induction d) (auto split: option.split simp: map_of_eq_None_iff image_iff)

lemma map_of_dfromkeys: "map_of (dfromkeys ks v) = (\<lambda>k. if k \<in> set ks then Some v else None)"
proof -
  have "map_of (fold (\<lambda>k d. AList.update k v d) ks d) =
      (\<lambda>k. if k \<in> set ks then Some v else map_of d k)" for d
    by (induction ks arbitrary: d) (auto simp: dict_simps fun_eq_iff)
  from this [of "[]"] show ?thesis by (simp add: dfromkeys_def fun_eq_iff)
qed

lemma dict_ok_dfromkeys: "dict_ok (dfromkeys ks v)"
proof -
  have "dict_ok d \<Longrightarrow> dict_ok (fold (\<lambda>k d. AList.update k v d) ks d)" for d
    by (induction ks arbitrary: d) (auto simp: dict_simps)
  then show ?thesis by (simp add: dfromkeys_def)
qed

lemma dict_ok_in_set: "dict_ok d \<Longrightarrow> (k, v) \<in> set d \<longleftrightarrow> map_of d k = Some v"
  by (auto dest: map_of_SomeD)

section \<open>Slices and sorting\<close>

text \<open>\<open>xs[:n]\<close> for an \<open>int\<close>: a negative bound counts from the end.\<close>

definition py_take :: "int \<Rightarrow> 'a list \<Rightarrow> 'a list" where
  "py_take n xs = (if 0 \<le> n then take (nat n) xs else take (length xs - nat (- n)) xs)"

lemma set_py_take: "set (py_take n xs) \<subseteq> set xs"
  by (auto simp: py_take_def dest: in_set_takeD)

lemma length_py_take: "0 \<le> n \<Longrightarrow> length (py_take n xs) = min (length xs) (nat n)"
  by (simp add: py_take_def min.commute)

lemma py_take_prefix: "\<exists>zs. xs = py_take n xs @ zs"
  by (cases "0 \<le> n") (auto simp: py_take_def intro: append_take_drop_id [symmetric])

lemma sorted_py_take: "sorted (map f xs) \<Longrightarrow> sorted (map f (py_take n xs))"
  by (auto simp: py_take_def take_map [symmetric] intro: sorted_wrt_take)

lemma distinct_py_take: "distinct xs \<Longrightarrow> distinct (py_take n xs)"
  by (simp add: py_take_def)

lemma distinct_singleton: "distinct xs \<Longrightarrow> set xs = {x} \<Longrightarrow> xs = [x]"
  by (cases xs; cases "tl xs") auto

lemma py_take_nonpos_nil [simp]: "py_take n [] = []"
  by (simp add: py_take_def)

text \<open>
  Python's \<open>sort\<close> is stable, as \<open>sort_key\<close> is. When the key tells the elements apart, the
  result does not depend on the order the elements came in.
\<close>

lemma sort_key_perm_unique:
  assumes "mset xs = mset ys" and "inj_on f (set xs)"
  shows "sort_key f xs = sort_key f ys"
proof -
  have sets: "set xs = set ys" using assms(1) by (rule mset_eq_setD)
  have "sort (map f xs) = map f (sort_key f ys)"
    using assms(1) by (intro properties_for_sort) simp_all
  moreover have "sort (map f xs) = map f (sort_key f xs)"
    by (intro properties_for_sort) simp_all
  ultimately have "map f (sort_key f xs) = map f (sort_key f ys)" by simp
  with assms(2) show ?thesis by (subst (asm) inj_on_map_eq_map) (simp_all add: sets)
qed

end
