(* ===== verification/PyText.thy ===== *)
theory PyText
  imports Prelude
begin

text \<open>
  The string methods the code calls (\<open>strip\<close>, \<open>split\<close>, \<open>lower\<close>, \<open>upper\<close>, \<open>join\<close>,
  \<open>replace\<close>), decimal numerals, and \<open>round(x, 6)\<close>. A character stands for the code point
  of the same number; the methods are defined for all 256 of them.
\<close>

section \<open>Characters\<close>

definition cp :: "char \<Rightarrow> nat" where
  "cp c = of_char c"

lemma cp_less [simp]: "cp c < 256"
  by (simp add: cp_def)

lemma cp_char_of [simp]: "n < 256 \<Longrightarrow> cp (char_of n) = n"
  by (simp add: cp_def)

lemma char_of_cp [simp]: "char_of (cp c) = c"
  by (simp add: cp_def)

lemma cp_eq_iff: "cp c = cp d \<longleftrightarrow> c = d"
  by (simp add: cp_def)

text \<open>\<open>str.isspace\<close>: tab to carriage return, the four separators, space, NEL and NBSP.\<close>

definition py_isspace :: "char \<Rightarrow> bool" where
  "py_isspace c =
     (let n = cp c in (9 \<le> n \<and> n \<le> 13) \<or> (28 \<le> n \<and> n \<le> 32) \<or> n = 133 \<or> n = 160)"

text \<open>
  Lower case moves the two blocks of capital letters by 32. Upper case is only ever compared
  with an ASCII word: sharp s (223), micro (181) and y with diaeresis (255) are left alone
  here, where Python maps them to text that no ASCII word the code compares with contains.
\<close>

definition lower_char :: "char \<Rightarrow> char" where
  "lower_char c =
     (let n = cp c in
      if (65 \<le> n \<and> n \<le> 90) \<or> (192 \<le> n \<and> n \<le> 222 \<and> n \<noteq> 215) then char_of (n + 32) else c)"

definition upper_char :: "char \<Rightarrow> char" where
  "upper_char c =
     (let n = cp c in
      if (97 \<le> n \<and> n \<le> 122) \<or> (224 \<le> n \<and> n \<le> 254 \<and> n \<noteq> 247) then char_of (n - 32) else c)"

definition py_lower :: "string \<Rightarrow> string" where
  "py_lower s = map lower_char s"

definition py_upper :: "string \<Rightarrow> string" where
  "py_upper s = map upper_char s"

lemma cp_lower_char:
  "cp (lower_char c) =
     (if (65 \<le> cp c \<and> cp c \<le> 90) \<or> (192 \<le> cp c \<and> cp c \<le> 222 \<and> cp c \<noteq> 215) then cp c + 32 else cp c)"
  by (auto simp: lower_char_def Let_def)

lemma lower_char_idem [simp]: "lower_char (lower_char c) = lower_char c"
  by (auto simp: cp_eq_iff [symmetric] cp_lower_char)

lemma isspace_lower [simp]: "py_isspace (lower_char c) = py_isspace c"
  unfolding py_isspace_def Let_def cp_lower_char by (auto split: if_splits)

lemma py_lower_idem [simp]: "py_lower (py_lower s) = py_lower s"
  by (simp add: py_lower_def)

lemma py_lower_append: "py_lower (s @ t) = py_lower s @ py_lower t"
  by (simp add: py_lower_def)

lemma py_lower_Nil_iff [simp]: "py_lower s = [] \<longleftrightarrow> s = []"
  by (simp add: py_lower_def)

section \<open>strip, split, join, replace\<close>

definition py_lstrip :: "string \<Rightarrow> string" where
  "py_lstrip s = dropWhile py_isspace s"

definition py_strip :: "string \<Rightarrow> string" where
  "py_strip s = rev (dropWhile py_isspace (rev (py_lstrip s)))"

definition strip_chars :: "string \<Rightarrow> string \<Rightarrow> string" where
  "strip_chars cs s = rev (dropWhile (\<lambda>c. c \<in> set cs) (rev (dropWhile (\<lambda>c. c \<in> set cs) s)))"

text \<open>\<open>s.split()\<close>: the maximal runs of characters that are not white space.\<close>

fun split_acc :: "string \<Rightarrow> string \<Rightarrow> string list" where
  "split_acc w [] = (if w = [] then [] else [w])"
| "split_acc w (c # cs) =
     (if py_isspace c then (if w = [] then split_acc [] cs else w # split_acc [] cs)
      else split_acc (w @ [c]) cs)"

definition py_split :: "string \<Rightarrow> string list" where
  "py_split s = split_acc [] s"

fun py_join :: "string \<Rightarrow> string list \<Rightarrow> string" where
  "py_join sep [] = []"
| "py_join sep [w] = w"
| "py_join sep (w # v # ws) = w @ sep @ py_join sep (v # ws)"

definition starts_with :: "string \<Rightarrow> string \<Rightarrow> bool" where
  "starts_with p s \<longleftrightarrow> take (length p) s = p"

text \<open>\<open>s.replace(old, new)\<close> for a non-empty \<open>old\<close>: leftmost occurrences first.\<close>

function py_replace :: "string \<Rightarrow> string \<Rightarrow> string \<Rightarrow> string" where
  "py_replace old new [] = []"
| "py_replace old new (c # cs) =
     (if starts_with old (c # cs) then new @ py_replace old new (drop (length old - 1) cs)
      else c # py_replace old new cs)"
  by pat_completeness auto
termination
  by (relation "measure (\<lambda>(old, new, s). length s)") auto

lemma py_strip_Nil_iff: "py_strip s = [] \<longleftrightarrow> (\<forall>c \<in> set s. py_isspace c)"
proof
  assume "py_strip s = []"
  then have "dropWhile py_isspace (rev (dropWhile py_isspace s)) = []"
    by (simp only: py_strip_def py_lstrip_def rev_is_Nil_conv)
  then have "\<forall>c \<in> set (dropWhile py_isspace s). py_isspace c"
    by (simp only: dropWhile_eq_Nil_conv set_rev)
  then show "\<forall>c \<in> set s. py_isspace c"
    by (metis set_takeWhileD takeWhile_dropWhile_id Un_iff set_append)
next
  assume "\<forall>c \<in> set s. py_isspace c"
  then have "dropWhile py_isspace s = []" by (simp add: dropWhile_eq_Nil_conv)
  then show "py_strip s = []" by (simp only: py_strip_def py_lstrip_def rev.simps dropWhile.simps)
qed

lemma py_strip_ends:
  assumes "py_strip s \<noteq> []"
  shows "\<not> py_isspace (hd (py_strip s))" and "\<not> py_isspace (last (py_strip s))"
proof -
  let ?t = "dropWhile py_isspace s"
  have t: "?t \<noteq> []"
  proof
    assume "?t = []"
    then have "py_strip s = []" by (simp only: py_strip_def py_lstrip_def) simp
    with assms show False ..
  qed
  have "\<exists>zs. ?t = py_strip s @ zs"
    unfolding py_strip_def py_lstrip_def
    by (metis rev_append rev_rev_ident takeWhile_dropWhile_id)
  then obtain zs where "?t = py_strip s @ zs" ..
  then have "hd ?t = hd (py_strip s)" using assms by simp
  then show "\<not> py_isspace (hd (py_strip s))" using hd_dropWhile [OF t] by simp
  show "\<not> py_isspace (last (py_strip s))"
    using assms hd_dropWhile [of py_isspace "rev ?t"]
    by (simp add: py_strip_def py_lstrip_def last_rev)
qed

lemma py_strip_id:
  assumes "s \<noteq> []" "\<not> py_isspace (hd s)" "\<not> py_isspace (last s)"
  shows "py_strip s = s"
proof -
  have "dropWhile py_isspace s = s" using assms by (cases s) auto
  moreover have "dropWhile py_isspace (rev s) = rev s"
    using assms by (cases "rev s") (auto simp: last_rev hd_rev)
  ultimately show ?thesis by (simp add: py_strip_def py_lstrip_def)
qed

lemma py_strip_idem [simp]: "py_strip (py_strip s) = py_strip s"
proof (cases "py_strip s = []")
  case True
  then show ?thesis by (simp add: py_strip_def [of "[]"] py_lstrip_def)
next
  case False
  then show ?thesis using py_strip_ends [of s] by (intro py_strip_id)
qed

lemma length_py_strip: "length (py_strip s) \<le> length s"
  unfolding py_strip_def py_lstrip_def
  by (metis length_dropWhile_le length_rev order_trans)

lemma set_py_strip: "set (py_strip s) \<subseteq> set s"
  by (auto simp: py_strip_def py_lstrip_def dest!: set_dropWhileD)

lemma split_acc_words:
  "(\<forall>c \<in> set w. \<not> py_isspace c) \<Longrightarrow> v \<in> set (split_acc w s) \<Longrightarrow>
     v \<noteq> [] \<and> (\<forall>c \<in> set v. \<not> py_isspace c \<and> (c \<in> set w \<or> c \<in> set s))"
  by (induction w s rule: split_acc.induct) (fastforce split: if_splits)+

lemma py_split_word:
  "v \<in> set (py_split s) \<Longrightarrow> v \<noteq> [] \<and> (\<forall>c \<in> set v. \<not> py_isspace c \<and> c \<in> set s)"
  using split_acc_words [of "[]" v s] by (auto simp: py_split_def)

lemma split_acc_Nil_iff: "split_acc w s = [] \<longleftrightarrow> w = [] \<and> (\<forall>c \<in> set s. py_isspace c)"
  by (induction w s rule: split_acc.induct) auto

lemma py_split_Nil_iff: "py_split s = [] \<longleftrightarrow> (\<forall>c \<in> set s. py_isspace c)"
  by (simp add: py_split_def split_acc_Nil_iff)

lemma py_join_set: "set (py_join sep ws) \<subseteq> \<Union> (set ` set ws) \<union> set sep"
  by (induction sep ws rule: py_join.induct) auto

lemma py_join_Nil_iff: "(\<And>w. w \<in> set ws \<Longrightarrow> w \<noteq> []) \<Longrightarrow> py_join sep ws = [] \<longleftrightarrow> ws = []"
  by (cases "(sep, ws)" rule: py_join.cases) auto

text \<open>Text without white space is one word, and splitting it is the identity.\<close>

lemma split_acc_solid:
  "(\<forall>c \<in> set s. \<not> py_isspace c) \<Longrightarrow> split_acc w s = (if w @ s = [] then [] else [w @ s])"
  by (induction w s rule: split_acc.induct) auto

lemma py_split_solid: "(\<forall>c \<in> set s. \<not> py_isspace c) \<Longrightarrow> py_split s = (if s = [] then [] else [s])"
  by (simp add: py_split_def split_acc_solid)

lemma py_strip_solid: "(\<forall>c \<in> set s. \<not> py_isspace c) \<Longrightarrow> py_strip s = s"
  by (cases "s = []") (auto simp: py_strip_id, simp add: py_strip_def py_lstrip_def)

section \<open>Numerals\<close>

fun nat_str :: "nat \<Rightarrow> string" where
  "nat_str n = (if n < 10 then [char_of (48 + n)] else nat_str (n div 10) @ [char_of (48 + n mod 10)])"

declare nat_str.simps [simp del]

definition int_str :: "int \<Rightarrow> string" where
  "int_str i = (if i < 0 then CHR ''-'' # nat_str (nat (- i)) else nat_str (nat i))"

lemma nat_str_value: "foldl (\<lambda>a c. a * 10 + (cp c - 48)) 0 (nat_str n) = n"
proof (induction n rule: nat_str.induct)
  case (1 n)
  then show ?case by (cases "n < 10") (simp_all add: nat_str.simps [of n])
qed

lemma nat_str_inj [simp]: "nat_str m = nat_str n \<longleftrightarrow> m = n"
  by (metis nat_str_value)

lemma nat_str_digits: "c \<in> set (nat_str n) \<Longrightarrow> 48 \<le> cp c \<and> cp c \<le> 57"
proof (induction n rule: nat_str.induct)
  case (1 n)
  then show ?case by (cases "n < 10") (auto simp: nat_str.simps [of n])
qed

lemma nat_str_no_sign: "CHR ''-'' # s \<noteq> nat_str n"
proof
  assume "CHR ''-'' # s = nat_str n"
  from this [symmetric] have "48 \<le> cp (CHR ''-'')" using nat_str_digits [of "CHR ''-''" n] by simp
  then show False by (simp add: cp_def)
qed

lemma int_str_inj [simp]: "int_str i = int_str j \<longleftrightarrow> i = j"
  using nat_str_no_sign nat_str_no_sign [symmetric] by (auto simp: int_str_def)

text \<open>\<open>round(x, 6)\<close>: to the nearest multiple of a millionth, ties to the even one.\<close>

definition round_half_even :: "real \<Rightarrow> int" where
  "round_half_even x =
     (let n = \<lfloor>x\<rfloor>; r = x - of_int n in
      if r < 1 / 2 then n else if 1 / 2 < r then n + 1 else if even n then n else n + 1)"

definition round6 :: "real \<Rightarrow> real" where
  "round6 x = of_int (round_half_even (x * 1000000)) / 1000000"

lemma round_half_even_close: "\<bar>of_int (round_half_even x) - x\<bar> \<le> 1 / 2"
  unfolding round_half_even_def Let_def using floor_correct [of x] by (auto split: if_splits)

lemma round_half_even_of_int [simp]: "round_half_even (of_int n) = n"
  by (simp add: round_half_even_def)

lemma round_half_even_mono:
  assumes "x \<le> y" shows "round_half_even x \<le> round_half_even y"
proof (cases "\<lfloor>x\<rfloor> = \<lfloor>y\<rfloor>")
  case True
  with assms show ?thesis by (auto simp: round_half_even_def Let_def)
next
  case False
  with floor_mono [OF assms] have "\<lfloor>x\<rfloor> + 1 \<le> \<lfloor>y\<rfloor>" by simp
  then show ?thesis by (auto simp: round_half_even_def Let_def)
qed

lemma round6_close: "\<bar>round6 x - x\<bar> \<le> 1 / 2000000"
  using round_half_even_close [of "x * 1000000"]
  by (simp add: round6_def abs_le_iff field_simps)

lemma round6_mono: "x \<le> y \<Longrightarrow> round6 x \<le> round6 y"
  by (simp add: round6_def divide_right_mono round_half_even_mono)

lemma round6_0 [simp]: "round6 0 = 0"
  by (simp add: round6_def round_half_even_def)

lemma round6_1 [simp]: "round6 1 = 1"
  by (simp add: round6_def round_half_even_def)

lemma round6_range: "0 \<le> x \<Longrightarrow> x \<le> 1 \<Longrightarrow> 0 \<le> round6 x \<and> round6 x \<le> 1"
  using round6_mono [of 0 x] round6_mono [of x 1] by simp

end
