(* ===== verification/Ids.thy ===== *)
theory Ids
  imports PyText "HOL-Library.Word"
begin

text \<open>
  Identities (\<open>domain/shared/ids.py\<close>), timestamps, actors, limits and event stamps. A UUID is
  its 128-bit value; \<open>uuid_str\<close> is \<open>str(UUID)\<close> and \<open>uuid_parse\<close> the constructor
  \<open>UUID(raw)\<close>. The lemmas show that printing is injective, that parsing undoes it, and that
  the order of the printed ids, which every sort in the code breaks ties on, is the order of
  the 128-bit values.
\<close>

section \<open>UUIDs\<close>

type_synonym uuid = "128 word"

definition hex_char :: "nat \<Rightarrow> char" where
  "hex_char d = char_of (if d < 10 then 48 + d else 87 + d)"

fun hexs :: "nat \<Rightarrow> nat \<Rightarrow> string" where
  "hexs 0 n = []"
| "hexs (Suc k) n = hexs k (n div 16) @ [hex_char (n mod 16)]"

definition dashed :: "string \<Rightarrow> string" where
  "dashed h =
     take 8 h @ ''-'' @ take 4 (drop 8 h) @ ''-'' @ take 4 (drop 12 h) @ ''-'' @
     take 4 (drop 16 h) @ ''-'' @ drop 20 h"

definition uuid_str :: "uuid \<Rightarrow> string" where
  "uuid_str u = dashed (hexs 32 (unat u))"

text \<open>\<open>int(s, 16)\<close>: surrounding white space, a sign, a \<open>0x\<close> prefix and single underscores
  between the digits are all accepted.\<close>

definition hex_val :: "char \<Rightarrow> nat option" where
  "hex_val c =
     (let n = cp c in
      if 48 \<le> n \<and> n \<le> 57 then Some (n - 48)
      else if 97 \<le> n \<and> n \<le> 102 then Some (n - 87)
      else if 65 \<le> n \<and> n \<le> 70 then Some (n - 55) else None)"

fun hex_num :: "bool \<Rightarrow> nat \<Rightarrow> string \<Rightarrow> nat option" where
  "hex_num p acc [] = (if p then Some acc else None)"
| "hex_num p acc (c # cs) =
     (if c = CHR ''_'' then (if p then hex_num False acc cs else None)
      else case hex_val c of None \<Rightarrow> None | Some d \<Rightarrow> hex_num True (16 * acc + d) cs)"

fun hex_prefixed :: "string \<Rightarrow> nat option" where
  "hex_prefixed (z # x # cs) =
     (if z = CHR ''0'' \<and> (x = CHR ''x'' \<or> x = CHR ''X'')
      then hex_num False 0 (case cs of CHR ''_'' # ds \<Rightarrow> ds | _ \<Rightarrow> cs)
      else hex_num False 0 (z # x # cs))"
| "hex_prefixed s = hex_num False 0 s"

definition int_space :: "bool \<Rightarrow> char \<Rightarrow> bool" where
  "int_space ascii c =
     (let n = cp c in (9 \<le> n \<and> n \<le> 13) \<or> n = 32 \<or> (\<not> ascii \<and> py_isspace c))"

definition int16 :: "string \<Rightarrow> int option" where
  "int16 s =
     (let sp = int_space (list_all (\<lambda>c. cp c < 128) s);
          t = rev (dropWhile sp (rev (dropWhile sp s)))
      in case t of
           c # cs \<Rightarrow>
             (if c = CHR ''-'' then map_option (\<lambda>n. - int n) (hex_prefixed cs)
              else if c = CHR ''+'' then map_option int (hex_prefixed cs)
              else map_option int (hex_prefixed t))
         | [] \<Rightarrow> None)"

definition uuid_parse :: "string \<Rightarrow> uuid option" where
  "uuid_parse raw =
     (let hex = py_replace ''uuid:'' [] (py_replace ''urn:'' [] raw);
          hex = filter (\<lambda>c. c \<noteq> CHR ''-'') (strip_chars ''{}'' hex)
      in if length hex \<noteq> 32 then None
         else case int16 hex of
                None \<Rightarrow> None
              | Some i \<Rightarrow> if 0 \<le> i \<and> i < 2 ^ 128 then Some (of_int i) else None)"

section \<open>Typed ids\<close>

datatype user_id = UserId (user_uuid: uuid)
datatype game_id = GameId (game_uuid: uuid)
datatype recommendation_id = RecommendationId (rec_uuid: uuid)

definition user_str :: "user_id \<Rightarrow> string" where
  "user_str u = uuid_str (user_uuid u)"

definition game_str :: "game_id \<Rightarrow> string" where
  "game_str g = uuid_str (game_uuid g)"

text \<open>\<open>EntityId.parse\<close>: a \<open>ValueError\<close> of the UUID constructor becomes an
  \<open>InvariantViolation\<close>.\<close>

definition py_repr :: "string \<Rightarrow> string" where
  "py_repr s =
     (let q = (if CHR 0x27 \<in> set s \<and> CHR 0x22 \<notin> set s then CHR 0x22 else CHR 0x27);
          esc = (\<lambda>c. let n = cp c in
            if c = q \<or> n = 92 then [char_of (92 :: nat), c]
            else if n = 9 then char_of (92 :: nat) # ''t''
            else if n = 10 then char_of (92 :: nat) # ''n''
            else if n = 13 then char_of (92 :: nat) # ''r''
            else if n < 32 \<or> (127 \<le> n \<and> n \<le> 160) \<or> n = 173
            then char_of (92 :: nat) # ''x'' @ hexs 2 n
            else [c])
      in q # concat (map esc s) @ [q])"

definition user_id_parse :: "string \<Rightarrow> exn + user_id" where
  "user_id_parse raw =
     (case uuid_parse raw of
        Some u \<Rightarrow> Inr (UserId u)
      | None \<Rightarrow> Inl (InvariantViolation (''UserId must be a UUID, got '' @ py_repr raw)))"

definition game_id_parse :: "string \<Rightarrow> exn + game_id" where
  "game_id_parse raw =
     (case uuid_parse raw of
        Some u \<Rightarrow> Inr (GameId u)
      | None \<Rightarrow> Inl (InvariantViolation (''GameId must be a UUID, got '' @ py_repr raw)))"

section \<open>Timestamps, actors, stamps and limits\<close>

text \<open>
  A \<open>datetime\<close> is its wall clock reading in microseconds and its offset from UTC, \<open>None\<close>
  for a naive one; aware timestamps are compared by the instant they name.
\<close>

datatype datetime = DateTime (wall: int) (offset: "int option")

definition instant :: "datetime \<Rightarrow> int" where
  "instant d = wall d - (case offset d of None \<Rightarrow> 0 | Some z \<Rightarrow> z)"

definition utc :: "int \<Rightarrow> datetime" where
  "utc n = DateTime n (Some 0)"

datatype role = BASIC_USER | DEVELOPER | SUPPORT | ADMIN

record actor =
  actor_user_id :: user_id
  actor_role :: role
  is_banned :: bool

definition is_moderator :: "actor \<Rightarrow> bool" where
  "is_moderator a \<longleftrightarrow> actor_role a \<in> {SUPPORT, ADMIN}"

record event_stamp =
  stamp_event_id :: uuid
  stamp_occurred_at :: datetime

definition DEFAULT_RECOMMENDATION_COUNT :: int where "DEFAULT_RECOMMENDATION_COUNT = 10"
definition MAX_RECOMMENDATION_COUNT :: int where "MAX_RECOMMENDATION_COUNT = 50"
definition MAX_COLLABORATIVE_CANDIDATES :: int where "MAX_COLLABORATIVE_CANDIDATES = 200"
definition MAX_FEATURE_CHARS :: nat where "MAX_FEATURE_CHARS = 64"
definition MAX_TITLE_CHARS :: nat where "MAX_TITLE_CHARS = 200"
definition MAX_DESCRIPTION_CHARS :: nat where "MAX_DESCRIPTION_CHARS = 2000"
definition MAX_SIGNAL_HISTORY :: nat where "MAX_SIGNAL_HISTORY = 200"
definition MAX_EXPLAINED_CANDIDATES :: nat where "MAX_EXPLAINED_CANDIDATES = 10"

section \<open>Printing keeps the order\<close>

lemma length_hexs [simp]: "length (hexs k n) = k"
  by (induction k arbitrary: n) auto

lemma cp_hex_char: "d < 16 \<Longrightarrow> cp (hex_char d) = (if d < 10 then 48 + d else 87 + d)"
  by (simp add: hex_char_def)

lemma hex_char_less_iff: "d < 16 \<Longrightarrow> e < 16 \<Longrightarrow> hex_char d < hex_char e \<longleftrightarrow> d < e"
  by (auto simp: less_char_def cp_hex_char simp flip: cp_def)

lemma hex_char_eq_iff: "d < 16 \<Longrightarrow> e < 16 \<Longrightarrow> hex_char d = hex_char e \<longleftrightarrow> d = e"
  by (auto simp: cp_eq_iff [symmetric] cp_hex_char)

lemma append_less_append:
  fixes xs ys :: "'a::linorder list"
  shows "length xs = length ys \<Longrightarrow> xs @ zs < ys @ ws \<longleftrightarrow> xs < ys \<or> xs = ys \<and> zs < ws"
  by (induction xs ys rule: list_induct2) auto

lemma digits_less_iff:
  fixes a b c d :: nat
  assumes "b < 16" "d < 16"
  shows "(16 * a + b < 16 * c + d \<longleftrightarrow> a < c \<or> a = c \<and> b < d) \<and> (16 * a + b = 16 * c + d \<longleftrightarrow> a = c \<and> b = d)"
  using assms by (cases a c rule: linorder_cases) auto

lemma hexs_less_iff:
  "n < 16 ^ k \<Longrightarrow> m < 16 ^ k \<Longrightarrow> (hexs k n < hexs k m \<longleftrightarrow> n < m) \<and> (hexs k n = hexs k m \<longleftrightarrow> n = m)"
proof (induction k arbitrary: n m)
  case 0
  then show ?case by simp
next
  case (Suc k)
  have "n div 16 < 16 ^ k" and "m div 16 < 16 ^ k"
    using Suc.prems by (auto simp: less_mult_imp_div_less mult.commute)
  note IH = Suc.IH [OF this]
  have key: "(n < m \<longleftrightarrow> n div 16 < m div 16 \<or> n div 16 = m div 16 \<and> n mod 16 < m mod 16) \<and>
      (n = m \<longleftrightarrow> n div 16 = m div 16 \<and> n mod 16 = m mod 16)"
    using digits_less_iff [of "n mod 16" "m mod 16" "n div 16" "m div 16"] by simp
  from key have "n < m \<longleftrightarrow> n div 16 < m div 16 \<or> n div 16 = m div 16 \<and> n mod 16 < m mod 16" ..
  also have "\<dots> \<longleftrightarrow> hexs (Suc k) n < hexs (Suc k) m"
    using IH by (auto simp: append_less_append hex_char_less_iff)
  finally have lt: "hexs (Suc k) n < hexs (Suc k) m \<longleftrightarrow> n < m" ..
  from key have "n = m \<longleftrightarrow> n div 16 = m div 16 \<and> n mod 16 = m mod 16" ..
  also have "\<dots> \<longleftrightarrow> hexs (Suc k) n = hexs (Suc k) m"
    using IH by (auto simp: hex_char_eq_iff)
  finally show ?case using lt by simp
qed

lemma dashed_less_iff:
  assumes "length h = 32" "length h' = 32"
  shows "dashed h < dashed h' \<longleftrightarrow> h < h'" and "dashed h = dashed h' \<longleftrightarrow> h = h'"
proof -
  define P :: "string \<Rightarrow> string" where
    "P h = take 8 h @ take 4 (drop 8 h) @ take 4 (drop 12 h) @ take 4 (drop 16 h) @ drop 20 h" for h
  have P: "P h = h" for h
    using append_take_drop_id [of 8 h] append_take_drop_id [of 4 "drop 8 h"]
      append_take_drop_id [of 4 "drop 12 h"] append_take_drop_id [of 4 "drop 16 h"]
    by (simp add: P_def)
  have "P h < P h' \<longleftrightarrow> dashed h < dashed h'" and "P h = P h' \<longleftrightarrow> dashed h = dashed h'"
    by (simp_all add: P_def dashed_def append_less_append assms)
  then show "dashed h < dashed h' \<longleftrightarrow> h < h'" and "dashed h = dashed h' \<longleftrightarrow> h = h'"
    by (simp_all add: P)
qed

lemma unat_uuid: "unat (u :: uuid) < 16 ^ 32"
  using unsigned_less [of u] by simp

lemma uuid_str_less_iff [simp]: "uuid_str u < uuid_str v \<longleftrightarrow> u < v"
  using hexs_less_iff [OF unat_uuid [of u] unat_uuid [of v]]
  by (simp add: uuid_str_def dashed_less_iff word_less_nat_alt)

lemma uuid_str_eq_iff [simp]: "uuid_str u = uuid_str v \<longleftrightarrow> u = v"
  using hexs_less_iff [OF unat_uuid [of u] unat_uuid [of v]]
  by (simp add: uuid_str_def dashed_less_iff word_unat_eq_iff)

lemma uuid_str_le_iff [simp]: "uuid_str u \<le> uuid_str v \<longleftrightarrow> u \<le> v"
  by (simp add: le_less)

instantiation game_id :: linorder
begin

definition less_eq_game_id :: "game_id \<Rightarrow> game_id \<Rightarrow> bool" where
  "less_eq_game_id a b \<longleftrightarrow> game_str a \<le> game_str b"

definition less_game_id :: "game_id \<Rightarrow> game_id \<Rightarrow> bool" where
  "less_game_id a b \<longleftrightarrow> game_str a < game_str b"

instance
  by standard (auto simp: less_eq_game_id_def less_game_id_def game_str_def game_id.expand)

end

instantiation user_id :: linorder
begin

definition less_eq_user_id :: "user_id \<Rightarrow> user_id \<Rightarrow> bool" where
  "less_eq_user_id a b \<longleftrightarrow> user_str a \<le> user_str b"

definition less_user_id :: "user_id \<Rightarrow> user_id \<Rightarrow> bool" where
  "less_user_id a b \<longleftrightarrow> user_str a < user_str b"

instance
  by standard (auto simp: less_eq_user_id_def less_user_id_def user_str_def user_id.expand)

end

lemma game_str_order [simp]:
  "game_str (GameId u) < game_str (GameId v) \<longleftrightarrow> u < v"
  "game_str (GameId u) \<le> game_str (GameId v) \<longleftrightarrow> u \<le> v"
  "game_str a = game_str b \<longleftrightarrow> a = b"
  "user_str (UserId u) < user_str (UserId v) \<longleftrightarrow> u < v"
  "user_str (UserId u) \<le> user_str (UserId v) \<longleftrightarrow> u \<le> v"
  "user_str x = user_str y \<longleftrightarrow> x = y"
  by (auto simp: game_str_def user_str_def game_id.expand user_id.expand)

lemma id_order_simps [simp]:
  "GameId u < GameId v \<longleftrightarrow> u < v" "GameId u \<le> GameId v \<longleftrightarrow> u \<le> v"
  "UserId u < UserId v \<longleftrightarrow> u < v" "UserId u \<le> UserId v \<longleftrightarrow> u \<le> v"
  by (simp_all add: less_game_id_def less_eq_game_id_def less_user_id_def less_eq_user_id_def)

section \<open>Parsing undoes printing\<close>

definition hex_digit :: "char \<Rightarrow> bool" where
  "hex_digit c \<longleftrightarrow> (48 \<le> cp c \<and> cp c \<le> 57) \<or> (97 \<le> cp c \<and> cp c \<le> 102)"

lemma hex_digit_hexs: "c \<in> set (hexs k n) \<Longrightarrow> hex_digit c"
  by (induction k arbitrary: n) (auto simp: hex_digit_def cp_hex_char split: if_splits)

lemma hex_digit_neq:
  assumes "hex_digit c"
  shows "c \<noteq> CHR ''-''" "c \<noteq> CHR ''+''" "c \<noteq> CHR ''_''" "c \<noteq> CHR ''x''" "c \<noteq> CHR ''X''" "c \<noteq> CHR ''u''"
    "c \<noteq> CHR ''{''" "c \<noteq> CHR ''}''"
  using assms by (auto simp: hex_digit_def cp_def)

lemma hex_val_hex_char: "d < 16 \<Longrightarrow> hex_val (hex_char d) = Some d"
  by (auto simp: hex_val_def cp_hex_char)

lemma hex_num_hexs:
  "hex_num p acc (hexs k n @ rest) = hex_num (p \<or> 0 < k) (acc * 16 ^ k + n mod 16 ^ k) rest"
proof (induction k arbitrary: n rest)
  case 0
  then show ?case by simp
next
  case (Suc k)
  have "hex_digit (hex_char (n mod 16))"
    by (rule hex_digit_hexs [of _ 1 n]) simp
  then have nu: "hex_char (n mod 16) \<noteq> CHR ''_''" by (rule hex_digit_neq)
  have "16 * (acc * 16 ^ k + (n div 16) mod 16 ^ k) + n mod 16 = acc * 16 ^ Suc k + n mod 16 ^ Suc k"
    by (simp add: mod_mult2_eq algebra_simps)
  with Suc.IH [of "n div 16" "hex_char (n mod 16) # rest"] nu show ?case
    by (simp add: hex_val_hex_char del: power_Suc)
qed

lemma py_replace_absent: "c \<notin> set s \<Longrightarrow> py_replace (c # cs) new s = s"
  by (induction s) (auto simp: starts_with_def)

lemma strip_chars_absent:
  assumes "set cs \<inter> set s = {}" shows "strip_chars cs s = s"
proof -
  have "dropWhile (\<lambda>c. c \<in> set cs) t = t" if "set t = set s" for t
    using assms that by (cases t) auto
  then show ?thesis by (simp add: strip_chars_def)
qed

lemma set_dashed: "set (dashed h) \<subseteq> insert (CHR ''-'') (set h)"
  by (auto simp: dashed_def dest: in_set_takeD in_set_dropD)

lemma filter_dashed:
  assumes "CHR ''-'' \<notin> set h" shows "filter (\<lambda>c. c \<noteq> CHR ''-'') (dashed h) = h"
proof -
  have f: "filter (\<lambda>c. c \<noteq> CHR ''-'') t = t" if "set t \<subseteq> set h" for t
    using assms that by (auto simp: filter_id_conv)
  have "filter (\<lambda>c. c \<noteq> CHR ''-'') (dashed h) =
      take 8 h @ take 4 (drop 8 h) @ take 4 (drop 12 h) @ take 4 (drop 16 h) @ drop 20 h"
    by (simp add: dashed_def f set_take_subset set_drop_subset order_trans [OF set_take_subset])
  also have "\<dots> = h"
    using append_take_drop_id [of 8 h] append_take_drop_id [of 4 "drop 8 h"]
      append_take_drop_id [of 4 "drop 12 h"] append_take_drop_id [of 4 "drop 16 h"] by simp
  finally show ?thesis .
qed

lemma int16_hexs: "0 < k \<Longrightarrow> n < 16 ^ k \<Longrightarrow> int16 (hexs k n) = Some (int n)"
proof -
  assume k: "0 < k" and n: "n < 16 ^ k"
  let ?h = "hexs k n"
  have d: "hex_digit c" if "c \<in> set ?h" for c using that by (rule hex_digit_hexs)
  have sp: "\<not> int_space True c" if "c \<in> set ?h" for c
    using d [OF that] by (auto simp: int_space_def hex_digit_def)
  have ascii: "list_all (\<lambda>c. cp c < 128) ?h"
    using d by (fastforce simp: list_all_iff hex_digit_def)
  have dw: "dropWhile (int_space True) t = t" if "set t = set ?h" for t
    using sp that by (cases t) auto
  obtain c cs where h: "?h = c # cs" using k by (cases ?h) (auto dest: arg_cong [of _ _ length])
  have c: "c \<noteq> CHR ''-''" "c \<noteq> CHR ''+''" using d [of c] by (auto simp: h hex_digit_neq)
  have "hex_prefixed ?h = hex_num False 0 ?h"
    using d by (cases ?h rule: hex_prefixed.cases) (auto dest: hex_digit_neq)
  also have "\<dots> = Some n" using hex_num_hexs [of False 0 k n "[]"] k n by simp
  finally have "hex_prefixed ?h = Some n" .
  moreover have "rev (dropWhile (int_space True) (rev (dropWhile (int_space True) ?h))) = ?h"
    by (simp add: dw)
  ultimately have "int16 ?h = (case ?h of c # cs \<Rightarrow>
      (if c = CHR ''-'' then map_option (\<lambda>n. - int n) (hex_prefixed cs)
       else if c = CHR ''+'' then map_option int (hex_prefixed cs) else Some (int n)) | [] \<Rightarrow> None)"
    using ascii by (simp add: int16_def Let_def h)
  then show ?thesis using c by (simp add: h)
qed

lemma uuid_parse_str: "uuid_parse (uuid_str u) = Some u"
proof -
  let ?h = "hexs 32 (unat u)"
  have chars: "c = CHR ''-'' \<or> hex_digit c" if "c \<in> set (uuid_str u)" for c
    using that set_dashed [of ?h] by (auto simp: uuid_str_def dest: hex_digit_hexs)
  have "CHR ''u'' \<notin> set (uuid_str u)" using chars hex_digit_neq(6) by fastforce
  then have r: "py_replace ''uuid:'' [] (py_replace ''urn:'' [] (uuid_str u)) = uuid_str u"
    by (simp add: py_replace_absent)
  have s: "strip_chars ''{}'' (uuid_str u) = uuid_str u"
    using chars hex_digit_neq(7,8) by (intro strip_chars_absent) fastforce
  have f: "filter (\<lambda>c. c \<noteq> CHR ''-'') (uuid_str u) = ?h"
    unfolding uuid_str_def by (rule filter_dashed) (auto dest: hex_digit_hexs hex_digit_neq)
  have "int (unat u) < int (16 ^ 32)" using unat_uuid [of u] by (simp only: of_nat_less_iff)
  then have b: "int (unat u) < 2 ^ 128" by simp
  show ?thesis
    using int16_hexs [OF _ unat_uuid, of u] b by (simp add: uuid_parse_def r s f Let_def)
qed

text \<open>Claim: parsing the printed form of an id gives the id back, for both kinds of id.\<close>

lemma game_id_roundtrip: "game_id_parse (game_str g) = Inr g"
  by (simp add: game_id_parse_def game_str_def uuid_parse_str)

lemma user_id_roundtrip: "user_id_parse (user_str u) = Inr u"
  by (simp add: user_id_parse_def user_str_def uuid_parse_str)

end
