(* ===== verification/Dense.thy ===== *)
theory Dense
  imports Embedding
begin

text \<open>
  \<open>DenseEmbedding\<close> of \<open>domain/policy/embedding.py\<close>: a tuple of coordinates, empty until an
  embedding provider has answered. Adding vectors of different widths raises; the cosine of
  different widths is zero. \<open>at_width\<close> says a vector is empty or has a given width, the
  condition under which folding vectors cannot raise.
\<close>

datatype dense_embedding = DenseEmbedding (dense_values: "real list")

definition dense_empty :: dense_embedding where
  "dense_empty = DenseEmbedding []"

definition dense_of :: "real list \<Rightarrow> dense_embedding" where
  "dense_of vs = DenseEmbedding vs"

definition dense_is_empty :: "dense_embedding \<Rightarrow> bool" where
  "dense_is_empty d \<longleftrightarrow> dense_values d = []"

definition dimensions :: "dense_embedding \<Rightarrow> nat" where
  "dimensions d = length (dense_values d)"

definition dense_magnitude :: "dense_embedding \<Rightarrow> real" where
  "dense_magnitude d = sqrt (sum_list (map (\<lambda>v. v * v) (dense_values d)))"

definition dense_plus :: "dense_embedding \<Rightarrow> dense_embedding \<Rightarrow> real \<Rightarrow> exn + dense_embedding" where
  "dense_plus self other scale =
     (if dense_is_empty other then Inr self
      else if dense_is_empty self then Inr (DenseEmbedding (map (\<lambda>v. v * scale) (dense_values other)))
      else if length (dense_values self) \<noteq> length (dense_values other)
      then Inl (InvariantViolation (''cannot add a '' @ nat_str (dimensions other) @
             ''-dimensional vector to a '' @ nat_str (dimensions self) @ ''-dimensional one''))
      else Inr (DenseEmbedding (map2 (\<lambda>a b. a + b * scale) (dense_values self) (dense_values other))))"

definition dense_cosine :: "dense_embedding \<Rightarrow> dense_embedding \<Rightarrow> real" where
  "dense_cosine self other =
     (if dense_is_empty self \<or> dense_is_empty other
         \<or> length (dense_values self) \<noteq> length (dense_values other) then 0
      else let left = dense_magnitude self; right = dense_magnitude other in
        if left = 0 \<or> right = 0 then 0
        else sum_list (map2 (*) (dense_values self) (dense_values other)) / (left * right))"

section \<open>Widths\<close>

definition at_width :: "nat \<Rightarrow> dense_embedding \<Rightarrow> bool" where
  "at_width w d \<longleftrightarrow> dense_is_empty d \<or> dimensions d = w"

lemma at_width_empty [simp]: "at_width w dense_empty"
  by (simp add: at_width_def dense_is_empty_def dense_empty_def)

lemma dense_empty_simps [simp]: "dense_is_empty dense_empty" "dense_values dense_empty = []"
  by (simp_all add: dense_is_empty_def dense_empty_def)

text \<open>At one width, addition returns, stays at that width, and adds coordinate by coordinate.\<close>

definition dcoord :: "dense_embedding \<Rightarrow> nat \<Rightarrow> real" where
  "dcoord d i = (if i < dimensions d then dense_values d ! i else 0)"

lemma dense_plus_at_width:
  assumes "at_width w a" "at_width w b"
  obtains c where "dense_plus a b s = Inr c" "at_width w c"
    "\<And>i. dcoord c i = dcoord a i + dcoord b i * s"
    "dense_is_empty c \<longleftrightarrow> dense_is_empty a \<and> dense_is_empty b"
proof -
  consider "dense_is_empty b" | "\<not> dense_is_empty b" "dense_is_empty a"
    | "\<not> dense_is_empty b" "\<not> dense_is_empty a" "length (dense_values a) = length (dense_values b)"
    using assms by (fastforce simp: at_width_def dimensions_def)
  then show thesis
  proof cases
    case 1
    then show thesis
      using assms by (intro that [of a]) (auto simp: dense_plus_def dcoord_def dimensions_def dense_is_empty_def)
  next
    case 2
    then show thesis
      using assms
      by (intro that [of "DenseEmbedding (map (\<lambda>v. v * s) (dense_values b))"])
         (auto simp: dense_plus_def dcoord_def dimensions_def dense_is_empty_def at_width_def)
  next
    case 3
    then show thesis
      using assms
      by (intro that [of "DenseEmbedding (map2 (\<lambda>a b. a + b * s) (dense_values a) (dense_values b))"])
         (auto simp: dense_plus_def dcoord_def dimensions_def dense_is_empty_def at_width_def)
  qed
qed

lemma dense_plus_mismatch:
  "\<not> dense_is_empty a \<Longrightarrow> \<not> dense_is_empty b \<Longrightarrow> dimensions a \<noteq> dimensions b \<Longrightarrow>
     \<exists>m. dense_plus a b s = Inl (InvariantViolation m)"
  by (simp add: dense_plus_def dimensions_def)

lemma dense_plus_identity:
  "dense_plus a dense_empty s = Inr a"
  "dense_plus dense_empty b 1 = Inr b"
  by (auto simp: dense_plus_def dense_is_empty_def intro: dense_embedding.expand)

section \<open>Cosine\<close>

lemma sum_list_nth: "sum_list (map f xs) = (\<Sum>i < length xs. f (xs ! i))"
  by (simp add: sum_list_sum_nth atLeast0LessThan)

lemma dense_magnitude_nonneg [simp]: "0 \<le> dense_magnitude d"
  by (auto simp: dense_magnitude_def intro!: sum_list_nonneg)

lemma dense_magnitude_sq:
  "dense_magnitude d * dense_magnitude d = (\<Sum>i < dimensions d. dense_values d ! i * dense_values d ! i)"
  by (simp add: dense_magnitude_def sum_list_nth dimensions_def sum_nonneg)

lemma dense_cosine_abs: "\<bar>dense_cosine a b\<bar> \<le> 1"
proof (cases "dense_cosine a b = 0")
  case True
  then show ?thesis by simp
next
  case False
  then have len: "length (dense_values a) = length (dense_values b)"
    and nz: "dense_magnitude a \<noteq> 0" "dense_magnitude b \<noteq> 0"
    and c: "dense_cosine a b = sum_list (map2 (*) (dense_values a) (dense_values b)) /
      (dense_magnitude a * dense_magnitude b)"
    by (auto simp: dense_cosine_def Let_def split: if_splits)
  have pos: "0 < dense_magnitude a" "0 < dense_magnitude b"
    using nz dense_magnitude_nonneg [of a] dense_magnitude_nonneg [of b] by linarith+
  have "sum_list (map2 (*) (dense_values a) (dense_values b)) =
      (\<Sum>i < dimensions a. dense_values a ! i * dense_values b ! i)"
    using len by (simp add: sum_list_nth dimensions_def)
  moreover have "\<bar>\<Sum>i < dimensions a. dense_values a ! i * dense_values b ! i\<bar> \<le>
      dense_magnitude a * dense_magnitude b"
    using len by (intro dot_bound [OF pos]) (simp_all add: dense_magnitude_sq dimensions_def)
  ultimately show ?thesis using pos by (simp add: c abs_mult)
qed

lemma dense_cosine_le_1: "dense_cosine a b \<le> 1"
  using dense_cosine_abs [of a b] by simp

lemma dense_cosine_mismatch: "dimensions a \<noteq> dimensions b \<Longrightarrow> dense_cosine a b = 0"
  by (simp add: dense_cosine_def dimensions_def)

end
