(* ===== verification/Catalog.thy ===== *)
theory Catalog
  imports Dense
begin

text \<open>
  \<open>GameProfile\<close> of \<open>domain/catalog/game_profile.py\<close>: the read-model of a game. A dataclass
  \<open>replace\<close> runs \<open>__post_init__\<close> again, so every operation goes through
  \<open>mk_game_profile\<close> and may raise; \<open>wf_game\<close> is the invariant under which the ones that
  change no text cannot.
\<close>

record game_profile =
  game_id :: game_id
  developer_id :: user_id
  title :: string
  genres :: "string list"
  tags :: "string list"
  description :: string
  published_at :: "datetime option"
  is_published :: bool
  purchase_count :: int
  embedding :: embedding
  dense :: dense_embedding

definition embed :: "string list \<Rightarrow> string list \<Rightarrow> exn + embedding" where
  "embed gs ts =
     bindE (mapE (feature ''genre'') (filter (\<lambda>g. py_strip g \<noteq> []) gs)) (\<lambda>fs.
     bindE (mapE (feature ''tag'') (filter (\<lambda>t. py_strip t \<noteq> []) ts)) (\<lambda>fs'.
     Inr (emb_of (fs @ fs'))))"

definition trimmed :: "string \<Rightarrow> string" where
  "trimmed d = take MAX_DESCRIPTION_CHARS (py_strip d)"

text \<open>The constructor with its \<open>__post_init__\<close>.\<close>

definition mk_game_profile :: "game_profile \<Rightarrow> exn + game_profile" where
  "mk_game_profile g =
     (if py_strip (title g) = [] then Inl (InvariantViolation ''game title must not be blank'')
      else if MAX_TITLE_CHARS < length (title g)
      then Inl (InvariantViolation (''game title must be at most '' @ nat_str MAX_TITLE_CHARS @ '' characters''))
      else if purchase_count g < 0 then Inl (InvariantViolation ''purchase count must not be negative'')
      else if emb_is_empty (embedding g) \<and> (genres g \<noteq> [] \<or> tags g \<noteq> [])
      then bindE (embed (genres g) (tags g)) (\<lambda>e. Inr (g\<lparr>embedding := e\<rparr>))
      else Inr g)"

definition published ::
  "game_id \<Rightarrow> user_id \<Rightarrow> string \<Rightarrow> string list \<Rightarrow> string list \<Rightarrow> datetime option \<Rightarrow> string \<Rightarrow> exn + game_profile" where
  "published gid dev t gs ts pa d =
     bindE (embed gs ts) (\<lambda>e. mk_game_profile
       \<lparr>game_id = gid, developer_id = dev, title = py_strip t, genres = gs, tags = ts,
        description = trimmed d, published_at = pa, is_published = True, purchase_count = 0,
        embedding = e, dense = dense_empty\<rparr>)"

definition redescribed ::
  "game_profile \<Rightarrow> string \<Rightarrow> string list \<Rightarrow> string list \<Rightarrow> string \<Rightarrow> exn + game_profile" where
  "redescribed g t gs ts d =
     bindE (embed gs ts) (\<lambda>e. mk_game_profile
       (g\<lparr>title := py_strip t, genres := gs, tags := ts, description := trimmed d,
          is_published := True, embedding := e, dense := dense_empty\<rparr>))"

definition embedded :: "game_profile \<Rightarrow> dense_embedding \<Rightarrow> exn + game_profile" where
  "embedded g d = mk_game_profile (g\<lparr>dense := d\<rparr>)"

definition bought :: "game_profile \<Rightarrow> exn + game_profile" where
  "bought g = mk_game_profile (g\<lparr>purchase_count := purchase_count g + 1\<rparr>)"

definition withdrawn :: "game_profile \<Rightarrow> exn + game_profile" where
  "withdrawn g = mk_game_profile (g\<lparr>is_published := False\<rparr>)"

definition is_recommendable :: "game_profile \<Rightarrow> bool" where
  "is_recommendable g = is_published g"

definition needs_embedding :: "game_profile \<Rightarrow> bool" where
  "needs_embedding g \<longleftrightarrow> is_published g \<and> dense_is_empty (dense g)"

definition embedding_text :: "game_profile \<Rightarrow> string" where
  "embedding_text g =
     py_join '' '' ([title g]
       @ (if genres g \<noteq> [] then [''Genres: '' @ py_join '', '' (genres g) @ ''.''] else [])
       @ (if tags g \<noteq> [] then [''Tags: '' @ py_join '', '' (tags g) @ ''.''] else [])
       @ (if description g \<noteq> [] then [description g] else []))"

section \<open>Embedding a game's labels\<close>

definition label_fits :: "string \<Rightarrow> string \<Rightarrow> bool" where
  "label_fits kind l \<longleftrightarrow> length kind + 1 + length (normalised l) \<le> MAX_FEATURE_CHARS"

abbreviation nonblank :: "string list \<Rightarrow> string list" where
  "nonblank ls \<equiv> filter (\<lambda>l. py_strip l \<noteq> []) ls"

definition labels_fit :: "string list \<Rightarrow> string list \<Rightarrow> bool" where
  "labels_fit gs ts \<longleftrightarrow> (\<forall>g \<in> set (nonblank gs). label_fits ''genre'' g) \<and>
     (\<forall>t \<in> set (nonblank ts). label_fits ''tag'' t)"

definition label_features :: "string list \<Rightarrow> string list \<Rightarrow> string list" where
  "label_features gs ts =
     map (\<lambda>g. ''genre:'' @ normalised g) (nonblank gs) @ map (\<lambda>t. ''tag:'' @ normalised t) (nonblank ts)"

lemma feature_fits:
  "py_strip l \<noteq> [] \<Longrightarrow> label_fits kind l \<Longrightarrow> feature kind l = Inr (kind @ '':'' @ normalised l)"
  by (simp add: feature_eq label_fits_def)

lemma feature_unfit:
  "py_strip l \<noteq> [] \<Longrightarrow> \<not> label_fits kind l \<Longrightarrow> \<exists>m. feature kind l = Inl (InvariantViolation m)"
  by (simp add: feature_eq label_fits_def)

lemma mapE_unfit:
  assumes "\<forall>l \<in> set ls. py_strip l \<noteq> []" "\<exists>l \<in> set ls. \<not> label_fits kind l"
  shows "\<exists>m. mapE (feature kind) ls = Inl (InvariantViolation m)"
  using assms
proof (induction ls)
  case Nil
  then show ?case by simp
next
  case (Cons l ls)
  show ?case
  proof (cases "label_fits kind l")
    case True
    with Cons show ?thesis by (auto simp: feature_fits)
  next
    case False
    with Cons.prems feature_unfit [of l kind] show ?thesis by auto
  qed
qed

lemma embed_fits: "labels_fit gs ts \<Longrightarrow> embed gs ts = Inr (emb_of (label_features gs ts))"
  using mapE_total [of "nonblank gs" "feature ''genre''" "\<lambda>g. ''genre'' @ '':'' @ normalised g"]
    mapE_total [of "nonblank ts" "feature ''tag''" "\<lambda>t. ''tag'' @ '':'' @ normalised t"]
  by (simp add: embed_def labels_fit_def label_features_def feature_fits)

lemma embed_unfit: "\<not> labels_fit gs ts \<Longrightarrow> \<exists>m. embed gs ts = Inl (InvariantViolation m)"
  using mapE_unfit [of "nonblank gs" "''genre''"] mapE_unfit [of "nonblank ts" "''tag''"]
    mapE_total [of "nonblank gs" "feature ''genre''" "\<lambda>g. ''genre'' @ '':'' @ normalised g"]
  by (cases "\<forall>g \<in> set (nonblank gs). label_fits ''genre'' g")
     (auto simp: embed_def labels_fit_def feature_fits)

lemma embed_InrD: "embed gs ts = Inr e \<Longrightarrow> labels_fit gs ts \<and> e = emb_of (label_features gs ts)"
  using embed_fits [of gs ts] embed_unfit [of gs ts] by (cases "labels_fit gs ts") auto

lemma embed_InlD: "embed gs ts = Inl e \<Longrightarrow> \<not> labels_fit gs ts \<and> (\<exists>m. e = InvariantViolation m)"
  using embed_fits [of gs ts] embed_unfit [of gs ts] by (cases "labels_fit gs ts") auto

section \<open>The invariant of a game profile\<close>

definition wf_game :: "game_profile \<Rightarrow> bool" where
  "wf_game g \<longleftrightarrow> py_strip (title g) \<noteq> [] \<and> length (title g) \<le> MAX_TITLE_CHARS \<and>
     0 \<le> purchase_count g \<and> wf_embedding (embedding g) \<and> labels_fit (genres g) (tags g) \<and>
     embedding g = emb_of (label_features (genres g) (tags g))"

lemma label_features_empty: "genres g = [] \<Longrightarrow> tags g = [] \<Longrightarrow> label_features (genres g) (tags g) = []"
  by (simp add: label_features_def)

lemma mk_game_profile_wf:
  "wf_game g \<Longrightarrow> mk_game_profile g = Inr g"
  by (auto simp: mk_game_profile_def wf_game_def embed_fits)

lemma wf_game_updates [simp]:
  "wf_game (g\<lparr>dense := d\<rparr>) = wf_game g"
  "wf_game (g\<lparr>is_published := b\<rparr>) = wf_game g"
  "wf_game (g\<lparr>published_at := p\<rparr>) = wf_game g"
  by (simp_all add: wf_game_def)

lemma wf_game_bought: "wf_game g \<Longrightarrow> wf_game (g\<lparr>purchase_count := purchase_count g + 1\<rparr>)"
  by (simp add: wf_game_def)

named_theorems game_ops \<open>the operations of a well-formed game, which cannot raise\<close>

lemma bought_wf [game_ops]: "wf_game g \<Longrightarrow> bought g = Inr (g\<lparr>purchase_count := purchase_count g + 1\<rparr>)"
  by (simp add: bought_def mk_game_profile_wf wf_game_bought)

lemma withdrawn_wf [game_ops]: "wf_game g \<Longrightarrow> withdrawn g = Inr (g\<lparr>is_published := False\<rparr>)"
  by (simp add: withdrawn_def mk_game_profile_wf)

lemma embedded_wf [game_ops]: "wf_game g \<Longrightarrow> embedded g d = Inr (g\<lparr>dense := d\<rparr>)"
  by (simp add: embedded_def mk_game_profile_wf)

text \<open>A new or rewritten description is accepted exactly when its title and labels fit.\<close>

definition describable :: "string \<Rightarrow> string list \<Rightarrow> string list \<Rightarrow> bool" where
  "describable t gs ts \<longleftrightarrow> py_strip t \<noteq> [] \<and> length (py_strip t) \<le> MAX_TITLE_CHARS \<and> labels_fit gs ts"

lemma mk_described:
  assumes "labels_fit gs ts" "0 \<le> purchase_count g"
  shows "mk_game_profile (g\<lparr>title := py_strip t, genres := gs, tags := ts, description := d,
      is_published := True, embedding := emb_of (label_features gs ts), dense := dense_empty\<rparr>) =
    (if py_strip t = [] then Inl (InvariantViolation ''game title must not be blank'')
     else if MAX_TITLE_CHARS < length (py_strip t)
     then Inl (InvariantViolation (''game title must be at most '' @ nat_str MAX_TITLE_CHARS @ '' characters''))
     else Inr (g\<lparr>title := py_strip t, genres := gs, tags := ts, description := d,
      is_published := True, embedding := emb_of (label_features gs ts), dense := dense_empty\<rparr>))"
  using assms by (auto simp: mk_game_profile_def embed_fits)

lemma redescribed_ok [game_ops]:
  assumes "0 \<le> purchase_count g" "describable t gs ts"
  shows "redescribed g t gs ts d =
    Inr (g\<lparr>title := py_strip t, genres := gs, tags := ts, description := trimmed d,
      is_published := True, embedding := emb_of (label_features gs ts), dense := dense_empty\<rparr>)"
  using assms mk_described [where gs = gs and ts = ts and g = g and t = t and d = "trimmed d"]
  by (auto simp: redescribed_def describable_def embed_fits)

lemma redescribed_fails:
  assumes "0 \<le> purchase_count g" "\<not> describable t gs ts"
  shows "\<exists>m. redescribed g t gs ts d = Inl (InvariantViolation m)"
  using assms mk_described [where gs = gs and ts = ts and g = g and t = t and d = "trimmed d"] embed_unfit [of gs ts]
  by (cases "labels_fit gs ts") (auto simp: redescribed_def describable_def embed_fits)

definition blank_game :: "game_id \<Rightarrow> user_id \<Rightarrow> datetime option \<Rightarrow> game_profile" where
  "blank_game gid dev pa =
     \<lparr>game_id = gid, developer_id = dev, title = [], genres = [], tags = [], description = [],
      published_at = pa, is_published = True, purchase_count = 0, embedding = emb_empty,
      dense = dense_empty\<rparr>"

lemma published_redescribed:
  "published gid dev t gs ts pa d = redescribed (blank_game gid dev pa) t gs ts d"
  by (simp add: published_def redescribed_def blank_game_def)

lemma wf_game_described:
  "0 \<le> purchase_count g \<Longrightarrow> describable t gs ts \<Longrightarrow>
     wf_game (g\<lparr>title := py_strip t, genres := gs, tags := ts, description := d, is_published := b,
       embedding := emb_of (label_features gs ts)\<rparr>)"
  by (simp add: wf_game_def describable_def)

lemma redescribed_Inr:
  assumes "0 \<le> purchase_count g" "redescribed g t gs ts d = Inr g'"
  shows "wf_game g' \<and> describable t gs ts \<and> game_id g' = game_id g \<and> developer_id g' = developer_id g \<and>
    purchase_count g' = purchase_count g \<and> dense g' = dense_empty \<and> is_published g' \<and>
    published_at g' = published_at g \<and> title g' = py_strip t \<and> genres g' = gs \<and> tags g' = ts"
proof -
  have d: "describable t gs ts" using redescribed_fails [OF assms(1), of t gs ts d] assms(2) by auto
  show ?thesis using redescribed_ok [OF assms(1) d, of d] assms d by (auto simp: wf_game_described)
qed

lemma published_Inr:
  assumes "published gid dev t gs ts pa d = Inr g'"
  shows "wf_game g' \<and> describable t gs ts \<and> game_id g' = gid \<and> developer_id g' = dev \<and>
    purchase_count g' = 0 \<and> dense g' = dense_empty \<and> is_published g' \<and> published_at g' = pa \<and>
    title g' = py_strip t \<and> genres g' = gs \<and> tags g' = ts"
  using redescribed_Inr [OF _ assms [unfolded published_redescribed]] by (auto simp: blank_game_def)

end
