(* ===== verification/Preference.thy ===== *)
theory Preference
  imports Catalog
begin

text \<open>
  Taste: signals (\<open>domain/preference/signal.py\<close>) and the user profile they are folded into
  (\<open>domain/preference/profile.py\<close>). The sparse taste vector is a running sum; \<open>history\<close>
  remembers the last 200 signals, and \<open>rebuilt_in\<close> recomputes the dense vector from it.
\<close>

section \<open>Signals\<close>

datatype signal_kind = PURCHASE | REVIEW_LIKE | REVIEW_DISLIKE

fun weight_of :: "signal_kind \<Rightarrow> real" where
  "weight_of PURCHASE = 1"
| "weight_of REVIEW_LIKE = 1 / 2"
| "weight_of REVIEW_DISLIKE = - 3 / 10"

record signal_record =
  signal_game :: game_id
  signal_weight :: real

section \<open>Profiles\<close>

record user_preference =
  pref_user_id :: user_id
  taste :: embedding
  taste_dense :: dense_embedding
  owned :: "game_id fset"
  history :: "signal_record list"
  signal_count :: int
  updated_at :: "datetime option"

definition blank :: "user_id \<Rightarrow> user_preference" where
  "blank u =
     \<lparr>pref_user_id = u, taste = emb_empty, taste_dense = dense_empty, owned = {||}, history = [],
      signal_count = 0, updated_at = None\<rparr>"

definition is_cold :: "user_preference \<Rightarrow> bool" where
  "is_cold p \<longleftrightarrow> signal_count p = 0 \<or> emb_is_empty (taste p)"

text \<open>\<open>xs[-n:]\<close>: the last \<open>n\<close> elements.\<close>

definition keep_last :: "nat \<Rightarrow> 'a list \<Rightarrow> 'a list" where
  "keep_last n xs = drop (length xs - n) xs"

definition observe :: "user_preference \<Rightarrow> game_profile \<Rightarrow> signal_kind \<Rightarrow> datetime \<Rightarrow> exn + user_preference" where
  "observe p game kind tm =
     (let weight = weight_of kind;
          rec = \<lparr>signal_game = game_id game, signal_weight = weight\<rparr>;
          tst = emb_plus (taste p) (embedding game) weight
      in bindE (dense_plus (taste_dense p) (dense game) weight) (\<lambda>td.
         Inr (p\<lparr>taste := tst,
                taste_dense := td,
                owned := (if kind = PURCHASE then finsert (game_id game) (owned p) else owned p),
                history := keep_last MAX_SIGNAL_HISTORY (history p @ [rec]),
                signal_count := signal_count p + 1,
                updated_at := Some tm\<rparr>)))"

text \<open>The loop of \<open>rebuilt_in\<close>; \<open>space\<close> is the mapping the caller supplies.\<close>

fun rebuild :: "(game_id \<rightharpoonup> dense_embedding) \<Rightarrow> signal_record list \<Rightarrow> dense_embedding \<Rightarrow> exn + dense_embedding" where
  "rebuild space [] acc = Inr acc"
| "rebuild space (r # rs) acc =
     (case space (signal_game r) of
        None \<Rightarrow> rebuild space rs acc
      | Some v \<Rightarrow>
          if dense_is_empty v then rebuild space rs acc
          else bindE (dense_plus acc v (signal_weight r)) (rebuild space rs))"

definition rebuilt_in :: "user_preference \<Rightarrow> (game_id \<rightharpoonup> dense_embedding) \<Rightarrow> exn + user_preference" where
  "rebuilt_in p space =
     bindE (rebuild space (history p) dense_empty) (\<lambda>d. Inr (p\<lparr>taste_dense := d\<rparr>))"

definition owns :: "user_preference \<Rightarrow> game_id \<Rightarrow> bool" where
  "owns p g \<longleftrightarrow> g |\<in>| owned p"

definition remembered_games :: "user_preference \<Rightarrow> game_id list" where
  "remembered_games p =
     map fst (fold (\<lambda>r seen. if signal_game r \<in> fst ` set seen then seen else seen @ [(signal_game r, ())])
       (rev (history p)) [])"

section \<open>Invariant\<close>

definition wf_pref :: "user_preference \<Rightarrow> bool" where
  "wf_pref p \<longleftrightarrow> wf_embedding (taste p) \<and> length (history p) \<le> MAX_SIGNAL_HISTORY \<and>
     0 \<le> signal_count p \<and> (signal_count p = 0 \<longrightarrow> history p = [])"

lemma wf_blank [simp]: "wf_pref (blank u)"
  by (simp add: wf_pref_def blank_def)

lemma pref_user_id_blank [simp]: "pref_user_id (blank u) = u"
  by (simp add: blank_def)

lemma length_keep_last: "length (keep_last n xs) = min n (length xs)"
  by (simp add: keep_last_def)

lemma observe_Inr:
  assumes "observe p g k tm = Inr q"
  shows "pref_user_id q = pref_user_id p"
    and "taste q = emb_plus (taste p) (embedding g) (weight_of k)"
    and "owned q = (if k = PURCHASE then finsert (game_id g) (owned p) else owned p)"
    and "history q = keep_last MAX_SIGNAL_HISTORY
           (history p @ [\<lparr>signal_game = game_id g, signal_weight = weight_of k\<rparr>])"
    and "signal_count q = signal_count p + 1"
    and "updated_at q = Some tm"
    and "dense_plus (taste_dense p) (dense g) (weight_of k) = Inr (taste_dense q)"
  using assms by (auto simp: observe_def Let_def res_simps)

lemma observe_wf:
  assumes "wf_pref p" "wf_embedding (embedding g)" "observe p g k tm = Inr q"
  shows "wf_pref q"
  using assms observe_Inr [OF assms(3)]
  by (auto simp: wf_pref_def length_keep_last)

lemma observe_total:
  assumes "at_width w (taste_dense p)" "at_width w (dense g)"
  shows "\<exists>q. observe p g k tm = Inr q \<and> at_width w (taste_dense q)"
proof -
  obtain c where "dense_plus (taste_dense p) (dense g) (weight_of k) = Inr c" "at_width w c"
    using dense_plus_at_width [OF assms, of "weight_of k"] by blast
  then show ?thesis by (simp add: observe_def Let_def)
qed

text \<open>The taste vector after a signal, coordinate by coordinate.\<close>

lemma observe_coord:
  "wf_pref p \<Longrightarrow> wf_embedding (embedding g) \<Longrightarrow> observe p g k tm = Inr q \<Longrightarrow>
     coord (taste q) n = coord (taste p) n + coord (embedding g) n * weight_of k"
  by (simp add: observe_Inr wf_pref_def coord_plus)

section \<open>Remembered games\<close>

lemma remembered_fold:
  "distinct (map fst seen) \<Longrightarrow>
   (let out = fold (\<lambda>r seen. if signal_game r \<in> fst ` set seen then seen else seen @ [(signal_game r, ())]) rs seen
    in distinct (map fst out) \<and> fst ` set out = fst ` set seen \<union> signal_game ` set rs)"
proof (induction rs arbitrary: seen)
  case Nil
  then show ?case by simp
next
  case (Cons r rs)
  then show ?case
    by (cases "signal_game r \<in> fst ` set seen") (auto simp: Let_def insert_absorb)
qed

lemma set_remembered_games: "set (remembered_games p) = signal_game ` set (history p)"
  using remembered_fold [of "[]" "rev (history p)"] by (simp add: remembered_games_def Let_def)

lemma distinct_remembered_games: "distinct (remembered_games p)"
  using remembered_fold [of "[]" "rev (history p)"] by (simp add: remembered_games_def Let_def)

section \<open>Rebuilding the dense vector\<close>

text \<open>
  At one width rebuilding cannot raise, and each coordinate is the weighted sum of the
  coordinates of the remembered games that have a vector.
\<close>

definition space_coord :: "(game_id \<rightharpoonup> dense_embedding) \<Rightarrow> game_id \<Rightarrow> nat \<Rightarrow> real" where
  "space_coord space g i = (case space g of None \<Rightarrow> 0 | Some v \<Rightarrow> dcoord v i)"

lemma dcoord_empty [simp]: "dense_is_empty v \<Longrightarrow> dcoord v i = 0"
  by (simp add: dcoord_def dimensions_def dense_is_empty_def)

lemma rebuild_sum:
  assumes "\<And>g v. space g = Some v \<Longrightarrow> at_width w v" "at_width w acc"
  shows "\<exists>d. rebuild space rs acc = Inr d \<and> at_width w d \<and>
    (\<forall>i. dcoord d i = dcoord acc i + sum_list (map (\<lambda>r. space_coord space (signal_game r) i * signal_weight r) rs))"
  using assms(2)
proof (induction rs arbitrary: acc)
  case Nil
  then show ?case by simp
next
  case (Cons r rs)
  show ?case
  proof (cases "space (signal_game r)")
    case None
    with Cons show ?thesis by (simp add: space_coord_def)
  next
    case (Some v)
    show ?thesis
    proof (cases "dense_is_empty v")
      case True
      with Some Cons show ?thesis by (simp add: space_coord_def)
    next
      case False
      obtain c where c: "dense_plus acc v (signal_weight r) = Inr c" "at_width w c"
        "\<And>i. dcoord c i = dcoord acc i + dcoord v i * signal_weight r"
        using dense_plus_at_width [OF Cons.prems assms(1) [OF Some], of "signal_weight r"] by blast
      with Cons.IH [OF c(2)] Some False show ?thesis by (auto simp: space_coord_def)
    qed
  qed
qed

end
