(* ===== verification/Scoring.thy ===== *)
theory Scoring
  imports Preference
begin

text \<open>
  The recommender (\<open>domain/policy/scoring.py\<close>) and the \<open>Recommendation\<close> value
  (\<open>domain/recommendation/recommendation.py\<close>). The content half is an interface with two
  implementations; \<open>content_scorer\<close> states what the ranker relies on, and both scorers of
  the code are shown to provide it.
\<close>

section \<open>Recommendations\<close>

datatype recommendation_source = CONTENT | COLLAB | HYBRID | FALLBACK

fun source_str :: "recommendation_source \<Rightarrow> string" where
  "source_str CONTENT = ''CONTENT''"
| "source_str COLLAB = ''COLLAB''"
| "source_str HYBRID = ''HYBRID''"
| "source_str FALLBACK = ''FALLBACK''"

record recommendation =
  rec_id :: recommendation_id
  rec_user_id :: user_id
  rec_game_id :: game_id
  rec_score :: real
  rec_source :: recommendation_source
  rec_rank :: int
  rec_generated_at :: datetime
  rec_reasons :: "string list"

definition mk_recommendation :: "recommendation \<Rightarrow> exn + recommendation" where
  "mk_recommendation r =
     (if rec_rank r < 1 then Inl (InvariantViolation ''rank is one-based'')
      else if rec_score r < 0
      then Inl (InvariantViolation ''a recommendation with a negative score should not have been kept'')
      else Inr r)"

section \<open>Scorers\<close>

record scored_game =
  sg_game :: game_profile
  sg_content :: real
  sg_collaborative :: real
  sg_reasons :: "string list"

definition sg_source :: "scored_game \<Rightarrow> recommendation_source" where
  "sg_source i =
     (if 0 < sg_content i \<and> 0 < sg_collaborative i then HYBRID
      else if 0 < sg_collaborative i then COLLAB
      else CONTENT)"

record scorer =
  score :: "user_preference \<Rightarrow> game_profile \<Rightarrow> real"
  reasons :: "user_preference \<Rightarrow> game_profile \<Rightarrow> string list"

definition content_based_scorer :: scorer where
  "content_based_scorer =
     \<lparr>score = (\<lambda>p g. max 0 (emb_cosine (taste p) (embedding g))),
      reasons = (\<lambda>p g. emb_overlap (taste p) (embedding g))\<rparr>"

definition dense_content_scorer :: scorer where
  "dense_content_scorer =
     \<lparr>score = (\<lambda>p g. max 0 (dense_cosine (taste_dense p) (dense g))),
      reasons = (\<lambda>p g. [])\<rparr>"

definition PRIOR :: real where
  "PRIOR = 5"

definition collaborative_scores :: "(game_id, int) dict \<Rightarrow> (game_id, real) dict" where
  "collaborative_scores co =
     map (\<lambda>(g, count). (g, of_int count / (of_int count + PRIOR))) (filter (\<lambda>(g, count). 0 < count) co)"

section \<open>The hybrid ranker\<close>

definition CONTENT_WEIGHT :: real where "CONTENT_WEIGHT = 65 / 100"
definition COLLABORATIVE_WEIGHT :: real where "COLLABORATIVE_WEIGHT = 35 / 100"

definition blend :: "real \<Rightarrow> real \<Rightarrow> real" where
  "blend content collaborative = CONTENT_WEIGHT * content + COLLABORATIVE_WEIGHT * collaborative"

text \<open>One iteration of the candidate loop: \<open>None\<close> for a \<open>continue\<close>.\<close>

definition score_candidate ::
  "scorer \<Rightarrow> user_preference \<Rightarrow> (game_id, real) dict \<Rightarrow> game_profile \<Rightarrow> scored_game option" where
  "score_candidate sc p collaborative game =
     (if \<not> is_recommendable game \<or> owns p (game_id game) then None
      else let content = score sc p game; collab = dget collaborative (game_id game) 0 in
        if blend content collab \<le> 0 then None
        else Some \<lparr>sg_game = game, sg_content = content, sg_collaborative = collab,
                   sg_reasons = reasons sc p game\<rparr>)"

definition rank_key :: "scored_game \<Rightarrow> real \<times> int \<times> string" where
  "rank_key i =
     (- blend (sg_content i) (sg_collaborative i), - purchase_count (sg_game i), game_str (game_id (sg_game i)))"

definition rank ::
  "scorer \<Rightarrow> user_preference \<Rightarrow> game_profile list \<Rightarrow> (game_id, int) dict \<Rightarrow> int \<Rightarrow> scored_game list" where
  "rank sc p candidates co_purchases limit =
     py_take limit (sort_key rank_key
       (List.map_filter (score_candidate sc p (collaborative_scores co_purchases)) candidates))"

section \<open>Top sellers\<close>

definition popularity_key :: "game_profile \<Rightarrow> int \<times> string" where
  "popularity_key g = (- purchase_count g, game_str (game_id g))"

definition top_sellers :: "game_profile list \<Rightarrow> user_preference \<Rightarrow> int \<Rightarrow> game_profile list" where
  "top_sellers games p limit =
     py_take limit (sort_key popularity_key (filter (\<lambda>g. is_recommendable g \<and> \<not> owns p (game_id g)) games))"

section \<open>Collaborative scores\<close>

lemma map_of_collaborative:
  "dict_ok co \<Longrightarrow> dget (collaborative_scores co) g 0 =
     (case map_of co g of None \<Rightarrow> 0
      | Some n \<Rightarrow> if 0 < n then of_int n / (of_int n + PRIOR) else 0)"
proof (induction co)
  case Nil
  then show ?case by (simp add: collaborative_scores_def dget_def)
next
  case (Cons p co)
  obtain h n where p: "p = (h, n)" by (cases p)
  have "collaborative_scores (p # co) =
      (if 0 < n then (h, of_int n / (of_int n + PRIOR)) # collaborative_scores co else collaborative_scores co)"
    by (simp add: collaborative_scores_def p)
  moreover have "map_of co h = None" using Cons.prems by (simp add: p map_of_eq_None_iff)
  ultimately show ?case using Cons by (auto simp: p dict_simps)
qed

lemma collaborative_range:
  assumes "dict_ok co"
  shows "0 \<le> dget (collaborative_scores co) g 0 \<and> dget (collaborative_scores co) g 0 < 1"
  unfolding map_of_collaborative [OF assms]
  by (auto simp: PRIOR_def divide_less_eq_1 split: option.split)

text \<open>More co-buyers never lower the score, and a strictly larger count strictly raises it.\<close>

lemma shrinkage_mono:
  fixes m n :: int
  assumes "0 \<le> m" "m < n"
  shows "of_int m / (of_int m + PRIOR) < of_int n / (of_int n + PRIOR)"
  using assms by (simp add: PRIOR_def field_simps)

section \<open>What the ranker relies on\<close>

locale content_scorer =
  fixes sc :: scorer
  assumes score_nonneg: "0 \<le> score sc p g"
    and score_le_1: "wf_pref p \<Longrightarrow> wf_game g \<Longrightarrow> score sc p g \<le> 1"
begin

lemma blend_range:
  assumes "wf_pref p" "wf_game g" "0 \<le> k" "k < 1"
  shows "0 \<le> blend (score sc p g) k" and "blend (score sc p g) k < 1"
  using assms score_nonneg [of p g] score_le_1 [OF assms(1,2)]
  by (auto simp: blend_def CONTENT_WEIGHT_def COLLABORATIVE_WEIGHT_def)

lemma kept_source:
  assumes "score_candidate sc p collab g = Some i"
    and "\<And>h. 0 \<le> dget collab h 0"
  shows "sg_source i = CONTENT \<longleftrightarrow> sg_collaborative i = 0 \<and> 0 < sg_content i"
    and "sg_source i = COLLAB \<longleftrightarrow> sg_content i = 0 \<and> 0 < sg_collaborative i"
    and "sg_source i \<noteq> FALLBACK"
  using assms(1) assms(2) [of "game_id g"] score_nonneg [of p g]
  by (auto simp: score_candidate_def sg_source_def Let_def blend_def CONTENT_WEIGHT_def
      COLLABORATIVE_WEIGHT_def split: if_splits)

end

interpretation sparse: content_scorer content_based_scorer
  by unfold_locales
     (auto simp: content_based_scorer_def wf_pref_def wf_game_def intro: emb_cosine_le_1)

interpretation semantic: content_scorer dense_content_scorer
  by unfold_locales (auto simp: dense_content_scorer_def dense_cosine_le_1)

section \<open>The ranker\<close>

lemma set_map_filter: "set (List.map_filter f xs) = {y. \<exists>x \<in> set xs. f x = Some y}"
  by (force simp: List.map_filter_def image_iff)

lemma score_candidate_SomeD:
  assumes "score_candidate sc p collab g = Some i"
  shows "sg_game i = g" "is_published g" "\<not> owns p (game_id g)"
    "0 < blend (sg_content i) (sg_collaborative i)" "sg_content i = score sc p g"
    "sg_collaborative i = dget collab (game_id g) 0" "sg_reasons i = reasons sc p g"
  using assms by (auto simp: score_candidate_def Let_def is_recommendable_def split: if_splits)

lemma set_rank:
  "i \<in> set (rank sc p cs co limit) \<Longrightarrow>
     \<exists>g \<in> set cs. score_candidate sc p (collaborative_scores co) g = Some i"
  using set_py_take [of limit] by (fastforce simp: rank_def set_map_filter)

lemma rank_sorted: "sorted (map rank_key (rank sc p cs co limit))"
  by (simp add: rank_def sorted_py_take)

lemma rank_length: "0 \<le> limit \<Longrightarrow> length (rank sc p cs co limit) \<le> nat limit"
  by (simp add: rank_def length_py_take)

text \<open>A prefix of a sorted list holds its least elements.\<close>

lemma py_take_sorted_least:
  assumes "sorted (map f xs)" "x \<in> set xs" "x \<notin> set (py_take n xs)" "0 \<le> n"
  shows "length (py_take n xs) = nat n" and "y \<in> set (py_take n xs) \<Longrightarrow> f y \<le> f x"
proof -
  obtain zs where zs: "xs = py_take n xs @ zs" using py_take_prefix [of xs n] by auto
  with assms have x: "x \<in> set zs" by (metis Un_iff set_append)
  show "f y \<le> f x" if "y \<in> set (py_take n xs)"
  proof -
    have "sorted (map f (py_take n xs) @ map f zs)"
      using assms(1) zs by (metis map_append)
    then show ?thesis using that x by (auto simp: sorted_append)
  qed
  from x have "zs \<noteq> []" by auto
  then have "length (py_take n xs) < length xs"
    using arg_cong [OF zs, of length] by simp
  then show "length (py_take n xs) = nat n" using length_py_take [OF assms(4), of xs] by simp
qed

lemma rank_best:
  assumes "0 \<le> limit" "g \<in> set cs" "score_candidate sc p (collaborative_scores co) g = Some i"
    and "i \<notin> set (rank sc p cs co limit)"
  shows "length (rank sc p cs co limit) = nat limit"
    and "j \<in> set (rank sc p cs co limit) \<Longrightarrow> rank_key j \<le> rank_key i"
  using py_take_sorted_least [of rank_key "sort_key rank_key (List.map_filter
      (score_candidate sc p (collaborative_scores co)) cs)" i limit] assms
  by (auto simp: rank_def set_map_filter)

lemma mset_map_filter: "mset xs = mset ys \<Longrightarrow> mset (List.map_filter f xs) = mset (List.map_filter f ys)"
  by (simp add: List.map_filter_def)

lemma inj_on_rank_key:
  assumes "inj_on game_id (set cs)"
  shows "inj_on rank_key (set (List.map_filter (score_candidate sc p collab) cs))"
proof (rule inj_onI)
  fix i j
  assume "i \<in> set (List.map_filter (score_candidate sc p collab) cs)"
    and "j \<in> set (List.map_filter (score_candidate sc p collab) cs)"
    and eq: "rank_key i = rank_key j"
  then obtain g h where gh: "g \<in> set cs" "h \<in> set cs"
    "score_candidate sc p collab g = Some i" "score_candidate sc p collab h = Some j"
    by (auto simp: set_map_filter)
  with eq have "game_id g = game_id h"
    using score_candidate_SomeD(1) [OF gh(3)] score_candidate_SomeD(1) [OF gh(4)]
    by (simp add: rank_key_def)
  with assms gh have "g = h" by (simp add: inj_on_eq_iff)
  with gh show "i = j" by simp
qed

lemma rank_perm:
  assumes "mset cs = mset cs'" "inj_on game_id (set cs)"
  shows "rank sc p cs co limit = rank sc p cs' co limit"
  unfolding rank_def
  by (subst sort_key_perm_unique [OF mset_map_filter [OF assms(1)] inj_on_rank_key [OF assms(2)]]) simp

section \<open>The top sellers\<close>

lemma set_top_sellers:
  "g \<in> set (top_sellers games p limit) \<Longrightarrow> g \<in> set games \<and> is_published g \<and> \<not> owns p (game_id g)"
  using set_py_take [of limit] by (fastforce simp: top_sellers_def is_recommendable_def)

lemma top_sellers_sorted: "sorted (map popularity_key (top_sellers games p limit))"
  by (simp add: top_sellers_def sorted_py_take)

lemma top_sellers_best:
  assumes "0 \<le> limit" "g \<in> set games" "is_published g" "\<not> owns p (game_id g)"
    and "g \<notin> set (top_sellers games p limit)"
  shows "length (top_sellers games p limit) = nat limit"
    and "h \<in> set (top_sellers games p limit) \<Longrightarrow> popularity_key h \<le> popularity_key g"
  using py_take_sorted_least [of popularity_key "sort_key popularity_key
      (filter (\<lambda>g. is_recommendable g \<and> \<not> owns p (game_id g)) games)" g limit] assms
  by (auto simp: top_sellers_def is_recommendable_def)

end
