(* ===== verification/Messaging.thy ===== *)
theory Messaging
  imports Scoring
begin

text \<open>
  What crosses the broker: JSON values, the outbox record
  (\<open>infrastructure/messaging/outbox/record.py\<close>), the one event this service publishes
  (\<open>domain/recommendation/events.py\<close>, \<open>domain/shared/events.py\<close>) and its serialization
  (\<open>infrastructure/messaging/serialization.py\<close>).
\<close>

datatype json =
    JNull
  | JBool bool
  | JInt int
  | JFloat real
  | JStr string
  | JList "json list"
  | JDict "(string \<times> json) list"

section \<open>datetime.isoformat\<close>

definition pad :: "nat \<Rightarrow> int \<Rightarrow> string" where
  "pad k n = (let s = nat_str (nat n) in replicate (k - length s) (CHR ''0'') @ s)"

text \<open>The proleptic Gregorian date of a day number, counted from 1970-01-01.\<close>

definition civil :: "int \<Rightarrow> int \<times> int \<times> int" where
  "civil days =
     (let z = days + 719468; era = z div 146097; doe = z mod 146097;
          yoe = (doe - doe div 1460 + doe div 36524 - doe div 146096) div 365;
          doy = doe - (365 * yoe + yoe div 4 - yoe div 100);
          mp = (5 * doy + 2) div 153;
          d = doy - (153 * mp + 2) div 5 + 1;
          m = (if mp < 10 then mp + 3 else mp - 9)
      in ((yoe + era * 400) + (if m \<le> 2 then 1 else 0), m, d))"

definition offset_str :: "int \<Rightarrow> string" where
  "offset_str z =
     (let a = \<bar>z\<bar>; s = a div 1000000; us = a mod 1000000 in
      (if z < 0 then ''-'' else ''+'') @ pad 2 (s div 3600) @ '':'' @ pad 2 (s div 60 mod 60)
      @ (if s mod 60 = 0 \<and> us = 0 then [] else '':'' @ pad 2 (s mod 60) @ (if us = 0 then [] else ''.'' @ pad 6 us)))"

definition isoformat :: "datetime \<Rightarrow> string" where
  "isoformat t =
     (let w = wall t; (y, m, d) = civil (w div 86400000000); r = w mod 86400000000;
          s = r div 1000000; us = r mod 1000000
      in pad 4 y @ ''-'' @ pad 2 m @ ''-'' @ pad 2 d @ ''T''
         @ pad 2 (s div 3600) @ '':'' @ pad 2 (s div 60 mod 60) @ '':'' @ pad 2 (s mod 60)
         @ (if us = 0 then [] else ''.'' @ pad 6 us)
         @ (case offset t of None \<Rightarrow> [] | Some z \<Rightarrow> offset_str z))"

lemma isoformat_example:
  "isoformat (utc 1786579200000000) = ''2026-08-13T00:00:00+00:00''"
  by code_simp

section \<open>Outbox records\<close>

record outbox_record =
  ob_id :: uuid
  ob_aggregate_id :: uuid
  ob_aggregate_type :: string
  ob_event_type :: string
  ob_payload :: "(string, json) dict"
  ob_occurred_at :: datetime
  ob_topic :: string
  ob_partition_key :: string
  ob_correlation_id :: "string option"
  ob_published_at :: "datetime option"
  ob_attempts :: int
  ob_last_error :: "string option"
  ob_next_attempt_at :: "datetime option"
  ob_dead_lettered :: bool
  ob_headers :: "(string, string) dict"

definition is_pending :: "outbox_record \<Rightarrow> bool" where
  "is_pending r \<longleftrightarrow> ob_published_at r = None \<and> \<not> ob_dead_lettered r"

section \<open>The event and its envelope\<close>

text \<open>The Python values an event's fields hold; \<open>VEntity\<close> is a typed id, \<open>VEnum\<close> a
  \<open>StrEnum\<close> member by its value.\<close>

datatype pyval =
    VNone
  | VInt int
  | VFloat real
  | VStr string
  | VUuid uuid
  | VDatetime datetime
  | VEnum string
  | VList "pyval list"
  | VDict "(string \<times> pyval) list"
  | VEntity uuid

fun primitive :: "pyval \<Rightarrow> json" where
  "primitive (VUuid u) = JStr (uuid_str u)"
| "primitive (VDatetime t) = JStr (isoformat t)"
| "primitive (VEnum s) = JStr s"
| "primitive (VList xs) = JList (map primitive xs)"
| "primitive (VDict d) = JDict (map (\<lambda>(k, v). (k, primitive v)) d)"
| "primitive (VEntity u) = JStr (uuid_str u)"
| "primitive VNone = JNull"
| "primitive (VInt i) = JInt i"
| "primitive (VFloat x) = JFloat x"
| "primitive (VStr s) = JStr s"

definition NAMESPACE :: string where "NAMESPACE = ''arcadia.reco.v1''"
definition AGGREGATE_TYPE :: string where "AGGREGATE_TYPE = ''recommendation-set''"
definition PRODUCER :: string where "PRODUCER = ''recommendation-service''"
definition SCHEMA_VERSION :: int where "SCHEMA_VERSION = 1"

record recommendation_generated =
  ev_event_id :: uuid
  ev_occurred_at :: datetime
  ev_aggregate_id :: uuid
  ev_user_id :: user_id
  ev_generated_at :: datetime
  ev_items :: "(string \<times> pyval) list list"

definition event_type :: string where
  "event_type = NAMESPACE @ ''.RecommendationGenerated''"

definition event_item :: "recommendation \<Rightarrow> (string \<times> pyval) list" where
  "event_item r =
     [(''game_id'', VStr (game_str (rec_game_id r))),
      (''score'', VFloat (round6 (rec_score r))),
      (''source'', VStr (source_str (rec_source r))),
      (''rank'', VInt (rec_rank r))]"

definition recommendation_generated_of ::
  "user_id \<Rightarrow> recommendation list \<Rightarrow> event_stamp \<Rightarrow> recommendation_generated" where
  "recommendation_generated_of u recs stamp =
     \<lparr>ev_event_id = stamp_event_id stamp, ev_occurred_at = stamp_occurred_at stamp,
      ev_aggregate_id = user_uuid u, ev_user_id = u, ev_generated_at = stamp_occurred_at stamp,
      ev_items = map event_item recs\<rparr>"

text \<open>\<open>dataclasses.fields\<close> of the event, inherited ones first.\<close>

definition event_fields :: "recommendation_generated \<Rightarrow> (string \<times> pyval) list" where
  "event_fields e =
     [(''event_id'', VUuid (ev_event_id e)), (''occurred_at'', VDatetime (ev_occurred_at e)),
      (''aggregate_id'', VUuid (ev_aggregate_id e)), (''user_id'', VEntity (user_uuid (ev_user_id e))),
      (''generated_at'', VDatetime (ev_generated_at e)), (''items'', VList (map VDict (ev_items e)))]"

definition ENVELOPE_FIELDS :: "string list" where
  "ENVELOPE_FIELDS = [''event_id'', ''occurred_at'', ''aggregate_id'']"

definition event_payload :: "recommendation_generated \<Rightarrow> (string, json) dict" where
  "event_payload e =
     map (\<lambda>(name, v). (name, primitive v)) (filter (\<lambda>(name, v). name \<notin> set ENVELOPE_FIELDS) (event_fields e))"

definition event_envelope :: "recommendation_generated \<Rightarrow> string option \<Rightarrow> (string, json) dict" where
  "event_envelope e correlation_id =
     [(''event_id'', JStr (uuid_str (ev_event_id e))),
      (''event_type'', JStr event_type),
      (''schema_version'', JInt SCHEMA_VERSION),
      (''occurred_at'', JStr (isoformat (ev_occurred_at e))),
      (''producer'', JStr PRODUCER),
      (''aggregate_type'', JStr AGGREGATE_TYPE),
      (''aggregate_id'', JStr (uuid_str (ev_aggregate_id e))),
      (''correlation_id'', case correlation_id of None \<Rightarrow> JNull | Some c \<Rightarrow> JStr c),
      (''payload'', JDict (event_payload e))]"

definition partition_key :: "recommendation_generated \<Rightarrow> string" where
  "partition_key e = uuid_str (ev_aggregate_id e)"

text \<open>The record \<open>MemoryOutbox.enqueue\<close> stages for one event.\<close>

definition outbox_record_of ::
  "string \<Rightarrow> string option \<Rightarrow> recommendation_generated \<Rightarrow> outbox_record" where
  "outbox_record_of topic correlation_id e =
     \<lparr>ob_id = ev_event_id e, ob_aggregate_id = ev_aggregate_id e, ob_aggregate_type = AGGREGATE_TYPE,
      ob_event_type = event_type, ob_payload = event_envelope e correlation_id,
      ob_occurred_at = ev_occurred_at e, ob_topic = topic, ob_partition_key = partition_key e,
      ob_correlation_id = correlation_id, ob_published_at = None, ob_attempts = 0,
      ob_last_error = None, ob_next_attempt_at = None, ob_dead_lettered = False, ob_headers = []\<rparr>"

lemma outbox_record_of_simps [simp]:
  "ob_id (outbox_record_of t c e) = ev_event_id e"
  "ob_published_at (outbox_record_of t c e) = None"
  "ob_attempts (outbox_record_of t c e) = 0"
  "ob_dead_lettered (outbox_record_of t c e) = False"
  "ob_next_attempt_at (outbox_record_of t c e) = None"
  "ob_payload (outbox_record_of t c e) = event_envelope e c"
  "ob_occurred_at (outbox_record_of t c e) = ev_occurred_at e"
  by (simp_all add: outbox_record_of_def)

end
