(* ===== verification/Ports.thy ===== *)
theory Ports
  imports Messaging
begin

text \<open>
  The persistence port (\<open>application/ports/outbound/repositories.py\<close> and \<open>messaging.py\<close>):
  what the use cases may do inside one unit of work. \<open>uow_ops\<close> lists the operations, over a
  database of type \<open>'db\<close> and an open unit of work of type \<open>'s\<close>; the use cases take it
  as a parameter, as the code injects a \<open>UnitOfWorkFactory\<close>. The locale \<open>unit_of_work\<close> states
  the contract in terms of a \<open>world\<close>: the mappings a unit of work shows to its user.
\<close>

record world =
  w_games :: "game_id \<rightharpoonup> game_profile"
  w_prefs :: "user_id \<rightharpoonup> user_preference"
  w_owners :: "game_id \<Rightarrow> user_id \<rightharpoonup> bool"
  w_recs :: "user_id \<Rightarrow> recommendation list"
  w_outbox :: "uuid \<rightharpoonup> outbox_record"
  w_processed :: "uuid set"

record ('db, 's) uow_ops =
  uow_open :: "string option \<Rightarrow> 'db \<Rightarrow> 's"
  uow_commit :: "'s \<Rightarrow> 's"
  uow_exit :: "'s \<Rightarrow> 'db"
  games_get :: "'s \<Rightarrow> game_id \<Rightarrow> game_profile option"
  games_upsert :: "'s \<Rightarrow> game_profile \<Rightarrow> 's"
  games_recommendable :: "'s \<Rightarrow> int \<Rightarrow> game_profile list"
  games_by_ids :: "'s \<Rightarrow> game_id list \<Rightarrow> game_profile list"
  games_count_recommendable :: "'s \<Rightarrow> int"
  games_needing_embedding :: "'s \<Rightarrow> int \<Rightarrow> game_profile list"
  games_nearest_to :: "'s \<Rightarrow> game_profile \<Rightarrow> int \<Rightarrow> game_profile list"
  prefs_get :: "'s \<Rightarrow> user_id \<Rightarrow> user_preference option"
  prefs_upsert :: "'s \<Rightarrow> user_preference \<Rightarrow> 's"
  prefs_with_signals :: "'s \<Rightarrow> int \<Rightarrow> user_id list"
  owners_record :: "'s \<Rightarrow> user_id \<Rightarrow> game_id \<Rightarrow> bool \<Rightarrow> 's"
  owners_uncounted :: "'s \<Rightarrow> game_id \<Rightarrow> int \<Rightarrow> user_id list"
  owners_mark_counted :: "'s \<Rightarrow> game_id \<Rightarrow> user_id list \<Rightarrow> 's"
  owners_co_purchases :: "'s \<Rightarrow> user_id \<Rightarrow> game_id list \<Rightarrow> int \<Rightarrow> (game_id, int) dict"
  recs_replace_for :: "'s \<Rightarrow> user_id \<Rightarrow> recommendation list \<Rightarrow> 's"
  recs_for_user :: "'s \<Rightarrow> user_id \<Rightarrow> int \<Rightarrow> recommendation list"
  outbox_enqueue :: "'s \<Rightarrow> recommendation_generated list \<Rightarrow> 's"
  events_seen :: "'s \<Rightarrow> uuid \<Rightarrow> bool"
  events_mark :: "'s \<Rightarrow> uuid \<Rightarrow> 's"

text \<open>
  \<open>async with uow_factory() as uow: body\<close>. The body returns its outcome, an exception
  included, and the unit of work as it left it; leaving the block rolls back what was not
  committed.
\<close>

definition with_uow ::
  "('db, 's) uow_ops \<Rightarrow> string option \<Rightarrow> ('s \<Rightarrow> (exn + 'a) \<times> 's) \<Rightarrow> 'db \<Rightarrow> (exn + 'a) \<times> 'db" where
  "with_uow ops cid body db = (let (r, s) = body (uow_open ops cid db) in (r, uow_exit ops s))"

section \<open>The contract\<close>

text \<open>The flag of an ownership is raised, never lowered.\<close>

definition raise_owner :: "(game_id \<Rightarrow> user_id \<rightharpoonup> bool) \<Rightarrow> user_id \<Rightarrow> game_id \<Rightarrow> bool \<Rightarrow> (game_id \<Rightarrow> user_id \<rightharpoonup> bool)" where
  "raise_owner m u g c = m(g := (m g)(u \<mapsto> (m g u = Some True \<or> c)))"

text \<open>How many other users own both \<open>g\<close> and something of \<open>owned\<close>.\<close>

definition co_owners :: "(game_id \<Rightarrow> user_id \<rightharpoonup> bool) \<Rightarrow> user_id \<Rightarrow> game_id set \<Rightarrow> game_id \<Rightarrow> user_id set" where
  "co_owners m u mine g = {v. v \<noteq> u \<and> (\<exists>h \<in> mine. m h v \<noteq> None) \<and> g \<notin> mine \<and> m g v \<noteq> None}"

text \<open>
  A listing of the values of \<open>m\<close> that satisfy \<open>P\<close>, best first by \<open>key\<close>, cut at \<open>n\<close>.
\<close>

definition best_first ::
  "('k \<rightharpoonup> 'v) \<Rightarrow> ('v \<Rightarrow> bool) \<Rightarrow> ('v \<Rightarrow> 'o::linorder) \<Rightarrow> int \<Rightarrow> 'v list \<Rightarrow> bool" where
  "best_first m P key n out \<longleftrightarrow>
     (\<exists>xs. distinct xs \<and> set xs = {v \<in> ran m. P v} \<and> out = py_take n (sort_key key xs))"

locale unit_of_work =
  fixes ops :: "('db, 's) uow_ops"
    and db_ok :: "'db \<Rightarrow> bool"
    and db_view :: "'db \<Rightarrow> world"
    and txn :: "'db \<Rightarrow> 's \<Rightarrow> bool"
    and view :: "'s \<Rightarrow> world"
    and own_clean :: "'s \<Rightarrow> bool"
  assumes open_txn: "db_ok db \<Longrightarrow> txn db (uow_open ops cid db)"
    and open_view: "db_ok db \<Longrightarrow> view (uow_open ops cid db) = db_view db"
    and open_clean: "db_ok db \<Longrightarrow> own_clean (uow_open ops cid db)"
    and exit_rollback: "txn db s \<Longrightarrow> uow_exit ops s = db"
    and commit_ok: "txn db s \<Longrightarrow> db_ok (uow_exit ops (uow_commit ops s))"
    and commit_view: "txn db s \<Longrightarrow> db_view (uow_exit ops (uow_commit ops s)) = view s"
    and games_keyed: "txn db s \<Longrightarrow> w_games (view s) k = Some gm \<Longrightarrow> game_id gm = k"
    and prefs_keyed: "txn db s \<Longrightarrow> w_prefs (view s) u = Some p \<Longrightarrow> pref_user_id p = u"
    and get_game: "txn db s \<Longrightarrow> games_get ops s k = w_games (view s) k"
    and upsert_game_txn: "txn db s \<Longrightarrow> txn db (games_upsert ops s gm)"
    and upsert_game_view: "txn db s \<Longrightarrow>
      view (games_upsert ops s gm) = (view s)\<lparr>w_games := (w_games (view s))(game_id gm \<mapsto> gm)\<rparr>"
    and upsert_game_clean: "txn db s \<Longrightarrow> own_clean (games_upsert ops s gm) = own_clean s"
    and recommendable: "txn db s \<Longrightarrow>
      best_first (w_games (view s)) is_published popularity_key n (games_recommendable ops s n)"
    and needing_embedding: "txn db s \<Longrightarrow>
      best_first (w_games (view s)) needs_embedding popularity_key n (games_needing_embedding ops s n)"
    and by_ids: "txn db s \<Longrightarrow> distinct ids \<Longrightarrow> distinct (games_by_ids ops s ids) \<and>
      set (games_by_ids ops s ids) = {g. \<exists>i \<in> set ids. w_games (view s) i = Some g}"
    and count_recommendable: "txn db s \<Longrightarrow>
      games_count_recommendable ops s = int (card {g \<in> ran (w_games (view s)). is_published g})"
    and get_pref: "txn db s \<Longrightarrow> prefs_get ops s u = w_prefs (view s) u"
    and upsert_pref_txn: "txn db s \<Longrightarrow> txn db (prefs_upsert ops s p)"
    and upsert_pref_view: "txn db s \<Longrightarrow>
      view (prefs_upsert ops s p) = (view s)\<lparr>w_prefs := (w_prefs (view s))(pref_user_id p \<mapsto> p)\<rparr>"
    and upsert_pref_clean: "txn db s \<Longrightarrow> own_clean (prefs_upsert ops s p) = own_clean s"
    and with_signals: "txn db s \<Longrightarrow> distinct (prefs_with_signals ops s n) \<and>
      set (prefs_with_signals ops s n) \<subseteq> {u. \<exists>p. w_prefs (view s) u = Some p \<and> 0 < signal_count p}"
    and own_record_txn: "txn db s \<Longrightarrow> txn db (owners_record ops s u g c)"
    and own_record_view: "txn db s \<Longrightarrow>
      view (owners_record ops s u g c) = (view s)\<lparr>w_owners := raise_owner (w_owners (view s)) u g c\<rparr>"
    and uncounted: "txn db s \<Longrightarrow> own_clean s \<Longrightarrow>
      \<exists>us. distinct us \<and> set us = {u. w_owners (view s) g u = Some False} \<and>
        owners_uncounted ops s g n = py_take n us"
    and mark_counted_txn: "txn db s \<Longrightarrow> txn db (owners_mark_counted ops s g us)"
    and mark_counted_view: "txn db s \<Longrightarrow> \<forall>u \<in> set us. w_owners (view s) g u \<noteq> None \<Longrightarrow>
      view (owners_mark_counted ops s g us) = (view s)\<lparr>w_owners := (w_owners (view s))
        (g := (\<lambda>u. if u \<in> set us then Some True else w_owners (view s) g u))\<rparr>"
    and co_purchases: "txn db s \<Longrightarrow> own_clean s \<Longrightarrow>
      \<exists>full. dict_ok full \<and> sorted (map (\<lambda>(h, n). - n) full) \<and>
        (\<forall>h. map_of full h = (let n = int (card (co_owners (w_owners (view s)) u (set mine) h)) in
           if n = 0 then None else Some n)) \<and>
        owners_co_purchases ops s u mine limit = take (nat limit) full"
    and replace_txn: "txn db s \<Longrightarrow> txn db (recs_replace_for ops s u rs)"
    and replace_view: "txn db s \<Longrightarrow>
      view (recs_replace_for ops s u rs) = (view s)\<lparr>w_recs := (w_recs (view s))(u := rs)\<rparr>"
    and replace_clean: "txn db s \<Longrightarrow> own_clean (recs_replace_for ops s u rs) = own_clean s"
    and for_user: "txn db s \<Longrightarrow> recs_for_user ops s u n = py_take n (sort_key rec_rank (w_recs (view s) u))"
    and enqueue_txn: "txn db s \<Longrightarrow> txn db (outbox_enqueue ops s es)"
    and enqueue_view: "txn db s \<Longrightarrow> \<exists>topic cid. view (outbox_enqueue ops s es) = (view s)\<lparr>w_outbox :=
      fold (\<lambda>e m. m(ev_event_id e \<mapsto> outbox_record_of topic cid e)) es (w_outbox (view s))\<rparr>"
    and seen: "txn db s \<Longrightarrow> events_seen ops s e \<longleftrightarrow> e \<in> w_processed (view s)"
    and mark_txn: "txn db s \<Longrightarrow> txn db (events_mark ops s e)"
    and mark_view: "txn db s \<Longrightarrow>
      view (events_mark ops s e) = (view s)\<lparr>w_processed := insert e (w_processed (view s))\<rparr>"
    and mark_clean: "txn db s \<Longrightarrow> own_clean (events_mark ops s e) = own_clean s"
begin

lemmas txns = open_txn upsert_game_txn upsert_pref_txn own_record_txn mark_counted_txn
  replace_txn enqueue_txn mark_txn

lemmas cleans = open_clean upsert_game_clean upsert_pref_clean replace_clean mark_clean

lemmas reads = get_game get_pref seen open_view

lemmas writes = upsert_game_view upsert_pref_view own_record_view replace_view mark_view

end

text \<open>A world whose games and profiles satisfy their invariants.\<close>

definition wf_world :: "world \<Rightarrow> bool" where
  "wf_world w \<longleftrightarrow> (\<forall>k g. w_games w k = Some g \<longrightarrow> wf_game g \<and> game_id g = k) \<and>
     (\<forall>u p. w_prefs w u = Some p \<longrightarrow> wf_pref p \<and> pref_user_id p = u)"

lemma wf_worldD:
  "wf_world w \<Longrightarrow> w_games w k = Some g \<Longrightarrow> wf_game g \<and> game_id g = k"
  "wf_world w \<Longrightarrow> w_prefs w u = Some p \<Longrightarrow> wf_pref p \<and> pref_user_id p = u"
  by (auto simp: wf_world_def)

lemma best_first_set: "best_first m P key n out \<Longrightarrow> v \<in> set out \<Longrightarrow> P v \<and> v \<in> ran m"
  using set_py_take [of n] by (fastforce simp: best_first_def)

lemma best_first_sorted: "best_first m P key n out \<Longrightarrow> sorted (map key out) \<and> distinct out"
  by (auto simp: best_first_def sorted_py_take distinct_py_take)

lemma best_first_length:
  assumes "best_first m P key n out" "0 \<le> n"
  shows "length out = min (card {v \<in> ran m. P v}) (nat n)"
  using assms by (auto simp: best_first_def length_py_take simp flip: distinct_card)

end
