(* ===== verification/Memory.thy ===== *)
theory Memory
  imports Ports
begin

text \<open>
  The in-memory backend (\<open>infrastructure/persistence/memory/\<close>): the store, the staged unit of
  work and its repositories, and the proof that it provides the contract \<open>unit_of_work\<close>.
  The store is passed by value; a unit of work holds the store it was opened on.

  Python leaves the iteration order of a \<open>set\<close> unspecified. It is a parameter here, an
  element of the type of functions that enumerate every finite set without repeats.
\<close>

section \<open>Set iteration\<close>

typedef 'a set_order = "{f :: 'a set \<Rightarrow> 'a list. \<forall>S. finite S \<longrightarrow> distinct (f S) \<and> set (f S) = S}"
proof -
  have "\<forall>S. \<exists>xs :: 'a list. finite S \<longrightarrow> distinct xs \<and> set xs = S"
    using finite_distinct_list by blast
  then have "\<exists>f. \<forall>S. finite S \<longrightarrow> distinct (f S) \<and> set (f S :: 'a list) = S"
    by (rule choice)
  then show ?thesis by blast
qed

abbreviation iterate :: "'a set_order \<Rightarrow> 'a set \<Rightarrow> 'a list" where
  "iterate \<equiv> Rep_set_order"

lemma iterate: "finite S \<Longrightarrow> distinct (iterate f S) \<and> set (iterate f S) = S"
  using Rep_set_order [of f] by simp

definition ascending :: "'a::linorder set_order" where
  "ascending = Abs_set_order sorted_list_of_set"

lemma iterate_ascending [simp]: "iterate ascending = sorted_list_of_set"
  by (simp add: ascending_def Abs_set_order_inverse)

section \<open>The store and the unit of work\<close>

record memory_store =
  ms_games :: "(game_id, game_profile) dict"
  ms_preferences :: "(user_id, user_preference) dict"
  ms_ownerships :: "(game_id, (user_id, bool) dict) dict"
  ms_recommendations :: "(user_id, recommendation list) dict"
  ms_outbox :: "(uuid, outbox_record) dict"
  ms_processed_events :: "uuid set"

definition empty_store :: memory_store where
  "empty_store = \<lparr>ms_games = [], ms_preferences = [], ms_ownerships = [], ms_recommendations = [],
     ms_outbox = [], ms_processed_events = {}\<rparr>"

definition owners_of :: "memory_store \<Rightarrow> game_id \<Rightarrow> user_id set" where
  "owners_of st g = fst ` set (dget (ms_ownerships st) g [])"

definition owned_by :: "memory_store \<Rightarrow> user_id \<Rightarrow> game_id set" where
  "owned_by st u = fst ` {(g, owners) \<in> set (ms_ownerships st). u \<in> fst ` set owners}"

record memory_uow =
  mu_store :: memory_store
  mu_committed :: bool
  mu_games :: "(game_id, game_profile) dict"
  mu_preferences :: "(user_id, user_preference) dict"
  mu_ownerships :: "(user_id \<times> game_id \<times> bool) list"
  mu_recommendations :: "(user_id, recommendation list) dict"
  mu_events :: "outbox_record list"
  mu_processed :: "uuid set"
  mu_topic :: string
  mu_correlation_id :: "string option"

definition mem_open :: "string \<Rightarrow> string option \<Rightarrow> memory_store \<Rightarrow> memory_uow" where
  "mem_open topic cid st =
     \<lparr>mu_store = st, mu_committed = False, mu_games = [], mu_preferences = [], mu_ownerships = [],
      mu_recommendations = [], mu_events = [], mu_processed = {}, mu_topic = topic,
      mu_correlation_id = cid\<rparr>"

definition commit_owner ::
  "user_id \<times> game_id \<times> bool \<Rightarrow> (game_id, (user_id, bool) dict) dict \<Rightarrow> (game_id, (user_id, bool) dict) dict" where
  "commit_owner = (\<lambda>(u, g, counted) os.
     let owners = dget os g [] in
     AList.update g (AList.update u (dget owners u False \<or> counted) owners) os)"

definition mem_commit :: "memory_uow \<Rightarrow> memory_uow" where
  "mem_commit s = s\<lparr>mu_committed := True, mu_store := (mu_store s)
     \<lparr>ms_games := dmerge (ms_games (mu_store s)) (mu_games s),
      ms_preferences := dmerge (ms_preferences (mu_store s)) (mu_preferences s),
      ms_ownerships := fold commit_owner (mu_ownerships s) (ms_ownerships (mu_store s)),
      ms_recommendations := dmerge (ms_recommendations (mu_store s)) (mu_recommendations s),
      ms_outbox := fold (\<lambda>r d. AList.update (ob_id r) r d) (mu_events s) (ms_outbox (mu_store s)),
      ms_processed_events := ms_processed_events (mu_store s) \<union> mu_processed s\<rparr>\<rparr>"

definition mem_rollback :: "memory_uow \<Rightarrow> memory_uow" where
  "mem_rollback s = s\<lparr>mu_games := [], mu_preferences := [], mu_ownerships := [],
     mu_recommendations := [], mu_events := [], mu_processed := {}\<rparr>"

definition mem_exit :: "memory_uow \<Rightarrow> memory_store" where
  "mem_exit s = mu_store (if mu_committed s then s else mem_rollback s)"

section \<open>Repositories\<close>

definition mem_get_game :: "memory_uow \<Rightarrow> game_id \<Rightarrow> game_profile option" where
  "mem_get_game s g =
     (case map_of (mu_games s) g of Some gm \<Rightarrow> Some gm | None \<Rightarrow> map_of (ms_games (mu_store s)) g)"

definition mem_upsert_game :: "memory_uow \<Rightarrow> game_profile \<Rightarrow> memory_uow" where
  "mem_upsert_game s gm = s\<lparr>mu_games := AList.update (game_id gm) gm (mu_games s)\<rparr>"

definition merged_games :: "memory_uow \<Rightarrow> (game_id, game_profile) dict" where
  "merged_games s = dmerge (ms_games (mu_store s)) (mu_games s)"

definition mem_recommendable :: "memory_uow \<Rightarrow> int \<Rightarrow> game_profile list" where
  "mem_recommendable s n =
     py_take n (sort_key popularity_key (filter is_published (map snd (merged_games s))))"

definition mem_by_ids :: "memory_uow \<Rightarrow> game_id list \<Rightarrow> game_profile list" where
  "mem_by_ids s ids = List.map_filter (map_of (merged_games s)) ids"

definition mem_count_recommendable :: "memory_uow \<Rightarrow> int" where
  "mem_count_recommendable s = int (length (filter is_published (map snd (merged_games s))))"

definition mem_needing_embedding :: "memory_uow \<Rightarrow> int \<Rightarrow> game_profile list" where
  "mem_needing_embedding s n =
     py_take n (sort_key popularity_key (filter needs_embedding (map snd (merged_games s))))"

definition mem_nearest_to :: "memory_uow \<Rightarrow> game_profile \<Rightarrow> int \<Rightarrow> game_profile list" where
  "mem_nearest_to s gm n =
     (if dense_is_empty (dense gm) then []
      else py_take n (sort_key (\<lambda>c. (- dense_cosine (dense gm) (dense c), game_str (game_id c)))
        (filter (\<lambda>c. is_published c \<and> game_id c \<noteq> game_id gm \<and> \<not> dense_is_empty (dense c))
          (map snd (merged_games s)))))"

definition mem_get_pref :: "memory_uow \<Rightarrow> user_id \<Rightarrow> user_preference option" where
  "mem_get_pref s u =
     (case map_of (mu_preferences s) u of Some p \<Rightarrow> Some p | None \<Rightarrow> map_of (ms_preferences (mu_store s)) u)"

definition mem_upsert_pref :: "memory_uow \<Rightarrow> user_preference \<Rightarrow> memory_uow" where
  "mem_upsert_pref s p = s\<lparr>mu_preferences := AList.update (pref_user_id p) p (mu_preferences s)\<rparr>"

definition mem_with_signals :: "memory_uow \<Rightarrow> int \<Rightarrow> user_id list" where
  "mem_with_signals s n =
     map pref_user_id (py_take n
       (sort_key (\<lambda>p. (updated_at p = None, user_str (pref_user_id p)))
         (filter (\<lambda>p. 0 < signal_count p)
           (map snd (dmerge (ms_preferences (mu_store s)) (mu_preferences s))))))"

definition mem_record_owner :: "memory_uow \<Rightarrow> user_id \<Rightarrow> game_id \<Rightarrow> bool \<Rightarrow> memory_uow" where
  "mem_record_owner s u g c = s\<lparr>mu_ownerships := mu_ownerships s @ [(u, g, c)]\<rparr>"

definition mem_uncounted_owners :: "memory_uow \<Rightarrow> game_id \<Rightarrow> int \<Rightarrow> user_id list" where
  "mem_uncounted_owners s g n =
     (let pending = map fst (filter (\<lambda>(u, counted). \<not> counted) (dget (ms_ownerships (mu_store s)) g []));
          staged = map fst (filter (\<lambda>(u, h, counted). h = g \<and> \<not> counted \<and> u \<notin> set pending) (mu_ownerships s))
      in py_take n (pending @ staged))"

definition mem_mark_counted :: "memory_uow \<Rightarrow> game_id \<Rightarrow> user_id list \<Rightarrow> memory_uow" where
  "mem_mark_counted s g us = s\<lparr>mu_ownerships := mu_ownerships s @ map (\<lambda>u. (u, g, True)) us\<rparr>"

text \<open>\<open>Counter.most_common(n)\<close>: the sort is stable, and nothing is returned for \<open>n \<le> 0\<close>.\<close>

definition most_common :: "int \<Rightarrow> ('k, int) dict \<Rightarrow> ('k, int) dict" where
  "most_common n counts = take (nat n) (sort_key (\<lambda>(k, c). - c) counts)"

definition count_all :: "'k list \<Rightarrow> ('k, int) dict \<Rightarrow> ('k, int) dict" where
  "count_all ks counts = fold (\<lambda>k d. AList.update k (dget d k 0 + 1) d) ks counts"

definition mem_co_purchases ::
  "user_id set_order \<Rightarrow> game_id set_order \<Rightarrow> memory_uow \<Rightarrow> user_id \<Rightarrow> game_id list \<Rightarrow> int \<Rightarrow> (game_id, int) dict" where
  "mem_co_purchases iu ig s u mine limit =
     (if mine = [] then []
      else let st = mu_store s; owned_set = set mine;
          neighbours = (\<Union>g \<in> owned_set. owners_of st g) - {u};
          counts = fold (\<lambda>v. count_all (iterate ig (owned_by st v - owned_set))) (iterate iu neighbours) []
        in most_common limit counts)"

definition mem_replace_for :: "memory_uow \<Rightarrow> user_id \<Rightarrow> recommendation list \<Rightarrow> memory_uow" where
  "mem_replace_for s u rs = s\<lparr>mu_recommendations := AList.update u rs (mu_recommendations s)\<rparr>"

definition mem_for_user :: "memory_uow \<Rightarrow> user_id \<Rightarrow> int \<Rightarrow> recommendation list" where
  "mem_for_user s u n =
     py_take n (sort_key rec_rank
       (case map_of (mu_recommendations s) u of
          Some rs \<Rightarrow> rs
        | None \<Rightarrow> dget (ms_recommendations (mu_store s)) u []))"

definition mem_enqueue :: "memory_uow \<Rightarrow> recommendation_generated list \<Rightarrow> memory_uow" where
  "mem_enqueue s es =
     s\<lparr>mu_events := mu_events s @ map (outbox_record_of (mu_topic s) (mu_correlation_id s)) es\<rparr>"

definition mem_seen :: "memory_uow \<Rightarrow> uuid \<Rightarrow> bool" where
  "mem_seen s e \<longleftrightarrow> e \<in> ms_processed_events (mu_store s) \<or> e \<in> mu_processed s"

definition mem_mark :: "memory_uow \<Rightarrow> uuid \<Rightarrow> memory_uow" where
  "mem_mark s e = s\<lparr>mu_processed := insert e (mu_processed s)\<rparr>"

definition memory_ops ::
  "user_id set_order \<Rightarrow> game_id set_order \<Rightarrow> string \<Rightarrow> (memory_store, memory_uow) uow_ops" where
  "memory_ops iu ig topic =
     \<lparr>uow_open = mem_open topic, uow_commit = mem_commit, uow_exit = mem_exit,
      games_get = mem_get_game, games_upsert = mem_upsert_game, games_recommendable = mem_recommendable,
      games_by_ids = mem_by_ids, games_count_recommendable = mem_count_recommendable,
      games_needing_embedding = mem_needing_embedding, games_nearest_to = mem_nearest_to,
      prefs_get = mem_get_pref, prefs_upsert = mem_upsert_pref, prefs_with_signals = mem_with_signals,
      owners_record = mem_record_owner, owners_uncounted = mem_uncounted_owners,
      owners_mark_counted = mem_mark_counted, owners_co_purchases = mem_co_purchases iu ig,
      recs_replace_for = mem_replace_for, recs_for_user = mem_for_user, outbox_enqueue = mem_enqueue,
      events_seen = mem_seen, events_mark = mem_mark\<rparr>"

section \<open>What a store and a unit of work show\<close>

definition owner_flag :: "(game_id, (user_id, bool) dict) dict \<Rightarrow> game_id \<Rightarrow> user_id \<rightharpoonup> bool" where
  "owner_flag os g = map_of (dget os g [])"

definition store_view :: "memory_store \<Rightarrow> world" where
  "store_view st =
     \<lparr>w_games = map_of (ms_games st), w_prefs = map_of (ms_preferences st),
      w_owners = owner_flag (ms_ownerships st),
      w_recs = (\<lambda>u. dget (ms_recommendations st) u []),
      w_outbox = map_of (ms_outbox st), w_processed = ms_processed_events st\<rparr>"

definition mem_view :: "memory_uow \<Rightarrow> world" where
  "mem_view s =
     \<lparr>w_games = map_of (ms_games (mu_store s)) ++ map_of (mu_games s),
      w_prefs = map_of (ms_preferences (mu_store s)) ++ map_of (mu_preferences s),
      w_owners = fold (\<lambda>(u, g, c) m. raise_owner m u g c) (mu_ownerships s) (owner_flag (ms_ownerships (mu_store s))),
      w_recs = (\<lambda>u. case map_of (mu_recommendations s) u of
        Some rs \<Rightarrow> rs | None \<Rightarrow> dget (ms_recommendations (mu_store s)) u []),
      w_outbox = fold (\<lambda>r m. m(ob_id r \<mapsto> r)) (mu_events s) (map_of (ms_outbox (mu_store s))),
      w_processed = ms_processed_events (mu_store s) \<union> mu_processed s\<rparr>"

definition keyed :: "('v \<Rightarrow> 'k) \<Rightarrow> ('k, 'v) dict \<Rightarrow> bool" where
  "keyed f d \<longleftrightarrow> dict_ok d \<and> (\<forall>(k, v) \<in> set d. f v = k)"

definition owners_ok :: "(game_id, (user_id, bool) dict) dict \<Rightarrow> bool" where
  "owners_ok os \<longleftrightarrow> dict_ok os \<and> (\<forall>g owners. map_of os g = Some owners \<longrightarrow> dict_ok owners)"

definition store_ok :: "memory_store \<Rightarrow> bool" where
  "store_ok st \<longleftrightarrow> keyed game_id (ms_games st) \<and> keyed pref_user_id (ms_preferences st) \<and>
     owners_ok (ms_ownerships st) \<and>
     dict_ok (ms_recommendations st) \<and> keyed ob_id (ms_outbox st)"

definition mem_txn :: "memory_store \<Rightarrow> memory_uow \<Rightarrow> bool" where
  "mem_txn st s \<longleftrightarrow> mu_store s = st \<and> \<not> mu_committed s \<and> store_ok st \<and>
     keyed game_id (mu_games s) \<and> keyed pref_user_id (mu_preferences s) \<and> dict_ok (mu_recommendations s)"

definition mem_own_clean :: "memory_uow \<Rightarrow> bool" where
  "mem_own_clean s \<longleftrightarrow> mu_ownerships s = []"

lemma store_ok_empty: "store_ok empty_store"
  by (simp add: store_ok_def empty_store_def keyed_def owners_ok_def)

lemma keyed_iff: "keyed f d \<longleftrightarrow> dict_ok d \<and> (\<forall>k v. map_of d k = Some v \<longrightarrow> f v = k)"
  by (auto simp: keyed_def)

lemma keyed_update: "keyed f d \<Longrightarrow> f v = k \<Longrightarrow> keyed f (AList.update k v d)"
  by (auto simp: keyed_iff dict_simps simp del: map_of_eq_Some_iff split: if_splits)

lemma keyed_dmerge: "keyed f a \<Longrightarrow> keyed f b \<Longrightarrow> keyed f (dmerge a b)"
  by (auto simp: keyed_iff dict_simps map_add_Some_iff simp del: map_of_eq_Some_iff)

lemma keyedD: "keyed f d \<Longrightarrow> map_of d k = Some v \<Longrightarrow> f v = k"
  by (auto simp: keyed_iff)

lemma distinct_values: "keyed f d \<Longrightarrow> distinct (map snd d)"
  by (induction d) (force simp: keyed_def)+

lemma set_values: "dict_ok d \<Longrightarrow> set (map snd d) = ran (map_of d)"
  by (simp add: ran_distinct)

section \<open>Ownerships\<close>

lemma owner_flag_commit: "owner_flag (commit_owner (u, g, c) os) = raise_owner (owner_flag os) u g c"
  by (auto simp: owner_flag_def commit_owner_def raise_owner_def Let_def fun_eq_iff dict_simps)
     (auto simp: dget_def split: option.splits)

lemma owner_flag_commits:
  "owner_flag (fold commit_owner ps os) = fold (\<lambda>(u, g, c) m. raise_owner m u g c) ps (owner_flag os)"
  by (induction ps arbitrary: os) (auto simp: owner_flag_commit)

lemma owners_ok_dget: "owners_ok os \<Longrightarrow> dict_ok (dget os g [])"
  by (auto simp: owners_ok_def dget_def simp del: map_of_eq_Some_iff split: option.split)

lemma owners_ok_commit: "owners_ok os \<Longrightarrow> owners_ok (commit_owner p os)"
  using owners_ok_dget [of os "fst (snd p)"]
  by (cases p) (auto simp: owners_ok_def commit_owner_def Let_def dict_simps simp del: map_of_eq_Some_iff
      split: if_splits)

lemma owners_ok_commits: "owners_ok os \<Longrightarrow> owners_ok (fold commit_owner ps os)"
  by (induction ps arbitrary: os) (auto simp: owners_ok_commit)

lemma owners_of_flag: "owners_ok os \<Longrightarrow> u \<in> fst ` set (dget os g []) \<longleftrightarrow> owner_flag os g u \<noteq> None"
  by (simp add: owner_flag_def map_of_eq_None_iff)

lemma raise_marked:
  assumes "\<forall>u \<in> set us. m g u \<noteq> None"
  shows "fold (\<lambda>(u, g, c) m. raise_owner m u g c) (map (\<lambda>u. (u, g, True)) us) m =
    m(g := (\<lambda>u. if u \<in> set us then Some True else m g u))"
  using assms
proof (induction us arbitrary: m)
  case Nil
  then show ?case by simp
next
  case (Cons u us)
  let ?m = "m(g := (m g)(u \<mapsto> True))"
  have step: "raise_owner m u g True = ?m" by (simp add: raise_owner_def)
  have "\<forall>v \<in> set us. ?m g v \<noteq> None" using Cons.prems by auto
  then have "fold (\<lambda>(u, g, c) m. raise_owner m u g c) (map (\<lambda>u. (u, g, True)) us) ?m =
      ?m(g := (\<lambda>u. if u \<in> set us then Some True else ?m g u))"
    by (rule Cons.IH)
  also have "\<dots> = m(g := (\<lambda>v. if v \<in> set (u # us) then Some True else m g v))"
    by (auto simp: fun_eq_iff)
  finally show ?case by (simp add: step)
qed

section \<open>Co-purchases\<close>

definition positive :: "('k, int) dict \<Rightarrow> bool" where
  "positive d \<longleftrightarrow> (\<forall>k n. map_of d k = Some n \<longrightarrow> 0 < n)"

lemma positive_dget: "positive d \<Longrightarrow> 0 \<le> dget d k 0"
  by (auto simp: positive_def dget_def less_imp_le simp del: map_of_eq_Some_iff split: option.split)

lemma count_all_spec:
  assumes "distinct ks" "dict_ok d" "positive d"
  shows "dict_ok (count_all ks d) \<and> positive (count_all ks d) \<and>
    (\<forall>k. dget (count_all ks d) k 0 = dget d k 0 + (if k \<in> set ks then 1 else 0))"
  using assms
proof (induction ks arbitrary: d)
  case Nil
  then show ?case by (simp add: count_all_def)
next
  case (Cons k ks)
  let ?d = "AList.update k (dget d k 0 + 1) d"
  have "dict_ok ?d" using Cons.prems by (simp add: dict_simps)
  moreover have "positive ?d"
    using Cons.prems(3) positive_dget [OF Cons.prems(3), of k]
    by (auto simp: positive_def dict_simps simp del: map_of_eq_Some_iff)
  ultimately show ?case using Cons.IH [of ?d] Cons.prems(1) by (auto simp: count_all_def dict_simps)
qed

lemma count_folds_spec:
  assumes "distinct vs" "\<And>v. v \<in> set vs \<Longrightarrow> distinct (gs v)" "dict_ok d" "positive d"
  shows "dict_ok (fold (\<lambda>v. count_all (gs v)) vs d) \<and> positive (fold (\<lambda>v. count_all (gs v)) vs d) \<and>
    (\<forall>k. dget (fold (\<lambda>v. count_all (gs v)) vs d) k 0 =
      dget d k 0 + int (card {v. v \<in> set vs \<and> k \<in> set (gs v)}))"
  using assms
proof (induction vs arbitrary: d)
  case Nil
  then show ?case by simp
next
  case (Cons v vs)
  have ins: "{x. (x = v \<or> x \<in> set vs) \<and> k \<in> set (gs x)} =
      (if k \<in> set (gs v) then insert v {x. x \<in> set vs \<and> k \<in> set (gs x)}
       else {x. x \<in> set vs \<and> k \<in> set (gs x)})" for k
    by auto
  have c: "card {x. (x = v \<or> x \<in> set vs) \<and> k \<in> set (gs x)} =
      (if k \<in> set (gs v) then 1 else 0) + card {x. x \<in> set vs \<and> k \<in> set (gs x)}" for k
    unfolding ins using Cons.prems(1) by simp
  from Cons.IH [of "count_all (gs v) d"] Cons.prems count_all_spec [of "gs v" d]
  show ?case by (simp add: c)
qed

lemma map_of_positive:
  assumes "positive d"
  shows "map_of d k = (if dget d k 0 = 0 then None else Some (dget d k 0))"
  using assms by (auto simp: dget_def positive_def simp del: map_of_eq_Some_iff split: option.split)

lemma finite_owned_by [simp]: "finite (owned_by st v)"
  unfolding owned_by_def by (rule finite_imageI, rule finite_subset [of _ "set (ms_ownerships st)"]) auto

lemma finite_owners_of [simp]: "finite (owners_of st g)"
  by (simp add: owners_of_def)

lemma owned_by_flag:
  assumes "store_ok st"
  shows "g \<in> owned_by st v \<longleftrightarrow> owner_flag (ms_ownerships st) g v \<noteq> None"
proof -
  have ok: "dict_ok (ms_ownerships st)" using assms by (simp add: store_ok_def owners_ok_def)
  have "g \<in> owned_by st v \<longleftrightarrow> (\<exists>ow. (g, ow) \<in> set (ms_ownerships st) \<and> v \<in> fst ` set ow)"
    by (force simp: owned_by_def)
  also have "\<dots> \<longleftrightarrow> v \<in> fst ` set (dget (ms_ownerships st) g [])"
    unfolding dict_ok_in_set [OF ok] dget_def
    by (cases "map_of (ms_ownerships st) g") (simp_all del: map_of_eq_Some_iff)
  finally show ?thesis by (simp add: owner_flag_def map_of_eq_None_iff)
qed

lemma owners_of_flag': "v \<in> owners_of st g \<longleftrightarrow> owner_flag (ms_ownerships st) g v \<noteq> None"
  by (simp add: owners_of_def owner_flag_def map_of_eq_None_iff)

lemma mem_co_purchases_spec:
  assumes ok: "store_ok (mu_store s)"
  shows "\<exists>full. dict_ok full \<and> sorted (map (\<lambda>(h, n). - n) full) \<and>
    (\<forall>h. map_of full h = (let n = int (card (co_owners (owner_flag (ms_ownerships (mu_store s))) u (set mine) h)) in
       if n = 0 then None else Some n)) \<and>
    mem_co_purchases iu ig s u mine limit = take (nat limit) full"
proof (cases "mine = []")
  case True
  then show ?thesis
    by (intro exI [of _ "[]"]) (simp add: mem_co_purchases_def co_owners_def)
next
  case False
  let ?st = "mu_store s"
  let ?m = "owner_flag (ms_ownerships ?st)"
  let ?nb = "(\<Union>g \<in> set mine. owners_of ?st g) - {u}"
  let ?gs = "\<lambda>v. iterate ig (owned_by ?st v - set mine)"
  define counts where "counts = fold (\<lambda>v. count_all (?gs v)) (iterate iu ?nb) []"
  have nb: "distinct (iterate iu ?nb)" "set (iterate iu ?nb) = ?nb"
    using iterate [of ?nb iu] by auto
  have gs: "distinct (?gs v)" "set (?gs v) = owned_by ?st v - set mine" for v
    using iterate [of "owned_by ?st v - set mine" ig] by auto
  have spec: "dict_ok counts" "positive counts"
    "dget counts h 0 = int (card {v. v \<in> ?nb \<and> h \<in> owned_by ?st v - set mine})" for h
    using count_folds_spec [of "iterate iu ?nb" ?gs "[]"] nb gs(1)
    unfolding counts_def [symmetric] nb(2) gs(2) by (simp_all add: positive_def dget_def [of "[]"])
  have "{v. v \<in> ?nb \<and> h \<in> owned_by ?st v - set mine} = co_owners ?m u (set mine) h" for h
    by (auto simp: co_owners_def owned_by_flag [OF ok] owners_of_flag')
  then have get: "map_of counts h = (let n = int (card (co_owners ?m u (set mine) h)) in
       if n = 0 then None else Some n)" for h
    using map_of_positive [OF spec(2), of h] spec(3) [of h] by (simp add: Let_def)
  let ?full = "sort_key (\<lambda>(k, c). - c) counts"
  have ok_full: "dict_ok ?full" using spec(1)
    by (metis distinct_map distinct_sort mset_map mset_sort set_sort)
  have same: "map_of ?full = map_of counts"
    using ok_full spec(1) by (intro map_of_eqI) auto
  have "mem_co_purchases iu ig s u mine limit = take (nat limit) ?full"
    using False by (simp add: mem_co_purchases_def Let_def most_common_def counts_def)
  with ok_full same get show ?thesis by (intro exI [of _ ?full]) (simp add: case_prod_unfold)
qed

section \<open>The store provides the port\<close>

lemma keyed_map: "keyed f d \<Longrightarrow> map f (map snd d) = map fst d"
  by (auto simp: keyed_def)

lemma best_first_values:
  assumes "keyed f d"
  shows "best_first (map_of d) P key n (py_take n (sort_key key (filter P (map snd d))))"
  unfolding best_first_def
  using distinct_values [OF assms] set_values [of d] assms
  by (intro exI [of _ "filter P (map snd d)"]) (auto simp: keyed_def)

lemma map_of_fold_update:
  "map_of (fold (\<lambda>r d. AList.update (f r) r d) rs d) = fold (\<lambda>r m. m(f r \<mapsto> r)) rs (map_of d)"
  by (induction rs arbitrary: d) (simp_all add: dict_simps)

lemma keyed_fold_update: "keyed f d \<Longrightarrow> keyed f (fold (\<lambda>r d. AList.update (f r) r d) rs d)"
  by (induction rs arbitrary: d) (simp_all add: keyed_update)

lemma fold_map_outbox:
  "fold (\<lambda>r m. m(ob_id r \<mapsto> r)) (map (outbox_record_of t c) es) m =
     fold (\<lambda>e m. m(ev_event_id e \<mapsto> outbox_record_of t c e)) es m"
  by (induction es arbitrary: m) simp_all

lemma merged_games:
  assumes "mem_txn st s"
  shows "keyed game_id (merged_games s)" and "map_of (merged_games s) = w_games (mem_view s)"
  using assms by (auto simp: mem_txn_def store_ok_def merged_games_def keyed_dmerge mem_view_def
      keyed_iff [of _ "mu_games s"] dict_simps)

lemma merged_prefs:
  assumes "mem_txn st s"
  defines "d \<equiv> dmerge (ms_preferences (mu_store s)) (mu_preferences s)"
  shows "keyed pref_user_id d" and "map_of d = w_prefs (mem_view s)"
  using assms by (auto simp: mem_txn_def store_ok_def keyed_dmerge mem_view_def
      keyed_iff [of _ "mu_preferences s"] dict_simps)

lemma mem_commit_ok: "mem_txn st s \<Longrightarrow> store_ok (mem_exit (mem_commit s))"
  by (simp add: mem_txn_def store_ok_def mem_exit_def mem_commit_def keyed_dmerge owners_ok_commits
      dict_simps keyed_fold_update)

lemma mem_commit_view: "mem_txn st s \<Longrightarrow> store_view (mem_exit (mem_commit s)) = mem_view s"
  by (simp add: mem_txn_def store_view_def mem_view_def mem_exit_def mem_commit_def owner_flag_commits
      map_of_fold_update keyed_iff dict_simps)
     (auto simp: fun_eq_iff dget_def dict_simps map_add_def split: option.split)

lemma mem_by_ids_spec:
  assumes "mem_txn st s" "distinct ids"
  shows "distinct (mem_by_ids s ids)"
    and "set (mem_by_ids s ids) = {g. \<exists>i \<in> set ids. w_games (mem_view s) i = Some g}"
proof -
  have k: "game_id g = i" if "map_of (merged_games s) i = Some g" for i g
    using keyedD [OF merged_games(1) [OF assms(1)] that] .
  have "distinct (map (the \<circ> map_of (merged_games s)) (filter (\<lambda>x. map_of (merged_games s) x \<noteq> None) ids))"
    using assms(2) by (auto simp: distinct_map inj_on_def simp del: map_of_eq_Some_iff) (metis k)
  then show "distinct (mem_by_ids s ids)" by (simp add: mem_by_ids_def List.map_filter_def)
  show "set (mem_by_ids s ids) = {g. \<exists>i \<in> set ids. w_games (mem_view s) i = Some g}"
    by (simp add: mem_by_ids_def set_map_filter merged_games(2) [OF assms(1)])
qed

lemma mem_count_spec:
  assumes "mem_txn st s"
  shows "mem_count_recommendable s = int (card {g \<in> ran (w_games (mem_view s)). is_published g})"
proof -
  let ?xs = "filter is_published (map snd (merged_games s))"
  have "distinct ?xs" using distinct_values [OF merged_games(1) [OF assms]] by simp
  then have "length ?xs = card (set ?xs)" by (rule distinct_card [symmetric])
  also have "set ?xs = {g \<in> ran (w_games (mem_view s)). is_published g}"
    using set_values [of "merged_games s"] merged_games [OF assms] by (auto simp: keyed_def)
  finally show ?thesis by (simp add: mem_count_recommendable_def)
qed

lemma mem_with_signals_spec:
  assumes "mem_txn st s"
  shows "distinct (mem_with_signals s n)"
    and "set (mem_with_signals s n) \<subseteq> {u. \<exists>p. w_prefs (mem_view s) u = Some p \<and> 0 < signal_count p}"
proof -
  define d where "d = dmerge (ms_preferences (mu_store s)) (mu_preferences s)"
  note m = merged_prefs [OF assms, folded d_def]
  let ?xs = "filter (\<lambda>p. 0 < signal_count p) (map snd d)"
  have "distinct (map fst d)" using m(1) by (simp add: keyed_def)
  then have "distinct (map pref_user_id (map snd d))" by (simp only: keyed_map [OF m(1)])
  then have "distinct (map pref_user_id ?xs)" by (rule distinct_map_filter)
  then have "distinct (map pref_user_id (sort_key k ?xs))" for k :: "user_preference \<Rightarrow> bool \<times> string"
    by (simp only: distinct_map distinct_sort set_sort)
  then show "distinct (mem_with_signals s n)"
    by (simp add: mem_with_signals_def d_def [symmetric] py_take_def take_map [symmetric])
  have ran: "set (map snd d) = ran (w_prefs (mem_view s))"
    using set_values [of d] m by (simp add: keyed_def)
  have "\<exists>q. w_prefs (mem_view s) u = Some q \<and> 0 < signal_count q"
    if "u = pref_user_id p" "p \<in> set (map snd d)" "0 < signal_count p" for u p
  proof -
    from that(2) ran obtain v where "w_prefs (mem_view s) v = Some p" by (auto simp: ran_def)
    then show ?thesis using keyedD [OF m(1), of v p] m(2) that by auto
  qed
  moreover have "set (py_take n (sort_key k ?xs)) \<subseteq> set ?xs" for k :: "user_preference \<Rightarrow> bool \<times> string"
    using set_py_take [of n "sort_key k ?xs"] by simp
  ultimately show "set (mem_with_signals s n) \<subseteq> {u. \<exists>p. w_prefs (mem_view s) u = Some p \<and> 0 < signal_count p}"
    by (fastforce simp: mem_with_signals_def d_def [symmetric])
qed

lemma mem_uncounted_spec:
  assumes "mem_txn st s" "mem_own_clean s"
  shows "\<exists>us. distinct us \<and> set us = {u. w_owners (mem_view s) g u = Some False} \<and>
    mem_uncounted_owners s g n = py_take n us"
proof -
  define d where "d = dget (ms_ownerships (mu_store s)) g []"
  have ok: "dict_ok d" using assms(1) by (simp add: d_def mem_txn_def store_ok_def owners_ok_dget)
  let ?us = "map fst (filter (\<lambda>(u, counted). \<not> counted) d)"
  have "distinct ?us" using dict_ok_filter [OF ok] by auto
  moreover have "set ?us = {u. w_owners (mem_view s) g u = Some False}"
    using assms(2) ok
    by (force simp: mem_view_def mem_own_clean_def owner_flag_def d_def [symmetric])
  moreover have "mem_uncounted_owners s g n = py_take n ?us"
    using assms(2) by (simp add: mem_uncounted_owners_def mem_own_clean_def d_def)
  ultimately show ?thesis by blast
qed

text \<open>The contract, for every iteration order and topic.\<close>

lemma mem_view_ops:
  "mem_view (mem_upsert_game s gm) = (mem_view s)\<lparr>w_games := (w_games (mem_view s))(game_id gm \<mapsto> gm)\<rparr>"
  "mem_view (mem_upsert_pref s p) = (mem_view s)\<lparr>w_prefs := (w_prefs (mem_view s))(pref_user_id p \<mapsto> p)\<rparr>"
  "mem_view (mem_record_owner s u g c) = (mem_view s)\<lparr>w_owners := raise_owner (w_owners (mem_view s)) u g c\<rparr>"
  "mem_view (mem_replace_for s u rs) = (mem_view s)\<lparr>w_recs := (w_recs (mem_view s))(u := rs)\<rparr>"
  "mem_view (mem_mark s e) = (mem_view s)\<lparr>w_processed := insert e (w_processed (mem_view s))\<rparr>"
proof -
  have "(\<lambda>v. case map_of (AList.update u rs d) v of Some rs' \<Rightarrow> rs' | None \<Rightarrow> f v) =
      (\<lambda>v. case map_of d v of Some rs' \<Rightarrow> rs' | None \<Rightarrow> f v)(u := rs)" for d and f :: "_ \<Rightarrow> recommendation list"
    by (rule ext) (simp add: dict_simps)
  then show "mem_view (mem_replace_for s u rs) = (mem_view s)\<lparr>w_recs := (w_recs (mem_view s))(u := rs)\<rparr>"
    by (simp add: mem_view_def mem_replace_for_def cong: option.case_cong)
qed (simp_all add: mem_view_def mem_upsert_game_def mem_upsert_pref_def mem_record_owner_def
      mem_mark_def dict_simps cong: option.case_cong)

lemma mem_get: "mem_get_game s k = w_games (mem_view s) k" "mem_get_pref s u = w_prefs (mem_view s) u"
  by (simp_all add: mem_get_game_def mem_get_pref_def mem_view_def map_add_def)

lemma mem_txn_ops:
  assumes "mem_txn st s"
  shows "mem_txn st (mem_upsert_game s gm)" "mem_txn st (mem_upsert_pref s p)"
    "mem_txn st (mem_record_owner s u g c)" "mem_txn st (mem_mark_counted s g us)"
    "mem_txn st (mem_replace_for s u rs)" "mem_txn st (mem_enqueue s es)" "mem_txn st (mem_mark s e)"
  using assms by (simp_all add: mem_txn_def mem_upsert_game_def mem_upsert_pref_def mem_record_owner_def
      mem_mark_counted_def mem_replace_for_def mem_enqueue_def mem_mark_def keyed_update dict_simps)

lemma mem_view_enqueue:
  "\<exists>topic cid. mem_view (mem_enqueue s es) = (mem_view s)\<lparr>w_outbox :=
     fold (\<lambda>e m. m(ev_event_id e \<mapsto> outbox_record_of topic cid e)) es (w_outbox (mem_view s))\<rparr>"
  by (intro exI [of _ "mu_topic s"] exI [of _ "mu_correlation_id s"])
     (simp add: mem_view_def mem_enqueue_def fold_map_outbox cong: option.case_cong)

lemma mem_view_mark_counted:
  assumes "\<forall>u \<in> set us. w_owners (mem_view s) g u \<noteq> None"
  shows "mem_view (mem_mark_counted s g us) = (mem_view s)\<lparr>w_owners := (w_owners (mem_view s))
    (g := (\<lambda>u. if u \<in> set us then Some True else w_owners (mem_view s) g u))\<rparr>"
  using raise_marked [of us "w_owners (mem_view s)" g] assms by (simp add: mem_view_def mem_mark_counted_def cong: option.case_cong)

lemma mem_clean_ops:
  "mem_own_clean (mem_upsert_game s gm) = mem_own_clean s"
  "mem_own_clean (mem_upsert_pref s p) = mem_own_clean s"
  "mem_own_clean (mem_replace_for s u rs) = mem_own_clean s"
  "mem_own_clean (mem_mark s e) = mem_own_clean s"
  by (simp_all add: mem_own_clean_def mem_upsert_game_def mem_upsert_pref_def mem_replace_for_def mem_mark_def)

lemma mem_opened:
  assumes "store_ok st"
  shows "mem_txn st (mem_open topic cid st)" "mem_view (mem_open topic cid st) = store_view st"
    "mem_own_clean (mem_open topic cid st)"
  using assms by (simp_all add: mem_txn_def mem_open_def keyed_def mem_view_def store_view_def mem_own_clean_def)

lemma mem_exit_rollback: "mem_txn st s \<Longrightarrow> mem_exit s = st"
  by (simp add: mem_txn_def mem_exit_def mem_rollback_def)

lemma mem_keyed:
  assumes "mem_txn st s"
  shows "w_games (mem_view s) k = Some gm \<Longrightarrow> game_id gm = k"
    and "w_prefs (mem_view s) u = Some p \<Longrightarrow> pref_user_id p = u"
  using keyedD [OF merged_games(1) [OF assms]] keyedD [OF merged_prefs(1) [OF assms]]
  by (simp_all only: merged_games(2) [OF assms] merged_prefs(2) [OF assms])

lemma mem_listings:
  assumes "mem_txn st s"
  shows "best_first (w_games (mem_view s)) is_published popularity_key n (mem_recommendable s n)"
    and "best_first (w_games (mem_view s)) needs_embedding popularity_key n (mem_needing_embedding s n)"
  using best_first_values [OF merged_games(1) [OF assms]]
  by (simp_all only: merged_games(2) [OF assms] mem_recommendable_def mem_needing_embedding_def)

lemma mem_for_user_spec: "mem_for_user s u n = py_take n (sort_key rec_rank (w_recs (mem_view s) u))"
  by (simp add: mem_for_user_def mem_view_def)

lemma mem_seen_spec: "mem_seen s e \<longleftrightarrow> e \<in> w_processed (mem_view s)"
  by (simp add: mem_seen_def mem_view_def)

lemma mem_co_purchases_view:
  assumes "mem_txn st s" "mem_own_clean s"
  shows "\<exists>full. dict_ok full \<and> sorted (map (\<lambda>(h, n). - n) full) \<and>
    (\<forall>h. map_of full h = (let n = int (card (co_owners (w_owners (mem_view s)) u (set mine) h)) in
       if n = 0 then None else Some n)) \<and>
    mem_co_purchases iu ig s u mine limit = take (nat limit) full"
proof -
  have "store_ok (mu_store s)" using assms(1) by (simp add: mem_txn_def)
  moreover have "w_owners (mem_view s) = owner_flag (ms_ownerships (mu_store s))"
    using assms(2) by (simp add: mem_view_def mem_own_clean_def)
  ultimately show ?thesis using mem_co_purchases_spec [of s u mine iu ig limit] by simp
qed

lemma memory_ops_simps [simp]:
  "uow_open (memory_ops iu ig topic) = mem_open topic"
  "uow_commit (memory_ops iu ig topic) = mem_commit"
  "uow_exit (memory_ops iu ig topic) = mem_exit"
  "games_get (memory_ops iu ig topic) = mem_get_game"
  "games_upsert (memory_ops iu ig topic) = mem_upsert_game"
  "games_recommendable (memory_ops iu ig topic) = mem_recommendable"
  "games_by_ids (memory_ops iu ig topic) = mem_by_ids"
  "games_count_recommendable (memory_ops iu ig topic) = mem_count_recommendable"
  "games_needing_embedding (memory_ops iu ig topic) = mem_needing_embedding"
  "games_nearest_to (memory_ops iu ig topic) = mem_nearest_to"
  "prefs_get (memory_ops iu ig topic) = mem_get_pref"
  "prefs_upsert (memory_ops iu ig topic) = mem_upsert_pref"
  "prefs_with_signals (memory_ops iu ig topic) = mem_with_signals"
  "owners_record (memory_ops iu ig topic) = mem_record_owner"
  "owners_uncounted (memory_ops iu ig topic) = mem_uncounted_owners"
  "owners_mark_counted (memory_ops iu ig topic) = mem_mark_counted"
  "owners_co_purchases (memory_ops iu ig topic) = mem_co_purchases iu ig"
  "recs_replace_for (memory_ops iu ig topic) = mem_replace_for"
  "recs_for_user (memory_ops iu ig topic) = mem_for_user"
  "outbox_enqueue (memory_ops iu ig topic) = mem_enqueue"
  "events_seen (memory_ops iu ig topic) = mem_seen"
  "events_mark (memory_ops iu ig topic) = mem_mark"
  by (simp_all add: memory_ops_def)

interpretation mem: unit_of_work "memory_ops iu ig topic" store_ok store_view mem_txn mem_view mem_own_clean
  for iu ig topic
  by (rule unit_of_work.intro; (simp only: memory_ops_simps)?)
     (assumption | rule mem_opened mem_exit_rollback mem_commit_ok mem_commit_view mem_keyed mem_get mem_txn_ops
       mem_view_ops mem_clean_ops mem_listings conjI mem_by_ids_spec mem_count_spec mem_with_signals_spec
       mem_uncounted_spec mem_view_mark_counted mem_co_purchases_view mem_for_user_spec mem_view_enqueue
       mem_seen_spec)+

end
