(* ===== verification/Ingest.thy ===== *)
theory Ingest
  imports Memory
begin

text \<open>
  The consuming use cases (\<open>application/usecases/ingest.py\<close>): what a game, purchase or review
  event does to the store. Each body runs inside one unit of work and returns its outcome with
  the unit of work as it left it; \<open>with_uow\<close> drops what was not committed. The clock is read
  at most once in a handler and is the parameter \<open>now\<close>.

  \<open>effect\<close> is the abstract specification, a function on worlds; \<open>handle_refines\<close> shows that the
  handlers implement it over every provider of the contract \<open>unit_of_work\<close>.
\<close>

section \<open>Handlers\<close>

definition already_handled :: "('db, 's) uow_ops \<Rightarrow> 's \<Rightarrow> uuid \<Rightarrow> bool" where
  "already_handled ops s e = events_seen ops s e"

definition preference_or_blank :: "('db, 's) uow_ops \<Rightarrow> 's \<Rightarrow> user_id \<Rightarrow> user_preference" where
  "preference_or_blank ops s u = (case prefs_get ops s u of Some p \<Rightarrow> p | None \<Rightarrow> blank u)"

definition moment :: "datetime option \<Rightarrow> datetime \<Rightarrow> datetime" where
  "moment occurred_at now = (case occurred_at of Some t \<Rightarrow> t | None \<Rightarrow> now)"

text \<open>The loop of \<open>_backfill\<close>.\<close>

fun credit_owners ::
  "('db, 's) uow_ops \<Rightarrow> datetime \<Rightarrow> game_profile \<Rightarrow> user_id list \<Rightarrow> 's \<Rightarrow> (exn + unit) \<times> 's" where
  "credit_owners ops now game [] s = (Inr (), s)"
| "credit_owners ops now game (u # us) s =
     (case observe (preference_or_blank ops s u) game PURCHASE now of
        Inl x \<Rightarrow> (Inl x, s)
      | Inr p \<Rightarrow> credit_owners ops now game us (prefs_upsert ops s p))"

definition backfill ::
  "('db, 's) uow_ops \<Rightarrow> datetime \<Rightarrow> int \<Rightarrow> game_profile \<Rightarrow> 's \<Rightarrow> (exn + unit) \<times> 's" where
  "backfill ops now limit game s =
     (let owners = owners_uncounted ops s (game_id game) limit in
      if owners = [] then (Inr (), s)
      else case credit_owners ops now game owners s of
          (Inl x, s) \<Rightarrow> (Inl x, s)
        | (Inr _, s) \<Rightarrow> (Inr (), owners_mark_counted ops s (game_id game) owners))"

definition game_published ::
  "('db, 's) uow_ops \<Rightarrow> datetime \<Rightarrow> int \<Rightarrow> uuid \<Rightarrow> game_id \<Rightarrow> user_id \<Rightarrow> string \<Rightarrow> string list \<Rightarrow> string list \<Rightarrow>
   datetime option \<Rightarrow> string \<Rightarrow> 's \<Rightarrow> (exn + unit) \<times> 's" where
  "game_published ops now limit e g dev t gs ts pa d s =
     (if already_handled ops s e then (Inr (), s)
      else case (case games_get ops s g of
            Some existing \<Rightarrow> redescribed existing t gs ts d
          | None \<Rightarrow> published g dev t gs ts pa d) of
          Inl x \<Rightarrow> (Inl x, s)
        | Inr game \<Rightarrow>
            (case backfill ops now limit game (games_upsert ops s game) of
               (Inl x, s) \<Rightarrow> (Inl x, s)
             | (Inr _, s) \<Rightarrow> (Inr (), uow_commit ops (events_mark ops s e))))"

definition game_withdrawn ::
  "('db, 's) uow_ops \<Rightarrow> uuid \<Rightarrow> game_id \<Rightarrow> 's \<Rightarrow> (exn + unit) \<times> 's" where
  "game_withdrawn ops e g s =
     (if already_handled ops s e then (Inr (), s)
      else case games_get ops s g of
          None \<Rightarrow> (Inr (), uow_commit ops (events_mark ops s e))
        | Some game \<Rightarrow>
            (case withdrawn game of
               Inl x \<Rightarrow> (Inl x, s)
             | Inr game' \<Rightarrow> (Inr (), uow_commit ops (events_mark ops (games_upsert ops s game') e))))"

definition purchase_completed ::
  "('db, 's) uow_ops \<Rightarrow> datetime \<Rightarrow> uuid \<Rightarrow> user_id \<Rightarrow> game_id \<Rightarrow> datetime option \<Rightarrow> 's \<Rightarrow> (exn + unit) \<times> 's" where
  "purchase_completed ops now e recipient g occurred_at s =
     (if already_handled ops s e then (Inr (), s)
      else case games_get ops s g of
          None \<Rightarrow> (Inr (), uow_commit ops (events_mark ops (owners_record ops s recipient g False) e))
        | Some game \<Rightarrow>
            (case observe (preference_or_blank ops s recipient) game PURCHASE (moment occurred_at now) of
               Inl x \<Rightarrow> (Inl x, s)
             | Inr p \<Rightarrow>
                 (let s = owners_record ops (prefs_upsert ops s p) recipient g True in
                  case bought game of
                    Inl x \<Rightarrow> (Inl x, s)
                  | Inr game' \<Rightarrow> (Inr (), uow_commit ops (events_mark ops (games_upsert ops s game') e)))))"

definition review_posted ::
  "('db, 's) uow_ops \<Rightarrow> datetime \<Rightarrow> uuid \<Rightarrow> user_id \<Rightarrow> game_id \<Rightarrow> bool \<Rightarrow> datetime option \<Rightarrow> 's \<Rightarrow> (exn + unit) \<times> 's" where
  "review_posted ops now e author g liked occurred_at s =
     (if already_handled ops s e then (Inr (), s)
      else case games_get ops s g of
          None \<Rightarrow> (Inr (), uow_commit ops (events_mark ops s e))
        | Some game \<Rightarrow>
            (let kind = (if liked then REVIEW_LIKE else REVIEW_DISLIKE) in
             case observe (preference_or_blank ops s author) game kind (moment occurred_at now) of
               Inl x \<Rightarrow> (Inl x, s)
             | Inr p \<Rightarrow> (Inr (), uow_commit ops (events_mark ops (prefs_upsert ops s p) e))))"

text \<open>The four commands, and the \<open>async with self._uow_factory()\<close> around each body.\<close>

datatype ingest_command =
    GamePublished (cmd_event: uuid) (cmd_game: game_id) user_id string "string list" "string list"
      "datetime option" string
  | GameWithdrawn (cmd_event: uuid) (cmd_game: game_id)
  | PurchaseCompleted (cmd_event: uuid) user_id (cmd_game: game_id) "datetime option"
  | ReviewPosted (cmd_event: uuid) user_id (cmd_game: game_id) bool "datetime option"

fun ingest_body ::
  "('db, 's) uow_ops \<Rightarrow> datetime \<Rightarrow> int \<Rightarrow> ingest_command \<Rightarrow> 's \<Rightarrow> (exn + unit) \<times> 's" where
  "ingest_body ops now limit (GamePublished e g dev t gs ts pa d) = game_published ops now limit e g dev t gs ts pa d"
| "ingest_body ops now limit (GameWithdrawn e g) = game_withdrawn ops e g"
| "ingest_body ops now limit (PurchaseCompleted e u g occ) = purchase_completed ops now e u g occ"
| "ingest_body ops now limit (ReviewPosted e u g liked occ) = review_posted ops now e u g liked occ"

definition ingest ::
  "('db, 's) uow_ops \<Rightarrow> datetime \<Rightarrow> int \<Rightarrow> string option \<Rightarrow> ingest_command \<Rightarrow> 'db \<Rightarrow> (exn + unit) \<times> 'db" where
  "ingest ops now limit cid c = with_uow ops cid (ingest_body ops now limit c)"

section \<open>The abstract specification\<close>

definition pref_of :: "world \<Rightarrow> user_id \<Rightarrow> user_preference" where
  "pref_of w u = (case w_prefs w u of Some p \<Rightarrow> p | None \<Rightarrow> blank u)"

definition put_game :: "game_profile \<Rightarrow> world \<Rightarrow> world" where
  "put_game gm w = w\<lparr>w_games := (w_games w)(game_id gm \<mapsto> gm)\<rparr>"

definition put_pref :: "user_preference \<Rightarrow> world \<Rightarrow> world" where
  "put_pref p w = w\<lparr>w_prefs := (w_prefs w)(pref_user_id p \<mapsto> p)\<rparr>"

definition put_owner :: "user_id \<Rightarrow> game_id \<Rightarrow> bool \<Rightarrow> world \<Rightarrow> world" where
  "put_owner u g c w = w\<lparr>w_owners := raise_owner (w_owners w) u g c\<rparr>"

definition put_mark :: "uuid \<Rightarrow> world \<Rightarrow> world" where
  "put_mark e w = w\<lparr>w_processed := insert e (w_processed w)\<rparr>"

definition count_owners :: "game_id \<Rightarrow> user_id list \<Rightarrow> world \<Rightarrow> world" where
  "count_owners g us w = w\<lparr>w_owners := (w_owners w)
     (g := (\<lambda>u. if u \<in> set us then Some True else w_owners w g u))\<rparr>"

definition signal :: "game_profile \<Rightarrow> signal_kind \<Rightarrow> datetime \<Rightarrow> user_id \<Rightarrow> world \<Rightarrow> exn + world" where
  "signal gm k tm u w = bindE (observe (pref_of w u) gm k tm) (\<lambda>p. Inr (put_pref p w))"

fun signal_all :: "game_profile \<Rightarrow> datetime \<Rightarrow> user_id list \<Rightarrow> world \<Rightarrow> exn + world" where
  "signal_all gm tm [] w = Inr w"
| "signal_all gm tm (u # us) w = bindE (signal gm PURCHASE tm u w) (signal_all gm tm us)"

text \<open>\<open>us\<close> are the owners a publication credits.\<close>

fun news :: "datetime \<Rightarrow> user_id list \<Rightarrow> ingest_command \<Rightarrow> world \<Rightarrow> exn + world" where
  "news now us (GamePublished e g dev t gs ts pa d) w =
     bindE (case w_games w g of Some gm \<Rightarrow> redescribed gm t gs ts d | None \<Rightarrow> published g dev t gs ts pa d) (\<lambda>gm.
     bindE (signal_all gm now us (put_game gm w)) (\<lambda>w. Inr (count_owners g us w)))"
| "news now us (GameWithdrawn e g) w =
     (case w_games w g of None \<Rightarrow> Inr w | Some gm \<Rightarrow> bindE (withdrawn gm) (\<lambda>gm. Inr (put_game gm w)))"
| "news now us (PurchaseCompleted e u g occ) w =
     (case w_games w g of
        None \<Rightarrow> Inr (put_owner u g False w)
      | Some gm \<Rightarrow> bindE (signal gm PURCHASE (moment occ now) u w) (\<lambda>w.
          bindE (bought gm) (\<lambda>gm. Inr (put_game gm (put_owner u g True w)))))"
| "news now us (ReviewPosted e u g liked occ) w =
     (case w_games w g of
        None \<Rightarrow> Inr w
      | Some gm \<Rightarrow> signal gm (if liked then REVIEW_LIKE else REVIEW_DISLIKE) (moment occ now) u w)"

definition effect :: "datetime \<Rightarrow> user_id list \<Rightarrow> ingest_command \<Rightarrow> world \<Rightarrow> exn + world" where
  "effect now us c w =
     (if cmd_event c \<in> w_processed w then Inr w
      else bindE (news now us c w) (\<lambda>w. Inr (put_mark (cmd_event c) w)))"

definition uncounted_in :: "world \<Rightarrow> game_id \<Rightarrow> user_id set" where
  "uncounted_in w g = {u. w_owners w g u = Some False}"

lemma put_simps [simp]:
  "w_games (put_game gm w) = (w_games w)(game_id gm \<mapsto> gm)" "w_prefs (put_game gm w) = w_prefs w"
  "w_owners (put_game gm w) = w_owners w" "w_processed (put_game gm w) = w_processed w"
  "w_prefs (put_pref p w) = (w_prefs w)(pref_user_id p \<mapsto> p)" "w_games (put_pref p w) = w_games w"
  "w_owners (put_pref p w) = w_owners w" "w_processed (put_pref p w) = w_processed w"
  "w_owners (put_owner u g c w) = raise_owner (w_owners w) u g c" "w_games (put_owner u g c w) = w_games w"
  "w_prefs (put_owner u g c w) = w_prefs w" "w_processed (put_owner u g c w) = w_processed w"
  "w_processed (put_mark e w) = insert e (w_processed w)" "w_games (put_mark e w) = w_games w"
  "w_prefs (put_mark e w) = w_prefs w" "w_owners (put_mark e w) = w_owners w"
  "w_games (count_owners g us w) = w_games w" "w_prefs (count_owners g us w) = w_prefs w"
  "w_processed (count_owners g us w) = w_processed w"
  "w_owners (count_owners g us w) = (w_owners w)(g := (\<lambda>u. if u \<in> set us then Some True else w_owners w g u))"
  by (simp_all add: put_game_def put_pref_def put_owner_def put_mark_def count_owners_def)

lemma mk_game_profile_id: "mk_game_profile g = Inr g' \<Longrightarrow> game_id g' = game_id g"
  by (auto simp: mk_game_profile_def res_simps split: if_splits)

lemma redescribed_gid: "redescribed g t gs ts d = Inr g' \<Longrightarrow> game_id g' = game_id g"
  by (auto simp: redescribed_def res_simps dest: mk_game_profile_id)

section \<open>The handlers implement the specification\<close>

context unit_of_work
begin

lemmas put_views =
  upsert_game_view [folded put_game_def] upsert_pref_view [folded put_pref_def]
  own_record_view [folded put_owner_def] mark_view [folded put_mark_def]

lemma pref_of_view: "txn db s \<Longrightarrow> preference_or_blank ops s u = pref_of (view s) u"
  by (simp add: preference_or_blank_def pref_of_def get_pref)

lemma credit_owners_refines:
  assumes "txn db s"
  shows "case signal_all gm now us (view s) of
      Inl x \<Rightarrow> \<exists>s'. credit_owners ops now gm us s = (Inl x, s') \<and> txn db s'
    | Inr w \<Rightarrow> \<exists>s'. credit_owners ops now gm us s = (Inr (), s') \<and> txn db s' \<and> view s' = w"
  using assms
proof (induction us arbitrary: s)
  case Nil
  then show ?case by simp
next
  case (Cons u us)
  then show ?case
  proof (cases "observe (pref_of (view s) u) gm PURCHASE now")
    case (Inr p)
    then show ?thesis using Cons.IH [OF upsert_pref_txn [OF Cons.prems]] Cons.prems
      by (simp add: pref_of_view [OF Cons.prems] signal_def put_views cong: sum.case_cong)
  next
    case (Inl x)
    then show ?thesis using Cons.prems by (simp add: pref_of_view signal_def cong: sum.case_cong)
  qed
qed

lemma signal_all_owners: "signal_all gm now us w = Inr w' \<Longrightarrow> w_owners w' = w_owners w"
  by (induction us arbitrary: w) (auto simp: signal_def res_simps)

lemma signal_all_games: "signal_all gm now us w = Inr w' \<Longrightarrow> w_games w' = w_games w \<and> w_processed w' = w_processed w"
  by (induction us arbitrary: w) (auto simp: signal_def res_simps)

lemma backfill_refines:
  assumes "txn db s" "own_clean s"
  shows "\<exists>us. distinct us \<and> set us = uncounted_in (view s) (game_id gm) \<and>
    (case signal_all gm now (py_take limit us) (view s) of
      Inl x \<Rightarrow> \<exists>s'. backfill ops now limit gm s = (Inl x, s') \<and> txn db s'
    | Inr w \<Rightarrow> \<exists>s'. backfill ops now limit gm s = (Inr (), s') \<and> txn db s' \<and>
        view s' = count_owners (game_id gm) (py_take limit us) w)"
proof -
  obtain us where us: "distinct us" "set us = uncounted_in (view s) (game_id gm)"
    "owners_uncounted ops s (game_id gm) limit = py_take limit us"
    using uncounted [OF assms, of "game_id gm" limit] by (auto simp: uncounted_in_def)
  have known: "w_owners (view s) (game_id gm) u = Some False" if "u \<in> set (py_take limit us)" for u
    using that set_py_take us(2) by (fastforce simp: uncounted_in_def)
  have "case signal_all gm now (py_take limit us) (view s) of
      Inl x \<Rightarrow> \<exists>s'. backfill ops now limit gm s = (Inl x, s') \<and> txn db s'
    | Inr w \<Rightarrow> \<exists>s'. backfill ops now limit gm s = (Inr (), s') \<and> txn db s' \<and>
        view s' = count_owners (game_id gm) (py_take limit us) w"
  proof (cases "py_take limit us = []")
    case True
    then show ?thesis using assms us by (simp add: backfill_def count_owners_def)
  next
    case False
    note step = credit_owners_refines [OF assms(1), where us = "py_take limit us" and now = now and gm = gm]
    show ?thesis
    proof (cases "signal_all gm now (py_take limit us) (view s)")
      case (Inl x)
      then show ?thesis using step False us by (auto simp: backfill_def)
    next
      case (Inr w)
      then obtain s' where s': "credit_owners ops now gm (py_take limit us) s = (Inr (), s')" "txn db s'" "view s' = w"
        using step by auto
      have "\<forall>u \<in> set (py_take limit us). w_owners (view s') (game_id gm) u \<noteq> None"
        using known signal_all_owners [OF Inr] s'(3) by simp
      note marked = mark_counted_view [OF s'(2) this] mark_counted_txn [OF s'(2)]
      have "backfill ops now limit gm s = (Inr (), owners_mark_counted ops s' (game_id gm) (py_take limit us))"
        by (simp add: backfill_def us(3) False s'(1))
      then show ?thesis using marked by (simp add: Inr s'(3) [symmetric] count_owners_def)
    qed
  qed
  with us show ?thesis by blast
qed

lemma commit_mark:
  assumes "txn db s"
  shows "db_ok (uow_exit ops (uow_commit ops (events_mark ops s e)))"
    and "db_view (uow_exit ops (uow_commit ops (events_mark ops s e))) = put_mark e (view s)"
  using commit_ok [OF mark_txn [OF assms]] commit_view [OF mark_txn [OF assms]] put_views(4) [OF assms]
  by simp_all

text \<open>
  What leaving the unit of work makes of a body: an exception leaves the database as it was,
  success leaves the world of the specification.
\<close>

definition implements :: "'db \<Rightarrow> (exn + unit) \<times> 's \<Rightarrow> exn + world \<Rightarrow> bool" where
  "implements db out spec \<longleftrightarrow> (case spec of
       Inl x \<Rightarrow> fst out = Inl x \<and> uow_exit ops (snd out) = db
     | Inr w \<Rightarrow> fst out = Inr () \<and> db_ok (uow_exit ops (snd out)) \<and> db_view (uow_exit ops (snd out)) = w)"

lemma implements_Inl: "txn db s \<Longrightarrow> implements db (Inl x, s) (Inl x)"
  by (simp add: implements_def exit_rollback)

lemma implements_mark:
  "txn db s \<Longrightarrow> view s = w \<Longrightarrow> implements db (Inr (), uow_commit ops (events_mark ops s e)) (Inr (put_mark e w))"
  by (simp add: implements_def commit_mark)

lemma implements_seen: "txn db s \<Longrightarrow> view s = db_view db \<Longrightarrow> db_ok db \<Longrightarrow> implements db (Inr (), s) (Inr (db_view db))"
  by (simp add: implements_def exit_rollback)

lemmas at_db = get_game get_pref seen put_views txns pref_of_view

lemma withdrawn_refines:
  assumes "txn db s"
  shows "e \<notin> w_processed (view s) \<Longrightarrow>
    implements db (game_withdrawn ops e g s) (bindE (news now us (GameWithdrawn e g) (view s)) (\<lambda>w. Inr (put_mark e w)))"
  using assms
  by (auto simp: game_withdrawn_def already_handled_def at_db [where db = db]
      intro!: implements_mark implements_Inl split: option.split sum.split)

lemma review_refines:
  assumes "txn db s"
  shows "e \<notin> w_processed (view s) \<Longrightarrow>
    implements db (review_posted ops now e u g liked occ s)
      (bindE (news now us (ReviewPosted e u g liked occ) (view s)) (\<lambda>w. Inr (put_mark e w)))"
  using assms
  by (auto simp: review_posted_def already_handled_def at_db [where db = db] signal_def Let_def
      intro!: implements_mark implements_Inl split: option.split sum.split)

lemma purchase_refines:
  assumes "txn db s"
  shows "e \<notin> w_processed (view s) \<Longrightarrow>
    implements db (purchase_completed ops now e u g occ s)
      (bindE (news now us (PurchaseCompleted e u g occ) (view s)) (\<lambda>w. Inr (put_mark e w)))"
  using assms
  by (auto simp: purchase_completed_def already_handled_def at_db [where db = db] signal_def Let_def
      intro!: implements_mark implements_Inl split: option.split sum.split)

lemma published_refines:
  assumes "txn db s" "own_clean s" "e \<notin> w_processed (view s)"
  shows "\<exists>us. distinct us \<and> set us = uncounted_in (view s) g \<and>
    implements db (game_published ops now limit e g dev t gs ts pa d s)
      (bindE (news now (py_take limit us) (GamePublished e g dev t gs ts pa d) (view s)) (\<lambda>w. Inr (put_mark e w)))"
proof -
  let ?new = "case w_games (view s) g of Some gm \<Rightarrow> redescribed gm t gs ts d | None \<Rightarrow> published g dev t gs ts pa d"
  have body: "game_published ops now limit e g dev t gs ts pa d s = (case ?new of Inl x \<Rightarrow> (Inl x, s)
     | Inr gm \<Rightarrow> (case backfill ops now limit gm (games_upsert ops s gm) of
         (Inl x, s) \<Rightarrow> (Inl x, s) | (Inr _, s) \<Rightarrow> (Inr (), uow_commit ops (events_mark ops s e))))"
    using assms by (simp add: game_published_def already_handled_def at_db [where db = db])
  show ?thesis
  proof (cases ?new)
    case (Inl x)
    obtain us where "distinct us \<and> set us = uncounted_in (view s) g"
      using uncounted [OF assms(1,2), of g 0] by (auto simp: uncounted_in_def)
    with Inl assms(1) show ?thesis by (intro exI [of _ us]) (simp add: body implements_Inl)
  next
    case (Inr gm)
    let ?s = "games_upsert ops s gm"
    have "game_id gm = g"
      using Inr games_keyed [OF assms(1), of g] published_Inr redescribed_gid by (fastforce split: option.splits)
    moreover have up: "txn db ?s" "own_clean ?s" "view ?s = put_game gm (view s)"
      using assms by (simp_all add: upsert_game_txn upsert_game_clean put_views [where db = db])
    moreover obtain us where us: "distinct us" "set us = uncounted_in (view ?s) (game_id gm)"
      "case signal_all gm now (py_take limit us) (view ?s) of
         Inl x \<Rightarrow> \<exists>s'. backfill ops now limit gm ?s = (Inl x, s') \<and> txn db s'
       | Inr w \<Rightarrow> \<exists>s'. backfill ops now limit gm ?s = (Inr (), s') \<and> txn db s' \<and>
           view s' = count_owners (game_id gm) (py_take limit us) w"
      using backfill_refines [OF up(1,2)] by blast
    ultimately show ?thesis
      by (intro exI [of _ us], cases "signal_all gm now (py_take limit us) (view ?s)")
         (auto simp: body Inr uncounted_in_def intro: implements_Inl implements_mark)
  qed
qed

text \<open>Every command, from a database the provider accepts.\<close>

theorem handle_refines:
  assumes "db_ok db"
  shows "\<exists>us. distinct us \<and> set us = uncounted_in (db_view db) (cmd_game c) \<and>
    (case effect now (py_take limit us) c (db_view db) of
       Inl x \<Rightarrow> ingest ops now limit cid c db = (Inl x, db)
     | Inr w \<Rightarrow> \<exists>db'. ingest ops now limit cid c db = (Inr (), db') \<and> db_ok db' \<and> db_view db' = w \<and>
         (cmd_event c \<in> w_processed (db_view db) \<longrightarrow> db' = db))"
proof -
  let ?s = "uow_open ops cid db"
  note opened = open_txn [OF assms, of cid] open_view [OF assms, of cid] open_clean [OF assms, of cid]
  obtain us0 where us0: "distinct us0" "set us0 = uncounted_in (db_view db) (cmd_game c)"
    using uncounted [OF opened(1,3), where g = "cmd_game c" and n = 0] opened(2) by (auto simp: uncounted_in_def)
  show ?thesis
  proof (cases "cmd_event c \<in> w_processed (db_view db)")
    case True
    have seen: "already_handled ops ?s (cmd_event c)"
      using True opened seen [OF opened(1)] by (simp add: already_handled_def)
    then have "ingest_body ops now limit c ?s = (Inr (), ?s)"
      by (cases c) (simp_all add: game_published_def game_withdrawn_def purchase_completed_def review_posted_def)
    then have "ingest ops now limit cid c db = (Inr (), db)"
      using exit_rollback [OF opened(1)] by (simp add: ingest_def with_uow_def)
    with us0 True assms show ?thesis by (intro exI [of _ us0]) (simp add: effect_def)
  next
    case False
    have "\<exists>us. distinct us \<and> set us = uncounted_in (view ?s) (cmd_game c) \<and>
        implements db (ingest_body ops now limit c ?s)
          (bindE (news now (py_take limit us) c (view ?s)) (\<lambda>w. Inr (put_mark (cmd_event c) w)))"
      using False us0 opened published_refines [OF opened(1,3)] withdrawn_refines [OF opened(1)]
        review_refines [OF opened(1)] purchase_refines [OF opened(1)]
      by (cases c) (simp_all, blast+)
    then obtain us where "distinct us" "set us = uncounted_in (db_view db) (cmd_game c)"
      "implements db (ingest_body ops now limit c ?s) (effect now (py_take limit us) c (db_view db))"
      using False by (auto simp: opened effect_def)
    then show ?thesis using False
      by (intro exI [of _ us])
         (auto simp: implements_def ingest_def with_uow_def prod.case_eq_if prod_eq_iff Let_def split: sum.splits)
  qed
qed

end

end
