(* ===== verification/Laws.thy ===== *)
theory Laws
  imports Scoring
begin

text \<open>
  The properties of the domain layer, each over the definitions of one component: ids, features,
  the two vector spaces, game profiles, user profiles and the recommender.
\<close>

section \<open>Ids and features\<close>

text \<open>Round trip of ids. Parsing the printed form of a game id or a user id gives the id back; the
  printed forms of different ids differ and are ordered as the ids are.\<close>

lemma ids_round_trip:
  "game_id_parse (game_str g) = Inr g \<and> user_id_parse (user_str u) = Inr u \<and>
   (game_str g = game_str h \<longleftrightarrow> g = h) \<and> (game_str g < game_str h \<longleftrightarrow> game_uuid g < game_uuid h)"
  by (cases g; cases h) (simp add: game_id_roundtrip user_id_roundtrip)

text \<open>Features. A label becomes a feature exactly when it is not blank and its token has at most 64
  characters; the token is the kind, a colon and the label with its words in lower case joined by
  hyphens, so no white space or upper case is left. Every other label raises \<open>InvariantViolation\<close>.\<close>

lemma feature_normalises:
  "(case feature kind raw of
      Inl x \<Rightarrow> (\<exists>m. x = InvariantViolation m) \<and> (py_strip raw = [] \<or> \<not> label_fits kind raw)
    | Inr token \<Rightarrow> py_strip raw \<noteq> [] \<and> label_fits kind raw \<and> token = kind @ '':'' @ normalised raw \<and>
        normalised raw \<noteq> [] \<and> length token \<le> MAX_FEATURE_CHARS) \<and>
   (\<forall>c. c \<in> set (normalised raw) \<longrightarrow> \<not> py_isspace c \<and> lower_char c = c)"
  by (auto simp: feature_eq label_fits_def normalised_Nil_iff normalised_chars split: if_splits)

lemma feature_normalises_witness: "\<not> py_isspace (CHR ''o'') \<and> lower_char (CHR ''o'') = CHR ''o''"
  using feature_normalises [where kind = "''tag''" and raw = "''Co-op  Mode''", THEN conjunct2,
      rule_format, of "CHR ''o''"]
  by (simp add: normalised_def, code_simp)

section \<open>The sparse space\<close>

text \<open>Addition. \<open>plus\<close> is vector addition with a scale, coordinate by coordinate, and keeps the
  representation free of repeated names and of zero weights.\<close>

theorem plus_is_vector_addition:
  assumes "wf_embedding a" "wf_embedding b"
  shows "wf_embedding (emb_plus a b s) \<and> (\<forall>x. coord (emb_plus a b s) x = coord a x + coord b x * s)"
  using assms by (simp add: coord_plus wf_emb_plus)

lemma plus_is_vector_addition_witness:
  "coord (emb_plus (emb_of [''genre:rpg'']) (emb_of [''genre:rpg'', ''tag:indie'']) (- 1)) ''tag:indie'' = - 1"
  using plus_is_vector_addition [of "emb_of [''genre:rpg'']" "emb_of [''genre:rpg'', ''tag:indie'']" "- 1"]
  by (simp add: coord_of)

text \<open>Similarity. The cosine of two vectors lies in \<open>[-1, 1]\<close>, does not depend on their order, and
  does not change when one of them is scaled by a positive factor.\<close>

lemma cosine_laws:
  assumes "wf_embedding a" "wf_embedding b" "0 < s"
  shows "\<bar>emb_cosine a b\<bar> \<le> 1 \<and> emb_cosine a b = emb_cosine b a \<and>
    emb_cosine (emb_plus emb_empty a s) b = emb_cosine a b"
  using assms by (simp add: emb_cosine_abs emb_cosine_scaled emb_cosine_commute [of a b])

lemma cosine_laws_witness:
  "\<bar>emb_cosine (emb_of [''genre:rpg'']) (emb_of [''genre:rpg'', ''tag:indie''])\<bar> \<le> 1"
  using cosine_laws [of "emb_of [''genre:rpg'']" "emb_of [''genre:rpg'', ''tag:indie'']" 1, THEN conjunct1] by simp

text \<open>Reasons. \<open>overlap\<close> names exactly the features that both vectors weigh positively, each once,
  the heaviest of the first vector first and ties in the order of the names.\<close>

lemma overlap_names_the_shared_features:
  assumes "wf_embedding a"
  shows "set (emb_overlap a b) = {x. 0 < coord a x \<and> 0 < coord b x} \<and> distinct (emb_overlap a b) \<and>
    sorted (map (\<lambda>x. (- coord a x, x)) (emb_overlap a b))"
  by (simp only: set_overlap overlap_distinct [OF assms] overlap_sorted simp_thms)

lemma overlap_names_the_shared_features_witness:
  "set (emb_overlap (emb_of [''genre:rpg'', ''tag:indie'']) (emb_of [''tag:indie''])) = {''tag:indie''}"
  using overlap_names_the_shared_features [of "emb_of [''genre:rpg'', ''tag:indie'']" "emb_of [''tag:indie'']"]
  by (auto simp: coord_of split: if_splits)

section \<open>The dense space\<close>

text \<open>Dense vectors. Adding vectors of one width, the empty one included, returns a vector of that
  width whose coordinates are sums; adding non-empty vectors of different widths raises; the cosine lies
  in \<open>[-1, 1]\<close> and is zero between different widths.\<close>

lemma dense_laws:
  assumes "at_width n a" "at_width n b"
  shows "(\<exists>c. dense_plus a b s = Inr c \<and> at_width n c \<and> (\<forall>i. dcoord c i = dcoord a i + dcoord b i * s)) \<and>
    (\<forall>d. \<not> dense_is_empty a \<and> \<not> dense_is_empty d \<and> dimensions d \<noteq> n \<longrightarrow>
      (\<exists>m. dense_plus a d s = Inl (InvariantViolation m)) \<and> dense_cosine a d = 0) \<and>
    \<bar>dense_cosine a b\<bar> \<le> 1"
proof -
  obtain c where "dense_plus a b s = Inr c" "at_width n c" "\<And>i. dcoord c i = dcoord a i + dcoord b i * s"
    using dense_plus_at_width [OF assms, of s] by blast
  moreover have "dimensions a = n" if "\<not> dense_is_empty a" using that assms(1) by (simp add: at_width_def)
  ultimately show ?thesis
    using dense_plus_mismatch [of a] dense_cosine_mismatch [of a] by (auto simp: dense_cosine_abs)
qed

lemma dense_laws_witness:
  "\<exists>c. dense_plus (dense_of [1, 2]) (dense_of [3, 4]) 2 = Inr c \<and> at_width 2 c \<and>
     (\<forall>i. dcoord c i = dcoord (dense_of [1, 2]) i + dcoord (dense_of [3, 4]) i * 2)"
  using dense_laws [of 2 "dense_of [1, 2]" "dense_of [3, 4]" 2]
  by (simp add: at_width_def dense_of_def dimensions_def dense_is_empty_def)

section \<open>Games\<close>

text \<open>The life of a game. Republishing a well-formed game succeeds exactly when the new title is not
  blank and fits and the new labels fit; it keeps the identity, the developer, the publication time and
  the purchases, makes the game recommendable again, embeds it by its new labels and drops the dense
  vector of the old text. Buying and withdrawing never fail and change one field each. The results are
  well formed.\<close>

lemma game_life:
  assumes "wf_game g"
  shows "(case redescribed g t gs ts d of
      Inl x \<Rightarrow> (\<exists>m. x = InvariantViolation m) \<and> \<not> describable t gs ts
    | Inr g' \<Rightarrow> describable t gs ts \<and> wf_game g' \<and> game_id g' = game_id g \<and> developer_id g' = developer_id g \<and>
        published_at g' = published_at g \<and> purchase_count g' = purchase_count g \<and> is_published g' \<and>
        needs_embedding g' \<and> embedding g' = emb_of (label_features gs ts)) \<and>
    bought g = Inr (g\<lparr>purchase_count := purchase_count g + 1\<rparr>) \<and>
    wf_game (g\<lparr>purchase_count := purchase_count g + 1\<rparr>) \<and>
    withdrawn g = Inr (g\<lparr>is_published := False\<rparr>) \<and> wf_game (g\<lparr>is_published := False\<rparr>)"
proof -
  have p: "0 \<le> purchase_count g" using assms by (simp add: wf_game_def)
  have "case redescribed g t gs ts d of
      Inl x \<Rightarrow> (\<exists>m. x = InvariantViolation m) \<and> \<not> describable t gs ts
    | Inr g' \<Rightarrow> describable t gs ts \<and> wf_game g' \<and> game_id g' = game_id g \<and> developer_id g' = developer_id g \<and>
        published_at g' = published_at g \<and> purchase_count g' = purchase_count g \<and> is_published g' \<and>
        needs_embedding g' \<and> embedding g' = emb_of (label_features gs ts)"
  proof (cases "redescribed g t gs ts d")
    case (Inl x)
    then show ?thesis using redescribed_ok [OF p, of t gs ts d] redescribed_fails [OF p, of t gs ts d]
      by (cases "describable t gs ts") auto
  next
    case (Inr g')
    note r = redescribed_Inr [OF p Inr]
    then have "embedding g' = emb_of (label_features gs ts)" by (simp add: wf_game_def)
    with r show ?thesis by (simp add: Inr needs_embedding_def)
  qed
  then show ?thesis using assms by (simp add: game_ops wf_game_bought)
qed

definition sample_game :: game_profile where
  "sample_game = (blank_game (GameId 1) (UserId 2) None)\<lparr>title := ''Hades'', genres := [''RPG''],
     embedding := emb_of [''genre:rpg'']\<rparr>"

lemma sample_describable: "describable ''Hades'' [''RPG''] []"
  by code_simp

lemma label_features_sample: "label_features [''RPG''] [] = [''genre:rpg'']"
  by code_simp

lemma wf_sample_game: "wf_game sample_game"
  using sample_describable label_features_sample
  by (simp add: wf_game_def sample_game_def blank_game_def describable_def, code_simp)

lemma game_life_witness: "bought sample_game = Inr (sample_game\<lparr>purchase_count := 1\<rparr>)"
  using game_life [OF wf_sample_game, of "''Hades''" "[]" "[]" "[]"]
  by (simp add: sample_game_def blank_game_def)

section \<open>Profiles\<close>

text \<open>Observing a signal on a well-formed profile adds the weighted game to the taste,
  coordinate by coordinate, appends the signal to the history and keeps its last 200, counts it, and adds
  the game to the library only when it is a purchase. The profile stays well formed.\<close>

theorem observe_effect:
  assumes "wf_pref p" "wf_game g" "observe p g k tm = Inr q"
  shows "wf_pref q \<and> pref_user_id q = pref_user_id p \<and> signal_count q = signal_count p + 1 \<and>
    (\<forall>x. coord (taste q) x = coord (taste p) x + coord (embedding g) x * weight_of k) \<and>
    owned q = (if k = PURCHASE then finsert (game_id g) (owned p) else owned p) \<and>
    length (history q) = min MAX_SIGNAL_HISTORY (length (history p) + 1) \<and>
    last (history q) = \<lparr>signal_game = game_id g, signal_weight = weight_of k\<rparr> \<and> updated_at q = Some tm"
proof -
  have e: "wf_embedding (embedding g)" using assms(2) by (simp add: wf_game_def)
  note o = observe_Inr [OF assms(3)]
  have h: "length (history q) = min MAX_SIGNAL_HISTORY (length (history p) + 1)"
    by (simp add: o(4) length_keep_last)
  have "last (history q) = \<lparr>signal_game = game_id g, signal_weight = weight_of k\<rparr>"
    unfolding o(4) keep_last_def by (subst last_drop) (simp_all add: MAX_SIGNAL_HISTORY_def)
  then show ?thesis
    using observe_wf [OF assms(1) e assms(3)] observe_coord [OF assms(1) e assms(3)] o h by simp
qed

lemma observe_effect_witness:
  "\<exists>q. observe (blank (UserId 7)) sample_game REVIEW_DISLIKE (utc 0) = Inr q \<and>
     coord (taste q) ''genre:rpg'' = - 3 / 10 \<and> owned q = {||}"
proof -
  obtain q where q: "observe (blank (UserId 7)) sample_game REVIEW_DISLIKE (utc 0) = Inr q"
    using observe_total [of 0 "blank (UserId 7)" sample_game REVIEW_DISLIKE "utc 0"]
    by (auto simp: blank_def sample_game_def blank_game_def)
  show ?thesis
    using observe_effect [OF wf_blank wf_sample_game q] q
    by (simp add: blank_def sample_game_def blank_game_def coord_of)
qed

text \<open>Late vectors. Rebuilding the dense taste over vectors of one width cannot fail, and each of its
  coordinates is the weighted sum of the coordinates of the remembered games that have a vector. So a
  profile whose purchases came before the games were embedded gets the taste it would have had.\<close>

lemma rebuilding_repairs_the_dense_taste:
  assumes "\<forall>g v. space g = Some v \<longrightarrow> at_width n v"
  shows "\<exists>d. rebuilt_in p space = Inr (p\<lparr>taste_dense := d\<rparr>) \<and> at_width n d \<and>
    (\<forall>i. dcoord d i = sum_list (map (\<lambda>r. space_coord space (signal_game r) i * signal_weight r) (history p)))"
proof -
  obtain d where "rebuild space (history p) dense_empty = Inr d" "at_width n d"
    "\<forall>i. dcoord d i = dcoord dense_empty i +
      sum_list (map (\<lambda>r. space_coord space (signal_game r) i * signal_weight r) (history p))"
    using rebuild_sum [where space = space and w = n and acc = dense_empty and rs = "history p"] assms by auto
  then show ?thesis by (intro exI [of _ d]) (simp add: rebuilt_in_def)
qed

definition sample_space :: "game_id \<rightharpoonup> dense_embedding" where
  "sample_space = [GameId 1 \<mapsto> dense_of [3, 4]]"

definition sample_buyer :: user_preference where
  "sample_buyer = (blank (UserId 7))\<lparr>history := [\<lparr>signal_game = GameId 1, signal_weight = 1\<rparr>]\<rparr>"

lemma rebuilding_repairs_the_dense_taste_witness:
  "\<exists>d. rebuilt_in sample_buyer sample_space = Inr (sample_buyer\<lparr>taste_dense := d\<rparr>) \<and> dcoord d 1 = 4"
proof -
  have w: "\<forall>g v. sample_space g = Some v \<longrightarrow> at_width 2 v"
    by (simp add: sample_space_def at_width_def dense_of_def dimensions_def)
  have "space_coord sample_space (GameId 1) 1 = 4"
    by (simp add: space_coord_def sample_space_def dcoord_def dense_of_def dimensions_def)
  moreover have "history sample_buyer = [\<lparr>signal_game = GameId 1, signal_weight = 1\<rparr>]"
    by (simp add: sample_buyer_def)
  ultimately show ?thesis
    using rebuilding_repairs_the_dense_taste [OF w, of sample_buyer] by auto
qed

text \<open>What is remembered. \<open>remembered_games\<close> lists the games of the history, each once.\<close>

lemma remembered_games_are_the_history:
  "set (remembered_games p) = signal_game ` set (history p) \<and> distinct (remembered_games p)"
  by (simp add: set_remembered_games distinct_remembered_games)

section \<open>The recommender\<close>

text \<open>The ranker is sound. Every ranked game is a recommendable candidate that the user does not own,
  with a score in \<open>(0, 1)\<close>; the list has at most \<open>limit\<close> entries, best first.\<close>

theorem rank_sound:
  assumes "sc = content_based_scorer \<or> sc = dense_content_scorer"
    and "wf_pref p" "\<forall>g \<in> set cs. wf_game g" "dict_ok co" "0 \<le> limit"
  shows "(\<forall>i \<in> set (rank sc p cs co limit). sg_game i \<in> set cs \<and> is_published (sg_game i) \<and>
      \<not> owns p (game_id (sg_game i)) \<and> 0 < blend (sg_content i) (sg_collaborative i) \<and>
      blend (sg_content i) (sg_collaborative i) < 1) \<and>
    length (rank sc p cs co limit) \<le> nat limit \<and> sorted (map rank_key (rank sc p cs co limit))"
proof -
  have scorer: "content_scorer sc"
    using assms(1) sparse.content_scorer_axioms semantic.content_scorer_axioms by auto
  have "sg_game i \<in> set cs \<and> is_published (sg_game i) \<and> \<not> owns p (game_id (sg_game i)) \<and>
      0 < blend (sg_content i) (sg_collaborative i) \<and> blend (sg_content i) (sg_collaborative i) < 1"
    if i: "i \<in> set (rank sc p cs co limit)" for i
  proof -
    obtain g where g: "g \<in> set cs" "score_candidate sc p (collaborative_scores co) g = Some i"
      using set_rank [OF i] by blast
    note s = score_candidate_SomeD [OF g(2)]
    have "blend (sg_content i) (sg_collaborative i) < 1"
      using content_scorer.blend_range(2) [OF scorer assms(2)] assms(3) g(1) collaborative_range [OF assms(4)]
      by (simp add: s)
    with s g(1) show ?thesis by simp
  qed
  then show ?thesis using rank_length [OF assms(5)] rank_sorted by blast
qed

lemma rank_sound_witness:
  "sorted (map rank_key (rank content_based_scorer (blank (UserId 7)) [sample_game] [(GameId 1, 5)] 10)) \<and>
   length (rank content_based_scorer (blank (UserId 7)) [sample_game] [(GameId 1, 5)] 10) \<le> 10"
  using rank_sound [of content_based_scorer "blank (UserId 7)" "[sample_game]" "[(GameId 1, 5)]" 10]
  by (simp add: wf_sample_game)


definition sample_game2 :: game_profile where
  "sample_game2 = sample_game\<lparr>game_id := GameId 2\<rparr>"

lemma sample_games [simp]:
  "game_id sample_game = GameId 1" "game_id sample_game2 = GameId 2"
  "purchase_count sample_game = 0" "purchase_count sample_game2 = 0" "sample_game \<noteq> sample_game2"
proof -
  show ids: "game_id sample_game = GameId 1" "game_id sample_game2 = GameId 2"
    by (simp_all add: sample_game_def sample_game2_def blank_game_def)
  then show "sample_game \<noteq> sample_game2" by auto
qed (simp_all add: sample_game_def sample_game2_def blank_game_def)

lemma collaborative_sample: "collaborative_scores [(GameId 1, 5), (GameId 2, 1)] = [(GameId 1, 1 / 2), (GameId 2, 1 / 6)]"
  by (simp add: collaborative_scores_def PRIOR_def)

lemma score_sample:
  "score_candidate dense_content_scorer (blank (UserId 7)) [(GameId 1, 1 / 2), (GameId 2, 1 / 6)] sample_game =
     Some \<lparr>sg_game = sample_game, sg_content = 0, sg_collaborative = 1 / 2, sg_reasons = []\<rparr>"
  "score_candidate dense_content_scorer (blank (UserId 7)) [(GameId 1, 1 / 2), (GameId 2, 1 / 6)] sample_game2 =
     Some \<lparr>sg_game = sample_game2, sg_content = 0, sg_collaborative = 1 / 6, sg_reasons = []\<rparr>"
  by (simp_all add: score_candidate_def is_recommendable_def sample_game_def sample_game2_def blank_game_def owns_def
      blank_def dense_content_scorer_def dense_cosine_def dense_magnitude_def dget_def blend_def
      CONTENT_WEIGHT_def COLLABORATIVE_WEIGHT_def Let_def)


text \<open>Shrinkage. The collaborative score of a game lies in \<open>[0, 1)\<close>, is zero when nobody bought it
  together with the user's games, and grows with the number of users who did.\<close>

lemma collaborative_shrinkage:
  assumes "dict_ok co"
  shows "0 \<le> dget (collaborative_scores co) g 0 \<and> dget (collaborative_scores co) g 0 < 1 \<and>
    (dget (collaborative_scores co) g 0 = 0 \<longleftrightarrow> dget co g 0 \<le> 0) \<and>
    (0 \<le> dget co g 0 \<and> dget co g 0 < dget co h 0 \<longrightarrow>
       dget (collaborative_scores co) g 0 < dget (collaborative_scores co) h 0)"
proof -
  have val: "dget (collaborative_scores co) x 0 =
      (if 0 < dget co x 0 then of_int (dget co x 0) / (of_int (dget co x 0) + PRIOR) else 0)" for x
    unfolding map_of_collaborative [OF assms] by (auto simp: dget_def split: option.split)
  show ?thesis
    using collaborative_range [OF assms, of g] shrinkage_mono [of "dget co g 0" "dget co h 0"]
    by (auto simp: val PRIOR_def)
qed

lemma collaborative_shrinkage_witness:
  "dget (collaborative_scores [(GameId 2, 1), (GameId 1, 5)]) (GameId 2) 0 <
     dget (collaborative_scores [(GameId 2, 1), (GameId 1, 5)]) (GameId 1) 0"
  using collaborative_shrinkage [of "[(GameId 2, 1), (GameId 1, 5)]" "GameId 2" "GameId 1"]
  by (simp add: dget_def)

end
