(* ===== verification/Delivery.thy ===== *)
theory Delivery
  imports Ingest Laws
begin

text \<open>
  What holds of the store under any sequence of event deliveries: the invariants every handler
  keeps, the only failure a handler can have, and the effect of redelivery and of the order of
  delivery. The lemmas are about \<open>effect\<close>; the properties carry them to the handlers running
  on the in-memory backend, through the interpretation of \<open>unit_of_work\<close>.
\<close>

section \<open>Invariants of the effect\<close>

text \<open>All dense vectors of the store have one width, as one embedder writes them.\<close>

definition one_width :: "nat \<Rightarrow> world \<Rightarrow> bool" where
  "one_width n w \<longleftrightarrow> (\<forall>gm \<in> ran (w_games w). at_width n (dense gm)) \<and>
     (\<forall>p \<in> ran (w_prefs w). at_width n (taste_dense p))"

text \<open>A user's ownership of a game is counted exactly when the profile owns the game.\<close>

definition credited :: "world \<Rightarrow> bool" where
  "credited w \<longleftrightarrow> (\<forall>g u. w_owners w g u = Some True \<longleftrightarrow> owns (pref_of w u) g)"

lemma pref_of_wf: "wf_world w \<Longrightarrow> wf_pref (pref_of w u) \<and> pref_user_id (pref_of w u) = u"
  by (auto simp: pref_of_def wf_world_def split: option.split)

lemma pref_of_width: "one_width n w \<Longrightarrow> at_width n (taste_dense (pref_of w u))"
  by (auto simp: pref_of_def one_width_def blank_def ran_def split: option.split)

lemma one_width_game: "one_width n w \<Longrightarrow> w_games w g = Some gm \<Longrightarrow> at_width n (dense gm)"
  by (auto simp: one_width_def ran_def)

lemma pref_of_put [simp]:
  "pref_of (put_pref p w) u = (if u = pref_user_id p then p else pref_of w u)"
  "pref_of (put_game gm w) u = pref_of w u" "pref_of (put_owner v g c w) u = pref_of w u"
  "pref_of (put_mark e w) u = pref_of w u" "pref_of (count_owners g us w) u = pref_of w u"
  by (simp_all add: pref_of_def)

lemma wf_world_put [simp]:
  "wf_world (put_owner u g c w) = wf_world w" "wf_world (put_mark e w) = wf_world w"
  "wf_world (count_owners g us w) = wf_world w"
  by (simp_all add: wf_world_def)

lemma wf_put_game: "wf_world w \<Longrightarrow> wf_game gm \<Longrightarrow> wf_world (put_game gm w)"
  by (auto simp: wf_world_def)

lemma wf_put_pref: "wf_world w \<Longrightarrow> wf_pref p \<Longrightarrow> wf_world (put_pref p w)"
  by (auto simp: wf_world_def)

lemma width_put [simp]:
  "one_width n (put_owner u g c w) = one_width n w" "one_width n (put_mark e w) = one_width n w"
  "one_width n (count_owners g us w) = one_width n w"
  by (simp_all add: one_width_def)

lemma width_put_game: "one_width n w \<Longrightarrow> at_width n (dense gm) \<Longrightarrow> one_width n (put_game gm w)"
  by (auto simp: one_width_def ran_def)

lemma width_put_pref: "one_width n w \<Longrightarrow> at_width n (taste_dense p) \<Longrightarrow> one_width n (put_pref p w)"
  by (auto simp: one_width_def ran_def)

text \<open>One signal.\<close>

lemma signal_wf:
  assumes "wf_world w" "wf_game gm" "signal gm k tm u w = Inr w'"
  shows "wf_world w'"
  using assms observe_wf [of "pref_of w u" gm k tm] pref_of_wf [of w u]
  by (auto simp: signal_def res_simps wf_game_def intro: wf_put_pref)

lemma signal_pref:
  assumes "wf_world w" "signal gm k tm u w = Inr w'"
  shows "\<exists>p. observe (pref_of w u) gm k tm = Inr p \<and> pref_user_id p = u \<and> w' = put_pref p w"
  using assms pref_of_wf [of w u] by (auto simp: signal_def res_simps observe_Inr)

lemma signal_total:
  assumes "wf_world w" "one_width n w" "at_width n (dense gm)"
  shows "\<exists>w'. signal gm k tm u w = Inr w' \<and> one_width n w'"
  using observe_total [OF pref_of_width [OF assms(2), of u] assms(3), of k tm]
  by (auto simp: signal_def assms(2) width_put_pref)

lemma signal_keeps: "signal gm k tm u w = Inr w' \<Longrightarrow>
    w_games w' = w_games w \<and> w_owners w' = w_owners w \<and> w_processed w' = w_processed w"
  by (auto simp: signal_def res_simps)

lemma signal_all_keeps: "signal_all gm tm us w = Inr w' \<Longrightarrow>
    w_games w' = w_games w \<and> w_owners w' = w_owners w \<and> w_processed w' = w_processed w"
  by (induction us arbitrary: w) (auto simp: res_simps dest: signal_keeps)

lemma signal_all_wf:
  "wf_world w \<Longrightarrow> wf_game gm \<Longrightarrow> signal_all gm tm us w = Inr w' \<Longrightarrow> wf_world w'"
  by (induction us arbitrary: w) (auto simp: res_simps dest: signal_wf)

lemma signal_all_total:
  assumes "wf_world w" "one_width n w" "wf_game gm" "at_width n (dense gm)"
  shows "\<exists>w'. signal_all gm tm us w = Inr w' \<and> one_width n w'"
  using assms(1,2)
proof (induction us arbitrary: w)
  case Nil
  then show ?case by simp
next
  case (Cons u us)
  obtain w' where "signal gm PURCHASE tm u w = Inr w'" "one_width n w'"
    using signal_total [OF Cons.prems assms(4), of PURCHASE tm u] by blast
  moreover have "wf_world w'" using signal_wf [OF Cons.prems(1) assms(3)] calculation by blast
  ultimately show ?case using Cons.IH by simp
qed

text \<open>Crediting a list of distinct owners touches each of them once, and nobody else.\<close>

lemma signal_all_pref:
  assumes "wf_world w" "wf_game gm" "distinct us" "signal_all gm tm us w = Inr w'"
  shows "if u \<in> set us then observe (pref_of w u) gm PURCHASE tm = Inr (pref_of w' u)
    else pref_of w' u = pref_of w u"
  using assms(1,3,4)
proof (induction us arbitrary: w)
  case Nil
  then show ?case by simp
next
  case (Cons v us)
  obtain w1 where w1: "signal gm PURCHASE tm v w = Inr w1" "signal_all gm tm us w1 = Inr w'"
    using Cons.prems(3) by (auto simp: res_simps)
  obtain p where p: "observe (pref_of w v) gm PURCHASE tm = Inr p" "pref_user_id p = v" "w1 = put_pref p w"
    using signal_pref [OF Cons.prems(1) w1(1)] by blast
  have "wf_world w1" by (rule signal_wf [OF Cons.prems(1) assms(2) w1(1)])
  from Cons.IH [OF this _ w1(2)] Cons.prems(2) p show ?case by (auto split: if_splits)
qed

section \<open>Every command keeps the invariants\<close>

definition new_description ::
  "world \<Rightarrow> game_id \<Rightarrow> user_id \<Rightarrow> string \<Rightarrow> string list \<Rightarrow> string list \<Rightarrow> datetime option \<Rightarrow> string \<Rightarrow> exn + game_profile" where
  "new_description w g dev t gs ts pa d =
     (case w_games w g of Some gm \<Rightarrow> redescribed gm t gs ts d | None \<Rightarrow> published g dev t gs ts pa d)"

lemma new_description_Inr:
  assumes "wf_world w" "new_description w g dev t gs ts pa d = Inr gm"
  shows "wf_game gm" "game_id gm = g" "dense gm = dense_empty" "describable t gs ts" "is_published gm"
    "purchase_count gm = (case w_games w g of None \<Rightarrow> 0 | Some old \<Rightarrow> purchase_count old)"
    "embedding gm = emb_of (label_features gs ts)"
proof -
  have "wf_game gm \<and> game_id gm = g \<and> dense gm = dense_empty \<and> describable t gs ts \<and> is_published gm \<and>
    purchase_count gm = (case w_games w g of None \<Rightarrow> 0 | Some old \<Rightarrow> purchase_count old) \<and>
    genres gm = gs \<and> tags gm = ts"
  proof (cases "w_games w g")
    case None
    with assms(2) published_Inr [of g dev t gs ts pa d gm] show ?thesis by (simp add: new_description_def)
  next
    case (Some old)
    have "0 \<le> purchase_count old" "game_id old = g"
      using wf_worldD(1) [OF assms(1) Some] by (simp_all add: wf_game_def)
    with Some assms(2) redescribed_Inr [of old t gs ts d gm] show ?thesis by (simp add: new_description_def)
  qed
  then show "wf_game gm" "game_id gm = g" "dense gm = dense_empty" "describable t gs ts" "is_published gm"
    "purchase_count gm = (case w_games w g of None \<Rightarrow> 0 | Some old \<Rightarrow> purchase_count old)"
    "embedding gm = emb_of (label_features gs ts)"
    by (auto simp: wf_game_def)
qed

lemma new_description_Inl:
  assumes "wf_world w" "new_description w g dev t gs ts pa d = Inl x"
  shows "\<not> describable t gs ts \<and> (\<exists>m. x = InvariantViolation m)"
proof -
  have gen: "\<not> describable t gs ts \<and> (\<exists>m. x = InvariantViolation m)"
    if "redescribed old t gs ts d = Inl x" "0 \<le> purchase_count old" for old
    using redescribed_ok [OF that(2), of t gs ts d] redescribed_fails [OF that(2), of t gs ts d] that(1)
    by (cases "describable t gs ts") auto
  show ?thesis
  proof (cases "w_games w g")
    case None
    then show ?thesis using assms(2) gen [of "blank_game g dev pa"]
      by (simp add: new_description_def published_redescribed blank_game_def)
  next
    case (Some old)
    then show ?thesis using assms gen [of old] wf_worldD(1) [OF assms(1) Some]
      by (simp add: new_description_def wf_game_def)
  qed
qed

lemma news_published:
  "news now us (GamePublished e g dev t gs ts pa d) w = bindE (new_description w g dev t gs ts pa d) (\<lambda>gm.
     bindE (signal_all gm now us (put_game gm w)) (\<lambda>w. Inr (count_owners g us w)))"
  by (simp add: new_description_def)

lemma news_wf:
  assumes "wf_world w" "news now us c w = Inr w'"
  shows "wf_world w'"
proof (cases c)
  case (GamePublished e g dev t gs ts pa d)
  from assms(2) obtain gm w1 where gm: "new_description w g dev t gs ts pa d = Inr gm"
    and w1: "signal_all gm now us (put_game gm w) = Inr w1" "w' = count_owners g us w1"
    unfolding GamePublished news_published by (auto simp: res_simps)
  note d = new_description_Inr [OF assms(1) gm]
  show ?thesis using signal_all_wf [OF wf_put_game [OF assms(1) d(1)] d(1) w1(1)] w1(2) by simp
next
  case (GameWithdrawn e g)
  then show ?thesis using assms wf_worldD(1) [OF assms(1), of g]
    by (cases "w_games w g") (auto simp: withdrawn_wf intro: wf_put_game)
next
  case (PurchaseCompleted e u g occ)
  show ?thesis
  proof (cases "w_games w g")
    case (Some gm)
    have gm: "wf_game gm" using wf_worldD(1) [OF assms(1) Some] by simp
    obtain w1 where "signal gm PURCHASE (moment occ now) u w = Inr w1"
      "w' = put_game (gm\<lparr>purchase_count := purchase_count gm + 1\<rparr>) (put_owner u g True w1)"
      using assms(2) Some by (auto simp: PurchaseCompleted res_simps bought_wf [OF gm])
    then show ?thesis using signal_wf [OF assms(1) gm] wf_game_bought [OF gm] by (simp add: wf_put_game)
  qed (use assms PurchaseCompleted in auto)
next
  case (ReviewPosted e u g liked occ)
  then show ?thesis using assms wf_worldD(1) [OF assms(1), of g]
    by (cases "w_games w g") (auto intro: signal_wf)
qed

text \<open>With one width, only a description that does not fit can make a handler raise.\<close>

lemma news_total:
  assumes "wf_world w" "one_width n w"
  shows "case news now us c w of
      Inl x \<Rightarrow> (\<exists>m. x = InvariantViolation m) \<and>
        (\<exists>e g dev t gs ts pa d. c = GamePublished e g dev t gs ts pa d \<and> \<not> describable t gs ts)
    | Inr w' \<Rightarrow> one_width n w'"
proof (cases c)
  case (GamePublished e g dev t gs ts pa d)
  show ?thesis
  proof (cases "new_description w g dev t gs ts pa d")
    case (Inl x)
    then show ?thesis using new_description_Inl [OF assms(1) Inl] GamePublished
      by (simp add: news_published del: news.simps)
  next
    case (Inr gm)
    note d = new_description_Inr [OF assms(1) Inr]
    have "wf_world (put_game gm w)" "one_width n (put_game gm w)" "at_width n (dense gm)"
      using assms d by (auto intro: wf_put_game width_put_game)
    from signal_all_total [OF this(1,2) d(1) this(3), of now us] show ?thesis
      using GamePublished Inr by (auto simp: news_published simp del: news.simps)
  qed
next
  case (GameWithdrawn e g)
  then show ?thesis using assms wf_worldD(1) [OF assms(1), of g] one_width_game [OF assms(2), of g]
    by (cases "w_games w g") (auto simp: withdrawn_wf intro!: width_put_game)
next
  case (PurchaseCompleted e u g occ)
  show ?thesis
  proof (cases "w_games w g")
    case (Some gm)
    note gm = wf_worldD(1) [OF assms(1) Some] one_width_game [OF assms(2) Some]
    from signal_total [OF assms gm(2), of PURCHASE "moment occ now" u] show ?thesis
      using gm Some PurchaseCompleted by (auto simp: bought_wf intro!: width_put_game)
  qed (simp add: PurchaseCompleted assms)
next
  case (ReviewPosted e u g liked occ)
  show ?thesis
  proof (cases "w_games w g")
    case (Some gm)
    from signal_total [OF assms one_width_game [OF assms(2) Some]] show ?thesis
      using Some ReviewPosted by (auto split: sum.split) (metis Inl_Inr_False sum.inject(2))+
  qed (simp add: ReviewPosted assms)
qed

text \<open>A signal decides the ownership of the profile it lands on.\<close>

lemma signal_owns:
  assumes "wf_world w" "signal gm k tm u w = Inr w'"
  shows "owns (pref_of w' v) h \<longleftrightarrow> owns (pref_of w v) h \<or> v = u \<and> k = PURCHASE \<and> h = game_id gm"
proof -
  obtain p where "observe (pref_of w u) gm k tm = Inr p" "pref_user_id p = u" "w' = put_pref p w"
    using signal_pref [OF assms] by blast
  then show ?thesis using observe_Inr(3) [of "pref_of w u" gm k tm p] by (auto simp: owns_def)
qed

lemma signal_all_owns:
  assumes "wf_world w" "wf_game gm" "signal_all gm tm us w = Inr w'"
  shows "owns (pref_of w' v) h \<longleftrightarrow> owns (pref_of w v) h \<or> v \<in> set us \<and> h = game_id gm"
  using assms(1,3)
proof (induction us arbitrary: w)
  case Nil
  then show ?case by simp
next
  case (Cons u us)
  then obtain w1 where w1: "signal gm PURCHASE tm u w = Inr w1" "signal_all gm tm us w1 = Inr w'"
    by (auto simp: res_simps)
  from Cons.IH [OF signal_wf [OF Cons.prems(1) assms(2) w1(1)] w1(2)] signal_owns [OF Cons.prems(1) w1(1)]
  show ?case by auto
qed

lemma news_credited:
  assumes "wf_world w" "credited w" "news now us c w = Inr w'"
  shows "credited w'"
proof (cases c)
  case (GamePublished e g dev t gs ts pa d)
  from assms(3) obtain gm w1 where gm: "new_description w g dev t gs ts pa d = Inr gm"
    and w1: "signal_all gm now us (put_game gm w) = Inr w1" "w' = count_owners g us w1"
    unfolding GamePublished news_published by (auto simp: res_simps)
  note d = new_description_Inr [OF assms(1) gm]
  have "owns (pref_of w1 v) h \<longleftrightarrow> owns (pref_of w v) h \<or> v \<in> set us \<and> h = g" for v h
    using signal_all_owns [OF wf_put_game [OF assms(1) d(1)] d(1) w1(1)] d(2) by simp
  then show ?thesis using assms(2) signal_all_keeps [OF w1(1)] w1(2) by (auto simp: credited_def)
next
  case (GameWithdrawn e g)
  with assms show ?thesis by (auto simp: credited_def res_simps split: option.splits)
next
  case (PurchaseCompleted e u g occ)
  show ?thesis
  proof (cases "w_games w g")
    case None
    with PurchaseCompleted assms show ?thesis by (auto simp: credited_def raise_owner_def split: if_splits)
  next
    case (Some gm)
    with assms PurchaseCompleted obtain w1 gm' where
      w1: "signal gm PURCHASE (moment occ now) u w = Inr w1" "w' = put_game gm' (put_owner u g True w1)"
      by (auto simp: res_simps)
    then show ?thesis
      using signal_owns [OF assms(1) w1(1)] signal_keeps [OF w1(1)] assms(2) wf_worldD(1) [OF assms(1) Some]
      by (auto simp: credited_def raise_owner_def)
  qed
next
  case (ReviewPosted e u g liked occ)
  show ?thesis
  proof (cases "w_games w g")
    case None
    with ReviewPosted assms show ?thesis by simp
  next
    case (Some gm)
    with assms ReviewPosted have s: "signal gm (if liked then REVIEW_LIKE else REVIEW_DISLIKE) (moment occ now) u w = Inr w'"
      by simp
    then show ?thesis using signal_owns [OF assms(1) s] signal_keeps [OF s] assms(2)
      by (auto simp: credited_def split: if_splits)
  qed
qed

text \<open>No command lowers the flag of an ownership or forgets a game, an owner or an event.\<close>

lemma raise_owner_mono:
  "m g u = Some True \<Longrightarrow> raise_owner m v h c g u = Some True"
  "m g u \<noteq> None \<Longrightarrow> raise_owner m v h c g u \<noteq> None"
  by (auto simp: raise_owner_def)

lemma news_monotone:
  assumes "news now us c w = Inr w'"
  shows "(w_owners w g u = Some True \<longrightarrow> w_owners w' g u = Some True) \<and>
    (w_owners w g u \<noteq> None \<longrightarrow> w_owners w' g u \<noteq> None) \<and>
    (w_games w g \<noteq> None \<longrightarrow> w_games w' g \<noteq> None) \<and> w_processed w' = w_processed w"
proof (cases c)
  case (GamePublished e h dev t gs ts pa d)
  from assms obtain gm w1 where s: "signal_all gm now us (put_game gm w) = Inr w1" "w' = count_owners h us w1"
    unfolding GamePublished news_published by (auto simp: res_simps)
  show ?thesis using signal_all_keeps [OF s(1)] s(2) by (simp add: ex_bool_eq)
next
  case (GameWithdrawn e h)
  with assms show ?thesis by (cases "w_games w h") (auto simp: res_simps)
next
  case (PurchaseCompleted e v h occ)
  show ?thesis
  proof (cases "w_games w h")
    case (Some gm)
    with assms PurchaseCompleted obtain w1 gm' where
      s: "signal gm PURCHASE (moment occ now) v w = Inr w1" "w' = put_game gm' (put_owner v h True w1)"
      by (auto simp: res_simps)
    show ?thesis
      using signal_keeps [OF s(1)] s(2) raise_owner_mono [of "w_owners w" g u v h True] by simp
  next
    case None
    then show ?thesis
      using assms PurchaseCompleted raise_owner_mono [of "w_owners w" g u v h False] by auto
  qed
next
  case (ReviewPosted e v h liked occ)
  with assms show ?thesis by (cases "w_games w h") (auto dest: signal_keeps)
qed

section \<open>Sequences of deliveries\<close>

text \<open>
  A delivery is a command with the time and correlation id it is handled under. A broker may
  deliver in any order and more than once; a handler that raises has no effect and the next
  delivery is handled.
\<close>

type_synonym delivery = "datetime \<times> string option \<times> ingest_command"

abbreviation delivered :: "delivery \<Rightarrow> ingest_command" where
  "delivered x \<equiv> snd (snd x)"

fun deliver_all :: "('db, 's) uow_ops \<Rightarrow> int \<Rightarrow> delivery list \<Rightarrow> 'db \<Rightarrow> 'db" where
  "deliver_all ops limit [] db = db"
| "deliver_all ops limit ((now, cid, c) # ds) db =
     deliver_all ops limit ds (snd (ingest ops now limit cid c db))"

definition store_sound :: "nat \<Rightarrow> world \<Rightarrow> bool" where
  "store_sound n w \<longleftrightarrow> wf_world w \<and> one_width n w \<and> credited w"

definition is_undescribable :: "ingest_command \<Rightarrow> bool" where
  "is_undescribable c \<longleftrightarrow> (case c of GamePublished e g dev t gs ts pa d \<Rightarrow> \<not> describable t gs ts | _ \<Rightarrow> False)"

lemma effect_sound:
  assumes "store_sound n w"
  shows "case effect now us c w of
      Inl x \<Rightarrow> (\<exists>m. x = InvariantViolation m) \<and> is_undescribable c
    | Inr w' \<Rightarrow> store_sound n w' \<and> w_processed w' = insert (cmd_event c) (w_processed w)"
proof (cases "cmd_event c \<in> w_processed w")
  case True
  with assms show ?thesis by (simp add: effect_def insert_absorb)
next
  case False
  have s: "wf_world w" "one_width n w" "credited w" using assms by (auto simp: store_sound_def)
  show ?thesis
  proof (cases "news now us c w")
    case (Inl x)
    with news_total [OF s(1,2), where now = now and us = us and c = c] False show ?thesis
      by (auto simp: effect_def is_undescribable_def)
  next
    case (Inr w')
    with news_total [OF s(1,2), where now = now and us = us and c = c] False news_wf [OF s(1) Inr] news_credited [OF s(1,3) Inr]
      news_monotone [OF Inr]
    show ?thesis by (auto simp: effect_def store_sound_def credited_def)
  qed
qed

text \<open>\<open>PurchaseCompleted\<close> raises the popularity of its game by one, nothing else changes it.\<close>

definition buys :: "game_id \<Rightarrow> ingest_command \<Rightarrow> bool" where
  "buys g c \<longleftrightarrow> (case c of PurchaseCompleted e u h occ \<Rightarrow> h = g | _ \<Rightarrow> False)"

lemma news_popularity:
  assumes "wf_world w" "news now us c w = Inr w'" "w_games w g = Some gm"
  shows "\<exists>gm'. w_games w' g = Some gm' \<and> purchase_count gm' = purchase_count gm + (if buys g c then 1 else 0)"
proof (cases c)
  case (GamePublished e h dev t gs ts pa d)
  from assms(2) obtain gm' w1 where s: "new_description w h dev t gs ts pa d = Inr gm'"
    "signal_all gm' now us (put_game gm' w) = Inr w1" "w' = count_owners h us w1"
    unfolding GamePublished news_published by (auto simp: res_simps)
  from signal_all_keeps [OF s(2)] s(3) new_description_Inr(2,6) [OF assms(1) s(1)] assms(3)
  show ?thesis by (auto simp: GamePublished buys_def)
next
  case (GameWithdrawn e h)
  with assms wf_worldD(1) [OF assms(1), of h] show ?thesis
    by (cases "w_games w h") (auto simp: withdrawn_wf buys_def)
next
  case (PurchaseCompleted e u h occ)
  show ?thesis
  proof (cases "w_games w h")
    case None
    with PurchaseCompleted assms show ?thesis by (auto simp: buys_def)
  next
    case (Some old)
    note old = wf_worldD(1) [OF assms(1) Some]
    obtain w1 where s: "signal old PURCHASE (moment occ now) u w = Inr w1"
      "w' = put_game (old\<lparr>purchase_count := purchase_count old + 1\<rparr>) (put_owner u h True w1)"
      using assms(2) Some old by (auto simp: PurchaseCompleted res_simps bought_wf)
    from signal_keeps [OF s(1)] s(2) old Some assms(3) show ?thesis
      by (auto simp: PurchaseCompleted buys_def)
  qed
next
  case (ReviewPosted e u h liked occ)
  with assms show ?thesis by (cases "w_games w h") (auto simp: buys_def dest: signal_keeps)
qed

text \<open>One event id stands for one event.\<close>

definition coherent :: "ingest_command list \<Rightarrow> bool" where
  "coherent cs \<longleftrightarrow> inj_on cmd_event (set cs)"

definition new_purchases :: "game_id \<Rightarrow> ingest_command list \<Rightarrow> uuid set \<Rightarrow> uuid set" where
  "new_purchases g cs processed = cmd_event ` {c \<in> set cs. buys g c} - processed"

lemma finite_new_purchases [simp]: "finite (new_purchases g cs processed)"
  by (simp add: new_purchases_def)

context unit_of_work
begin

lemma ingest_cases:
  assumes "db_ok db"
  obtains (raised) x us where "ingest ops now limit cid c db = (Inl x, db)"
      "effect now (py_take limit us) c (db_view db) = Inl x"
  | (handled) db' us where "ingest ops now limit cid c db = (Inr (), db')" "db_ok db'"
      "effect now (py_take limit us) c (db_view db) = Inr (db_view db')"
      "cmd_event c \<in> w_processed (db_view db) \<Longrightarrow> db' = db"
      "distinct us" "set us = uncounted_in (db_view db) (cmd_game c)"
proof -
  obtain us where us: "distinct us" "set us = uncounted_in (db_view db) (cmd_game c)"
    "case effect now (py_take limit us) c (db_view db) of
       Inl x \<Rightarrow> ingest ops now limit cid c db = (Inl x, db)
     | Inr w \<Rightarrow> \<exists>db'. ingest ops now limit cid c db = (Inr (), db') \<and> db_ok db' \<and> db_view db' = w \<and>
         (cmd_event c \<in> w_processed (db_view db) \<longrightarrow> db' = db)"
    using handle_refines [OF assms, of c now limit cid] by blast
  show thesis
  proof (cases "effect now (py_take limit us) c (db_view db)")
    case (Inl x)
    with us raised show thesis by simp
  next
    case (Inr w)
    with us handled show thesis by auto
  qed
qed

lemma ingest_sound:
  assumes "db_ok db" "store_sound n (db_view db)"
  shows "db_ok (snd (ingest ops now limit cid c db)) \<and>
    store_sound n (db_view (snd (ingest ops now limit cid c db)))"
  by (rule ingest_cases [OF assms(1), where now = now and limit = limit and cid = cid and c = c])
     (use effect_sound [OF assms(2), where now = now and c = c] assms in \<open>fastforce split: sum.splits\<close>)+

lemma deliver_all_sound:
  assumes "db_ok db" "store_sound n (db_view db)"
  shows "db_ok (deliver_all ops limit ds db) \<and> store_sound n (db_view (deliver_all ops limit ds db))"
  using assms
proof (induction ds arbitrary: db)
  case Nil
  then show ?case by simp
next
  case (Cons x ds)
  obtain now cid c where x: "x = (now, cid, c)" by (cases x)
  show ?case unfolding x using ingest_sound [OF Cons.prems, of now limit cid c] Cons.IH by simp
qed

lemma handled_marked:
  assumes "db_ok db" "ingest ops now limit cid c db = (Inr (), db')"
  shows "db_ok db' \<and> cmd_event c \<in> w_processed (db_view db')"
proof (rule ingest_cases [OF assms(1), where now = now and limit = limit and cid = cid and c = c])
  fix x us assume "ingest ops now limit cid c db = (Inl x, db)"
  with assms(2) show ?thesis by simp
next
  fix d us
  assume d: "ingest ops now limit cid c db = (Inr (), d)" "db_ok d"
    "effect now (py_take limit us) c (db_view db) = Inr (db_view d)"
  have "d = db'" using d(1) assms(2) by simp
  with d show ?thesis
    by (auto simp: effect_def res_simps dest!: sym [of _ "db_view db'"] split: if_splits)
qed

lemma marked_noop:
  assumes "db_ok db" "cmd_event c \<in> w_processed (db_view db)"
  shows "ingest ops now limit cid c db = (Inr (), db)"
  by (rule ingest_cases [OF assms(1), where now = now and limit = limit and cid = cid and c = c])
     (use assms(2) in \<open>simp_all add: effect_def\<close>)

lemma ingest_popularity:
  fixes now limit cid c
  assumes "db_ok db" "store_sound n (db_view db)" "w_games (db_view db) g = Some gm"
  defines "db' \<equiv> snd (ingest ops now limit cid c db)"
  shows "\<exists>gm'. w_games (db_view db') g = Some gm' \<and> purchase_count gm' = purchase_count gm +
      (if buys g c \<and> cmd_event c \<notin> w_processed (db_view db) then 1 else 0)"
    and "w_processed (db_view db') = (if is_undescribable c then w_processed (db_view db')
      else insert (cmd_event c) (w_processed (db_view db)))"
    and "w_processed (db_view db') \<in> {w_processed (db_view db), insert (cmd_event c) (w_processed (db_view db))}"
proof -
  have wf: "wf_world (db_view db)" using assms(2) by (simp add: store_sound_def)
  have "(\<exists>gm'. w_games (db_view db') g = Some gm' \<and> purchase_count gm' = purchase_count gm +
      (if buys g c \<and> cmd_event c \<notin> w_processed (db_view db) then 1 else 0)) \<and>
    (w_processed (db_view db') = insert (cmd_event c) (w_processed (db_view db)) \<or>
      is_undescribable c \<and> db' = db)"
  proof (rule ingest_cases [OF assms(1), where now = now and limit = limit and cid = cid and c = c])
    fix x us
    assume r: "ingest ops now limit cid c db = (Inl x, db)" "effect now (py_take limit us) c (db_view db) = Inl x"
    then have "is_undescribable c"
      using effect_sound [OF assms(2), where now = now and c = c and us = "py_take limit us"] by simp
    moreover from this have "\<not> buys g c" by (cases c) (simp_all add: is_undescribable_def buys_def)
    ultimately show ?thesis using r assms(3) by (simp add: db'_def)
  next
    fix d us
    assume d: "ingest ops now limit cid c db = (Inr (), d)"
      "effect now (py_take limit us) c (db_view db) = Inr (db_view d)"
      "cmd_event c \<in> w_processed (db_view db) \<Longrightarrow> d = db"
    show ?thesis
    proof (cases "cmd_event c \<in> w_processed (db_view db)")
      case True
      then show ?thesis using d assms(3) by (simp add: db'_def insert_absorb)
    next
      case False
      then obtain w' where w': "news now (py_take limit us) c (db_view db) = Inr w'"
        "db_view d = put_mark (cmd_event c) w'"
        using d(2) by (auto simp: effect_def res_simps)
      from news_popularity [OF wf w'(1) assms(3)] news_monotone [OF w'(1)] False w'(2) d(1)
      show ?thesis by (simp add: db'_def)
    qed
  qed
  then show "\<exists>gm'. w_games (db_view db') g = Some gm' \<and> purchase_count gm' = purchase_count gm +
      (if buys g c \<and> cmd_event c \<notin> w_processed (db_view db) then 1 else 0)"
    and "w_processed (db_view db') = (if is_undescribable c then w_processed (db_view db')
      else insert (cmd_event c) (w_processed (db_view db)))"
    and "w_processed (db_view db') \<in> {w_processed (db_view db), insert (cmd_event c) (w_processed (db_view db))}"
    by auto
qed

lemma deliver_all_popularity:
  assumes "db_ok db" "store_sound n (db_view db)" "w_games (db_view db) g = Some gm"
    and "coherent (map delivered ds)"
  shows "\<exists>gm'. w_games (db_view (deliver_all ops limit ds db)) g = Some gm' \<and>
    purchase_count gm' = purchase_count gm +
      int (card (new_purchases g (map delivered ds) (w_processed (db_view db))))"
  using assms
proof (induction ds arbitrary: db gm)
  case Nil
  then show ?case by (simp add: new_purchases_def)
next
  case (Cons x ds)
  obtain now cid c where x: "x = (now, cid, c)" by (cases x)
  let ?db = "snd (ingest ops now limit cid c db)"
  let ?P = "w_processed (db_view db)" and ?cs = "map delivered ds"
  note step = ingest_popularity [OF Cons.prems(1-3), of now limit cid c]
  note sound = ingest_sound [OF Cons.prems(1,2), of now limit cid c]
  obtain gm' where gm': "w_games (db_view ?db) g = Some gm'"
    "purchase_count gm' = purchase_count gm + (if buys g c \<and> cmd_event c \<notin> ?P then 1 else 0)"
    using step(1) by blast
  have coh: "coherent ?cs" "inj_on cmd_event (insert c (set ?cs))"
    using Cons.prems(4) by (auto simp: coherent_def x intro: inj_on_subset)
  have same: "d = c" if "d \<in> set ?cs" "cmd_event d = cmd_event c" for d
    using inj_onD [OF coh(2) that(2)] that(1) by auto
  obtain gm'' where gm'': "w_games (db_view (deliver_all ops limit ds ?db)) g = Some gm''"
    "purchase_count gm'' = purchase_count gm' + int (card (new_purchases g ?cs (w_processed (db_view ?db))))"
    using Cons.IH [OF _ _ gm'(1) coh(1)] sound by blast
  have "int (card (new_purchases g (c # ?cs) ?P)) =
      (if buys g c \<and> cmd_event c \<notin> ?P then 1 else 0) + int (card (new_purchases g ?cs (w_processed (db_view ?db))))"
  proof (cases "buys g c \<and> cmd_event c \<notin> ?P")
    case True
    then have "w_processed (db_view ?db) = insert (cmd_event c) ?P"
      using step(2) by (cases c) (simp_all add: is_undescribable_def buys_def)
    moreover have "new_purchases g (c # ?cs) ?P =
        insert (cmd_event c) (new_purchases g ?cs (insert (cmd_event c) ?P))"
      using True by (auto simp: new_purchases_def)
    moreover have "cmd_event c \<notin> new_purchases g ?cs (insert (cmd_event c) ?P)"
      by (simp add: new_purchases_def)
    ultimately show ?thesis using True by simp
  next
    case False
    have "new_purchases g (c # ?cs) ?P = new_purchases g ?cs (w_processed (db_view ?db))"
      using False step(3) same by (auto simp: new_purchases_def)
    with False show ?thesis by simp
  qed
  with gm' gm'' show ?case by (auto simp: x)
qed

end

section \<open>The handlers on the in-memory backend\<close>

lemma store_sound_empty: "store_sound n (store_view empty_store)"
  by (simp add: store_sound_def store_view_def empty_store_def wf_world_def one_width_def credited_def
      owner_flag_def dget_def pref_of_def blank_def owns_def)

text \<open>Concrete stores for the witnesses: one that knows a game, one where a purchase came first.\<close>

definition sample_store :: memory_store where
  "sample_store = empty_store\<lparr>ms_games := [(GameId 1, sample_game)]\<rparr>"

definition sample_waiting :: memory_store where
  "sample_waiting = empty_store\<lparr>ms_ownerships := [(GameId 1, [(UserId 7, False)])]\<rparr>"

lemma sample_stores_ok [simp]: "store_ok sample_store" "store_ok sample_waiting"
  by (simp_all add: sample_store_def sample_waiting_def store_ok_def empty_store_def keyed_def owners_ok_def)

lemma sample_store_sound [simp]: "store_sound 0 (store_view sample_store)"
  using wf_sample_game
  by (simp add: store_sound_def store_view_def sample_store_def empty_store_def wf_world_def one_width_def
      credited_def owner_flag_def dget_def pref_of_def blank_def owns_def)
     (simp add: sample_game_def blank_game_def)

lemma sample_waiting_sound [simp]: "store_sound 0 (store_view sample_waiting)"
  by (simp add: store_sound_def store_view_def sample_waiting_def empty_store_def wf_world_def one_width_def
      credited_def owner_flag_def dget_def pref_of_def blank_def owns_def)

lemma sample_views:
  "w_games (store_view sample_store) (GameId 1) = Some sample_game"
  "pref_of (store_view sample_store) u = blank u"
  "ms_processed_events sample_store = {}" "ms_processed_events sample_waiting = {}"
  "uncounted_in (store_view sample_waiting) (GameId 1) = {UserId 7}"
  "w_games (store_view empty_store) g = None" "w_owners (store_view empty_store) g u = None"
  "ms_processed_events empty_store = {}" "pref_of (store_view empty_store) u = blank u"
  "w_processed (store_view empty_store) = {}"
  by (auto simp: store_view_def sample_store_def sample_waiting_def empty_store_def pref_of_def uncounted_in_def
      owner_flag_def dget_def split: if_splits)

text \<open>C5: refinement. On every store the backend accepts, a handler does what \<open>effect\<close> says of the
  store's world: an exception leaves the store as it was, success leaves the world of the specification,
  and an event already handled leaves the store as it was. \<open>us\<close> lists the uncounted owners.\<close>

theorem handlers_implement_effect:
  assumes "store_ok st"
  shows "\<exists>us. distinct us \<and> set us = uncounted_in (store_view st) (cmd_game c) \<and>
    (case effect now (py_take limit us) c (store_view st) of
       Inl x \<Rightarrow> ingest (memory_ops iu ig topic) now limit cid c st = (Inl x, st)
     | Inr w \<Rightarrow> \<exists>st'. ingest (memory_ops iu ig topic) now limit cid c st = (Inr (), st') \<and> store_ok st' \<and>
         store_view st' = w \<and> (cmd_event c \<in> w_processed (store_view st) \<longrightarrow> st' = st))"
  using assms by (rule mem.handle_refines)

lemma handlers_implement_effect_witness:
  "\<exists>st'. ingest (memory_ops ascending ascending ''reco'') (utc 0) 500 None (GameWithdrawn 1 (GameId 9)) empty_store =
     (Inr (), st') \<and> store_view st' = put_mark 1 (store_view empty_store)"
  using handlers_implement_effect [OF store_ok_empty, where iu = ascending and ig = ascending and
      topic = "''reco''" and now = "utc 0" and limit = 500 and cid = None and c = "GameWithdrawn 1 (GameId 9)"]
  by (auto simp: effect_def sample_views)

text \<open>C12: error paths and invariants. From a sound store a handler either succeeds, marks its event
  and leaves a sound store, or it is a publication whose title or labels do not fit, raises
  \<open>InvariantViolation\<close> and leaves the store untouched. No other event can fail.\<close>

theorem handler_outcomes:
  assumes "store_ok st" "store_sound n (store_view st)"
  shows "(\<exists>st'. ingest (memory_ops iu ig topic) now limit cid c st = (Inr (), st') \<and> store_ok st' \<and>
      store_sound n (store_view st') \<and> cmd_event c \<in> ms_processed_events st') \<or>
    (\<exists>m. ingest (memory_ops iu ig topic) now limit cid c st = (Inl (InvariantViolation m), st) \<and> is_undescribable c)"
  by (rule mem.ingest_cases [OF assms(1), where now = now and limit = limit and cid = cid and c = c])
     (use effect_sound [OF assms(2), where now = now and c = c] in
       \<open>fastforce split: sum.splits simp: store_view_def\<close>)+

lemma handler_outcomes_witness:
  "\<exists>st'. ingest (memory_ops ascending ascending ''reco'') (utc 0) 500 None
     (ReviewPosted 1 (UserId 7) (GameId 1) True None) sample_store = (Inr (), st') \<and> store_ok st' \<and>
     store_sound 0 (store_view st') \<and> 1 \<in> ms_processed_events st'"
  using handler_outcomes [OF sample_stores_ok(1) sample_store_sound,
      where iu = ascending and ig = ascending and topic = "''reco''" and now = "utc 0" and limit = 500 and cid = None and
        c = "ReviewPosted 1 (UserId 7) (GameId 1) True None"]
  by (simp add: is_undescribable_def)

text \<open>C4: idempotence. Once an event has been handled, delivering it again, at any time and on any
  replica, succeeds and changes nothing.\<close>

theorem redelivery_is_noop:
  assumes "store_ok st" "ingest (memory_ops iu ig topic) now limit cid c st = (Inr (), st')"
  shows "ingest (memory_ops iu' ig' topic') now' limit' cid' c st' = (Inr (), st')"
proof -
  from mem.handled_marked [OF assms] have "store_ok st'" "cmd_event c \<in> w_processed (store_view st')" by auto
  then show ?thesis by (rule mem.marked_noop)
qed

lemma redelivery_is_noop_witness:
  "\<exists>st'. ingest (memory_ops ascending ascending ''reco'') (utc 0) 500 None (GameWithdrawn 1 (GameId 9)) empty_store =
     (Inr (), st') \<and>
   ingest (memory_ops ascending ascending ''reco'') (utc 5) 500 None (GameWithdrawn 1 (GameId 9)) st' = (Inr (), st')"
proof -
  obtain st' where "ingest (memory_ops ascending ascending ''reco'') (utc 0) 500 None (GameWithdrawn 1 (GameId 9))
      empty_store = (Inr (), st')"
    using mem.handle_refines [OF store_ok_empty, where iu = ascending and ig = ascending and
        topic = "''reco''" and now = "utc 0" and limit = 500 and cid = None and c = "GameWithdrawn 1 (GameId 9)"]
    by (auto simp: effect_def sample_views)
  then show ?thesis using redelivery_is_noop [OF store_ok_empty] by blast
qed

text \<open>C1: exactly-once counting. Whatever sequence of events is delivered, in any order and with any
  redeliveries, the purchase count of a game that was known rises by the number of distinct purchases of
  it that had not been handled before.\<close>

theorem purchases_counted_once:
  assumes "store_ok st" "store_sound n (store_view st)" "w_games (store_view st) g = Some gm"
    and "coherent (map delivered ds)"
  shows "\<exists>gm'. w_games (store_view (deliver_all (memory_ops iu ig topic) limit ds st)) g = Some gm' \<and>
    purchase_count gm' = purchase_count gm +
      int (card (new_purchases g (map delivered ds) (ms_processed_events st)))"
  using mem.deliver_all_popularity [OF assms] by (simp add: store_view_def)

lemma purchases_counted_once_witness:
  "\<exists>gm. w_games (store_view (deliver_all (memory_ops ascending ascending ''reco'') 500
     [(utc 0, None, PurchaseCompleted 10 (UserId 7) (GameId 1) None),
      (utc 1, None, PurchaseCompleted 10 (UserId 7) (GameId 1) None)] sample_store)) (GameId 1) = Some gm \<and>
     purchase_count gm = 1"
  using purchases_counted_once [OF sample_stores_ok(1) sample_store_sound sample_views(1),
      where iu = ascending and ig = ascending and topic = "''reco''" and limit = 500 and
        ds = "[(utc 0, None, PurchaseCompleted 10 (UserId 7) (GameId 1) None),
          (utc 1, None, PurchaseCompleted 10 (UserId 7) (GameId 1) None)]"]
  by (simp add: coherent_def new_purchases_def buys_def sample_views conj_disj_distribR Collect_disj_eq
      cong: conj_cong)

lemma fold_new_description:
  "(case w_games w g of Some gm \<Rightarrow> redescribed gm t gs ts d | None \<Rightarrow> published g dev t gs ts pa d) =
     new_description w g dev t gs ts pa d"
  by (simp add: new_description_def)

lemma new_description_total:
  assumes "wf_world w" "describable t gs ts"
  shows "\<exists>gm. new_description w g dev t gs ts pa d = Inr gm"
  using new_description_Inl [OF assms(1), of g dev t gs ts pa d] assms(2)
  by (cases "new_description w g dev t gs ts pa d") auto

text \<open>The world after a handler that was given a new event.\<close>

lemma ingest_new:
  assumes "store_ok st" "store_sound n (store_view st)" "cmd_event c \<notin> ms_processed_events st"
    and "\<not> is_undescribable c"
  obtains st' us w where "ingest (memory_ops iu ig topic) now limit cid c st = (Inr (), st')" "store_ok st'"
    "store_sound n (store_view st')" "news now (py_take limit us) c (store_view st) = Inr w"
    "store_view st' = put_mark (cmd_event c) w"
    "distinct us" "set us = uncounted_in (store_view st) (cmd_game c)"
proof (rule mem.ingest_cases [OF assms(1), where now = now and limit = limit and cid = cid and c = c
      and iu = iu and ig = ig and topic = topic])
  fix x us assume "effect now (py_take limit us) c (store_view st) = Inl x"
  then show thesis using effect_sound [OF assms(2), where now = now and c = c and us = "py_take limit us"] assms(4)
    by simp
next
  fix st' us
  assume a: "ingest (memory_ops iu ig topic) now limit cid c st = (Inr (), st')" "store_ok st'"
    "effect now (py_take limit us) c (store_view st) = Inr (store_view st')"
    "distinct us" "set us = uncounted_in (store_view st) (cmd_game c)"
  have "w_processed (store_view st) = ms_processed_events st" by (simp add: store_view_def)
  then obtain w where w: "news now (py_take limit us) c (store_view st) = Inr w"
    "store_view st' = put_mark (cmd_event c) w"
    using a(3) assms(3) by (auto simp: effect_def res_simps)
  have "store_sound n (store_view st')"
    using effect_sound [OF assms(2), where now = now and c = c and us = "py_take limit us"] a(3) by simp
  from that [OF a(1,2) this w a(4,5)] show thesis .
qed

lemma store_soundD:
  assumes "store_sound n w"
  shows "wf_world w" "one_width n w" "credited w"
  using assms by (simp_all add: store_sound_def)



text \<open>C13: late descriptions. Publishing a description that fits credits every owner whose purchase came
  before it, when there are at most \<open>limit\<close> of them: each of them gets exactly one \<open>PURCHASE\<close> signal of
  the described game, no other profile moves, and no uncounted owner is left.\<close>

theorem publication_credits_owners:
  assumes "store_ok st" "store_sound n (store_view st)" "e \<notin> ms_processed_events st"
    and "describable t gs ts" "0 \<le> limit" "card (uncounted_in (store_view st) g) \<le> nat limit"
  shows "\<exists>st' gm. ingest (memory_ops iu ig topic) now limit cid (GamePublished e g dev t gs ts pa d) st = (Inr (), st') \<and>
    w_games (store_view st') g = Some gm \<and> is_published gm \<and>
    embedding gm = emb_of (label_features gs ts) \<and>
    (\<forall>u \<in> uncounted_in (store_view st) g.
       observe (pref_of (store_view st) u) gm PURCHASE now = Inr (pref_of (store_view st') u)) \<and>
    (\<forall>u. u \<notin> uncounted_in (store_view st) g \<longrightarrow> pref_of (store_view st') u = pref_of (store_view st) u) \<and>
    uncounted_in (store_view st') g = {}"
proof -
  let ?w = "store_view st" and ?c = "GamePublished e g dev t gs ts pa d"
  note sound = store_soundD [OF assms(2)]
  obtain st' us w where st': "ingest (memory_ops iu ig topic) now limit cid ?c st = (Inr (), st')"
    "news now (py_take limit us) ?c ?w = Inr w" "store_view st' = put_mark e w"
    and us: "distinct us" "set us = uncounted_in ?w g"
    by (rule ingest_new [OF assms(1,2), where c = ?c and now = now and limit = limit and cid = cid
          and iu = iu and ig = ig and topic = topic])
       (auto simp: assms(3,4) is_undescribable_def)
  have "py_take limit us = us"
    using us assms(5,6) distinct_card [OF us(1)] by (simp add: py_take_def)
  then obtain gm w1 where gm: "new_description ?w g dev t gs ts pa d = Inr gm"
    and w1: "signal_all gm now us (put_game gm ?w) = Inr w1" "w = count_owners g us w1"
    using st'(2) unfolding news_published by (auto simp: res_simps)
  note dsc = new_description_Inr [OF sound(1) gm]
  have prefs: "if u \<in> set us then observe (pref_of ?w u) gm PURCHASE now = Inr (pref_of w1 u)
      else pref_of w1 u = pref_of ?w u" for u
    using signal_all_pref [OF wf_put_game [OF sound(1) dsc(1)] dsc(1) us(1) w1(1), of u]
    by (simp cong: if_cong)
  show ?thesis
    using st'(1,3) w1(2) signal_all_keeps [OF w1(1)] dsc us prefs
    by (intro exI [of _ st'] exI [of _ gm]) (auto simp: uncounted_in_def split: if_splits)
qed

lemma publication_credits_owners_witness:
  "\<exists>st'. ingest (memory_ops ascending ascending ''reco'') (utc 0) 500 None
     (GamePublished 10 (GameId 1) (UserId 2) ''Hades'' [''RPG''] [] None []) sample_waiting = (Inr (), st') \<and>
     uncounted_in (store_view st') (GameId 1) = {}"
  using publication_credits_owners [OF sample_stores_ok(2) sample_waiting_sound _ sample_describable,
      where iu = ascending and ig = ascending and topic = "''reco''" and now = "utc 0" and limit = 500 and cid = None and
        e = 10 and g = "GameId 1" and dev = "UserId 2" and pa = None and d = "[]"]
  by (auto simp: sample_views)

text \<open>The time of a signal only shows in \<open>updated_at\<close>.\<close>

lemma observe_time:
  assumes "observe p gm k tm = Inr q"
  shows "observe p gm k tm' = Inr (q\<lparr>updated_at := Some tm'\<rparr>)"
  using assms by (auto simp: observe_def Let_def res_simps)

lemma new_description_games: "w_games v = w_games w \<Longrightarrow>
    new_description v g dev t gs ts pa d = new_description w g dev t gs ts pa d"
  by (simp add: new_description_def)

lemma publication_new:
  assumes "store_ok st" "store_sound n (store_view st)" "e \<notin> ms_processed_events st" "describable t gs ts"
  obtains st' us gm w1 where
    "ingest (memory_ops iu ig topic) now limit cid (GamePublished e g dev t gs ts pa d) st = (Inr (), st')"
    "store_ok st'" "store_sound n (store_view st')" "distinct us" "set us = uncounted_in (store_view st) g"
    "new_description (store_view st) g dev t gs ts pa d = Inr gm"
    "signal_all gm now (py_take limit us) (put_game gm (store_view st)) = Inr w1"
    "store_view st' = put_mark e (count_owners g (py_take limit us) w1)"
proof -
  let ?c = "GamePublished e g dev t gs ts pa d"
  obtain st' us w where a: "ingest (memory_ops iu ig topic) now limit cid ?c st = (Inr (), st')" "store_ok st'"
    "store_sound n (store_view st')" "news now (py_take limit us) ?c (store_view st) = Inr w"
    "store_view st' = put_mark e w" "distinct us" "set us = uncounted_in (store_view st) g"
    by (rule ingest_new [OF assms(1,2), where c = ?c and now = now and limit = limit and cid = cid
          and iu = iu and ig = ig and topic = topic])
       (auto simp: assms(3,4) is_undescribable_def)
  obtain gm w1 where "new_description (store_view st) g dev t gs ts pa d = Inr gm"
    "signal_all gm now (py_take limit us) (put_game gm (store_view st)) = Inr w1"
    "w = count_owners g (py_take limit us) w1"
    using a(4) unfolding news_published by (auto simp: res_simps)
  with a that show thesis by blast
qed

lemma purchase_new:
  assumes "store_ok st" "store_sound n (store_view st)" "e \<notin> ms_processed_events st"
  obtains st' where
    "ingest (memory_ops iu ig topic) now limit cid (PurchaseCompleted e u g occ) st = (Inr (), st')"
    "store_ok st'" "store_sound n (store_view st')"
    "case w_games (store_view st) g of
       None \<Rightarrow> store_view st' = put_mark e (put_owner u g False (store_view st))
     | Some gm \<Rightarrow> \<exists>p. observe (pref_of (store_view st) u) gm PURCHASE (moment occ now) = Inr p \<and> pref_user_id p = u \<and>
         store_view st' = put_mark e (put_game (gm\<lparr>purchase_count := purchase_count gm + 1\<rparr>)
           (put_owner u g True (put_pref p (store_view st))))"
proof -
  let ?c = "PurchaseCompleted e u g occ"
  obtain st' us w where a: "ingest (memory_ops iu ig topic) now limit cid ?c st = (Inr (), st')" "store_ok st'"
    "store_sound n (store_view st')" "news now (py_take limit us) ?c (store_view st) = Inr w"
    "store_view st' = put_mark e w"
    by (rule ingest_new [OF assms(1,2), where c = ?c and now = now and limit = limit and cid = cid
          and iu = iu and ig = ig and topic = topic])
       (auto simp: assms(3) is_undescribable_def)
  note wf = store_soundD(1) [OF assms(2)]
  show thesis
  proof (rule that [OF a(1-3)], cases "w_games (store_view st) g")
    case None
    with a(4,5) show "case w_games (store_view st) g of
       None \<Rightarrow> store_view st' = put_mark e (put_owner u g False (store_view st))
     | Some gm \<Rightarrow> \<exists>p. observe (pref_of (store_view st) u) gm PURCHASE (moment occ now) = Inr p \<and> pref_user_id p = u \<and>
         store_view st' = put_mark e (put_game (gm\<lparr>purchase_count := purchase_count gm + 1\<rparr>)
           (put_owner u g True (put_pref p (store_view st))))" by simp
  next
    case (Some gm)
    then obtain w1 where w1: "signal gm PURCHASE (moment occ now) u (store_view st) = Inr w1"
      "w = put_game (gm\<lparr>purchase_count := purchase_count gm + 1\<rparr>) (put_owner u g True w1)"
      using a(4) wf_worldD(1) [OF wf Some] by (auto simp: res_simps bought_wf)
    from signal_pref [OF wf w1(1)] w1(2) a(5) Some show "case w_games (store_view st) g of
       None \<Rightarrow> store_view st' = put_mark e (put_owner u g False (store_view st))
     | Some gm \<Rightarrow> \<exists>p. observe (pref_of (store_view st) u) gm PURCHASE (moment occ now) = Inr p \<and> pref_user_id p = u \<and>
         store_view st' = put_mark e (put_game (gm\<lparr>purchase_count := purchase_count gm + 1\<rparr>)
           (put_owner u g True (put_pref p (store_view st))))" by auto
  qed
qed

text \<open>C15: order of events. For a game nobody owned, handling the purchase before or after the description
  gives the same ownerships and the same profile, except for the time of the last signal: the clock of
  the publication instead of the time of the purchase. The popularity differs: the purchase that came
  first is never counted.\<close>

theorem purchase_and_publication_order:
  assumes "store_ok st" "store_sound n (store_view st)" "e \<noteq> e'"
    and "e \<notin> ms_processed_events st" "e' \<notin> ms_processed_events st"
    and "w_games (store_view st) g = None" "\<forall>v. w_owners (store_view st) g v = None"
    and "describable t gs ts" "1 \<le> limit"
  shows "\<exists>early late gm.
    ingest (memory_ops iu ig topic) now limit cid (PurchaseCompleted e u g occ) st = (Inr (), fst early) \<and>
    ingest (memory_ops iu ig topic) now' limit cid' (GamePublished e' g dev t gs ts pa d) (fst early) = (Inr (), snd early) \<and>
    ingest (memory_ops iu ig topic) now' limit cid' (GamePublished e' g dev t gs ts pa d) st = (Inr (), fst late) \<and>
    ingest (memory_ops iu ig topic) now limit cid (PurchaseCompleted e u g occ) (fst late) = (Inr (), snd late) \<and>
    w_owners (store_view (snd late)) = w_owners (store_view (snd early)) \<and>
    pref_of (store_view (snd late)) u = (pref_of (store_view (snd early)) u)\<lparr>updated_at := Some (moment occ now)\<rparr> \<and>
    w_games (store_view (snd early)) g = Some gm \<and> purchase_count gm = 0 \<and>
    w_games (store_view (snd late)) g = Some (gm\<lparr>purchase_count := 1\<rparr>)"
proof -
  let ?w = "store_view st" and ?ops = "memory_ops iu ig topic"
  let ?buy = "PurchaseCompleted e u g occ" and ?pub = "GamePublished e' g dev t gs ts pa d"
  have seen: "ms_processed_events s = w_processed (store_view s)" for s by (simp add: store_view_def)
  obtain s1 where s1: "ingest ?ops now limit cid ?buy st = (Inr (), s1)" "store_ok s1" "store_sound n (store_view s1)"
    "store_view s1 = put_mark e (put_owner u g False ?w)"
    by (rule purchase_new [OF assms(1,2,4), where iu = iu and ig = ig and topic = topic and limit = limit and g = g and now = now and cid = cid and u = u and occ = occ]) (use assms(6) in auto)
  have "e' \<notin> ms_processed_events s1" using s1(4) assms(3,5) by (simp add: seen)
  then obtain s2 us gm w2 where s2: "ingest ?ops now' limit cid' ?pub s1 = (Inr (), s2)"
    "distinct us" "set us = uncounted_in (store_view s1) g"
    "new_description (store_view s1) g dev t gs ts pa d = Inr gm"
    "signal_all gm now' (py_take limit us) (put_game gm (store_view s1)) = Inr w2"
    "store_view s2 = put_mark e' (count_owners g (py_take limit us) w2)"
    by (rule publication_new [OF s1(2,3) _ assms(8), where iu = iu and ig = ig and topic = topic and limit = limit and g = g and now = now' and cid = cid' and dev = dev and pa = pa and d = d]) auto
  have "set us = {u}" using s2(3) assms(7) by (auto simp: s1(4) uncounted_in_def raise_owner_def split: if_splits)
  then have "us = [u]" by (rule distinct_singleton [OF s2(2)])
  then have us: "py_take limit us = [u]" using assms(9) by (simp add: py_take_def take_Cons')
  have gm: "new_description ?w g dev t gs ts pa d = Inr gm"
    using s2(4) by (simp add: s1(4) new_description_def)
  note dsc = new_description_Inr [OF store_soundD(1) [OF assms(2)] gm]
  have wf: "wf_world (put_game gm (store_view s1))"
    using wf_put_game [OF store_soundD(1) [OF s1(3)] dsc(1)] .
  have sig: "signal gm PURCHASE now' u (put_game gm (store_view s1)) = Inr w2"
    using s2(5) us by (auto simp: res_simps)
  obtain p where p: "observe (pref_of ?w u) gm PURCHASE now' = Inr p" "pref_user_id p = u"
    "w2 = put_pref p (put_game gm (store_view s1))"
    using signal_pref [OF wf sig] by (auto simp: s1(4))
  obtain s3 us' gm' w3 where s3: "ingest ?ops now' limit cid' ?pub st = (Inr (), s3)" "store_ok s3"
    "store_sound n (store_view s3)" "set us' = uncounted_in ?w g" "new_description ?w g dev t gs ts pa d = Inr gm'"
    "signal_all gm' now' (py_take limit us') (put_game gm' ?w) = Inr w3"
    "store_view s3 = put_mark e' (count_owners g (py_take limit us') w3)"
    by (rule publication_new [OF assms(1,2,5,8), where iu = iu and ig = ig and topic = topic and limit = limit and g = g and now = now' and cid = cid' and dev = dev and pa = pa and d = d]) auto
  have "us' = []" using s3(4) assms(7) by (auto simp: uncounted_in_def)
  then have v3: "store_view s3 = put_mark e' (count_owners g [] (put_game gm ?w))"
    using s3(5-7) gm by simp
  have "e \<notin> ms_processed_events s3" using v3 assms(3,4) by (simp add: seen)
  then obtain s4 where s4: "ingest ?ops now limit cid ?buy s3 = (Inr (), s4)"
    "\<exists>q. observe (pref_of ?w u) gm PURCHASE (moment occ now) = Inr q \<and> pref_user_id q = u \<and>
       store_view s4 = put_mark e (put_game (gm\<lparr>purchase_count := purchase_count gm + 1\<rparr>)
         (put_owner u g True (put_pref q (store_view s3))))"
    by (rule purchase_new [OF s3(2,3), where iu = iu and ig = ig and topic = topic and limit = limit and g = g and now = now and cid = cid and u = u and occ = occ]) (use dsc(2) in \<open>auto simp: v3\<close>)
  have "purchase_count gm = 0" using dsc(6) assms(6) by simp
  with s4 s1 s2(1,6) s3(1) v3 us p dsc(2) observe_time [OF p(1), of "moment occ now"] show ?thesis
    by (intro exI [of _ "(s1, s2)"] exI [of _ "(s3, s4)"] exI [of _ gm])
       (auto simp: raise_owner_def fun_eq_iff assms(7))
qed

lemma purchase_and_publication_order_witness:
  "\<exists>st st' gm. ingest (memory_ops ascending ascending ''reco'') (utc 0) 500 None
     (PurchaseCompleted 1 (UserId 7) (GameId 1) None) empty_store = (Inr (), st) \<and>
   ingest (memory_ops ascending ascending ''reco'') (utc 1) 500 None
     (GamePublished 2 (GameId 1) (UserId 2) ''Hades'' [''RPG''] [] None []) st = (Inr (), st') \<and>
   w_games (store_view st') (GameId 1) = Some gm \<and> purchase_count gm = 0"
  using purchase_and_publication_order [OF store_ok_empty store_sound_empty, where e = 1 and e' = 2 and
      g = "GameId 1" and t = "''Hades''" and gs = "[''RPG'']" and ts = "[]" and limit = 500 and iu = ascending and
      ig = ascending and topic = "''reco''" and now = "utc 0" and cid = None and u = "UserId 7" and occ = None and
      now' = "utc 1" and cid' = None and dev = "UserId 2" and pa = None and d = "[]"] sample_describable
  by (auto simp: sample_views)

end
