(* ===== verification/Generate.thy ===== *)
theory Generate
  imports Delivery
begin

text \<open>
  Generation (\<open>application/usecases/generate.py\<close>, \<open>enrich.py\<close>): embedding the games that have
  no vector, ranking and storing one user's list, and the sweep over all users. The embedding
  and the explanation models are somebody else's services: \<open>provider\<close> and \<open>explain\<close> are
  parameters that may raise.

  \<open>EventStampFactory\<close> (\<open>application/ports/outbound/support.py\<close>) is a pair of streams, the clock's
  readings and the generator's ids, with the number of each already drawn.
\<close>

section \<open>Clock and ids\<close>

record stamps =
  clock :: "nat \<Rightarrow> datetime"
  uuids :: "nat \<Rightarrow> uuid"
  readings :: nat
  drawn :: nat

definition stamps_now :: "stamps \<Rightarrow> datetime \<times> stamps" where
  "stamps_now ss = (clock ss (readings ss), ss\<lparr>readings := readings ss + 1\<rparr>)"

definition stamps_new_uuid :: "stamps \<Rightarrow> uuid \<times> stamps" where
  "stamps_new_uuid ss = (uuids ss (drawn ss), ss\<lparr>drawn := drawn ss + 1\<rparr>)"

definition stamps_next :: "stamps \<Rightarrow> event_stamp \<times> stamps" where
  "stamps_next ss =
     (let (e, ss) = stamps_new_uuid ss; (t, ss) = stamps_now ss
      in (\<lparr>stamp_event_id = e, stamp_occurred_at = t\<rparr>, ss))"

section \<open>Embedding pending games\<close>

type_synonym embedder = "string list \<Rightarrow> exn + real list list"

text \<open>The loop over \<open>zip(pending, vectors, strict=True)\<close>, which raises once one side is used up.\<close>

fun embed_each ::
  "('db, 's) uow_ops \<Rightarrow> game_profile list \<Rightarrow> real list list \<Rightarrow> 's \<Rightarrow> (exn + unit) \<times> 's" where
  "embed_each ops [] [] s = (Inr (), s)"
| "embed_each ops (g # gs) [] s = (Inl (ValueError ''zip() argument 2 is shorter than argument 1''), s)"
| "embed_each ops [] (v # vs) s = (Inl (ValueError ''zip() argument 2 is longer than argument 1''), s)"
| "embed_each ops (g # gs) (v # vs) s =
     (case embedded g (dense_of v) of
        Inl x \<Rightarrow> (Inl x, s)
      | Inr g' \<Rightarrow> embed_each ops gs vs (games_upsert ops s g'))"

definition embed_pending ::
  "('db, 's) uow_ops \<Rightarrow> embedder \<Rightarrow> int \<Rightarrow> string option \<Rightarrow> 'db \<Rightarrow> (exn + int) \<times> 'db" where
  "embed_pending ops provider batch cid db =
     (let s = uow_open ops cid db; pending = games_needing_embedding ops s batch; db = uow_exit ops s in
      if pending = [] then (Inr 0, db)
      else case provider (map embedding_text pending) of
          Inl x \<Rightarrow> (Inr 0, db)
        | Inr vectors \<Rightarrow> with_uow ops cid (\<lambda>s.
            case embed_each ops pending vectors s of
              (Inl x, s) \<Rightarrow> (Inl x, s)
            | (Inr _, s) \<Rightarrow> (Inr (int (length pending)), uow_commit ops s)) db)"

section \<open>Explanations\<close>

record explained_game =
  eg_game_id :: game_id
  eg_title :: string
  eg_genres :: "string list"
  eg_tags :: "string list"

record explanation_request =
  er_liked :: "explained_game list"
  er_candidates :: "explained_game list"

type_synonym explainer = "explanation_request \<Rightarrow> exn + (game_id, string list) dict"

definition as_explained :: "game_profile \<Rightarrow> explained_game" where
  "as_explained g = \<lparr>eg_game_id = game_id g, eg_title = title g, eg_genres = genres g, eg_tags = tags g\<rparr>"

definition explained ::
  "explainer option \<Rightarrow> scored_game list \<Rightarrow> game_profile list \<Rightarrow> exn + scored_game list" where
  "explained explain scored played =
     (case explain of
        None \<Rightarrow> Inr scored
      | Some f \<Rightarrow>
          if scored = [] then Inr scored
          else bindE (f \<lparr>er_liked = map as_explained (take MAX_EXPLAINED_CANDIDATES played),
                         er_candidates = map (\<lambda>i. as_explained (sg_game i)) (take MAX_EXPLAINED_CANDIDATES scored)\<rparr>)
            (\<lambda>reasons. if reasons = [] then Inr scored
              else Inr (map (\<lambda>i. i\<lparr>sg_reasons := dget reasons (game_id (sg_game i)) (sg_reasons i)\<rparr>) scored)))"

section \<open>One user\<close>

record generator =
  gen_scorer :: scorer
  gen_catalogue_limit :: int
  gen_explain :: "explainer option"
  gen_dense_space :: bool

text \<open>The comprehension over \<open>enumerate(scored, start=1)\<close>.\<close>

fun build_recommendations ::
  "user_id \<Rightarrow> datetime \<Rightarrow> int \<Rightarrow> scored_game list \<Rightarrow> stamps \<Rightarrow> (exn + recommendation list) \<times> stamps" where
  "build_recommendations u tm rk [] ss = (Inr [], ss)"
| "build_recommendations u tm rk (i # is) ss =
     (let (e, ss) = stamps_new_uuid ss in
      case mk_recommendation
          \<lparr>rec_id = RecommendationId e, rec_user_id = u, rec_game_id = game_id (sg_game i),
           rec_score = blend (sg_content i) (sg_collaborative i), rec_source = sg_source i, rec_rank = rk,
           rec_generated_at = tm, rec_reasons = sg_reasons i\<rparr> of
        Inl x \<Rightarrow> (Inl x, ss)
      | Inr r \<Rightarrow>
          (case build_recommendations u tm (rk + 1) is ss of
             (Inl x, ss) \<Rightarrow> (Inl x, ss)
           | (Inr rs, ss) \<Rightarrow> (Inr (r # rs), ss)))"

definition space_of :: "game_profile list \<Rightarrow> game_id \<rightharpoonup> dense_embedding" where
  "space_of played = fold (\<lambda>g m. m(game_id g \<mapsto> dense g)) played Map.empty"

text \<open>\<open>sorted(preference.owned, key=str)\<close>: ids are ordered as their texts are (\<open>game_str_order\<close>).\<close>

definition library :: "user_preference \<Rightarrow> game_id list" where
  "library p = sorted_list_of_set (fset (owned p))"

definition generate_body ::
  "('db, 's) uow_ops \<Rightarrow> generator \<Rightarrow> user_id \<Rightarrow> int \<Rightarrow> 's \<Rightarrow> stamps \<Rightarrow> (exn + int) \<times> 's \<times> stamps" where
  "generate_body ops gen u limit s ss =
     (let p = preference_or_blank ops s u in
      if is_cold p then (Inr 0, recs_replace_for ops s u [], ss)
      else
        let played = games_by_ids ops s (remembered_games p) in
        case (if gen_dense_space gen
              then bindE (rebuilt_in p (space_of played)) (\<lambda>q. Inr (q, prefs_upsert ops s q))
              else Inr (p, s)) of
          Inl x \<Rightarrow> (Inl x, s, ss)
        | Inr (p, s) \<Rightarrow>
            (let candidates = games_recommendable ops s (gen_catalogue_limit gen);
                 co = owners_co_purchases ops s u (library p) MAX_COLLABORATIVE_CANDIDATES in
             case explained (gen_explain gen) (rank (gen_scorer gen) p candidates co limit) played of
               Inl x \<Rightarrow> (Inl x, s, ss)
             | Inr scored \<Rightarrow>
                 (let (tm, ss) = stamps_now ss in
                  case build_recommendations u tm 1 scored ss of
                    (Inl x, ss) \<Rightarrow> (Inl x, s, ss)
                  | (Inr recs, ss) \<Rightarrow>
                      (let s = recs_replace_for ops s u recs in
                       if recs = [] then (Inr (int (length recs)), s, ss)
                       else let (stamp, ss) = stamps_next ss in
                         (Inr (int (length recs)),
                          outbox_enqueue ops s [recommendation_generated_of u recs stamp], ss)))))"

definition generate ::
  "('db, 's) uow_ops \<Rightarrow> generator \<Rightarrow> string option \<Rightarrow> user_id \<Rightarrow> int \<Rightarrow> 'db \<times> stamps \<Rightarrow> (exn + int) \<times> 'db \<times> stamps" where
  "generate ops gen cid u limit = (\<lambda>(db, ss).
     case generate_body ops gen u limit (uow_open ops cid db) ss of
       (Inl x, s, ss) \<Rightarrow> (Inl x, uow_exit ops s, ss)
     | (Inr written, s, ss) \<Rightarrow> (Inr written, uow_exit ops (uow_commit ops s), ss))"

section \<open>The sweep\<close>

record refresh_report =
  users_processed :: int
  recommendations_written :: int
  rr_generated_at :: datetime

text \<open>The loop over the users: an exception is logged and the next user is taken.\<close>

fun sweep ::
  "('db, 's) uow_ops \<Rightarrow> generator \<Rightarrow> string option \<Rightarrow> int \<Rightarrow> user_id list \<Rightarrow> int \<times> int \<Rightarrow> 'db \<times> stamps \<Rightarrow>
   (int \<times> int) \<times> 'db \<times> stamps" where
  "sweep ops gen cid limit [] acc dbs = (acc, dbs)"
| "sweep ops gen cid limit (u # us) (processed, written) dbs =
     (case generate ops gen cid u limit dbs of
        (Inl x, dbs) \<Rightarrow> sweep ops gen cid limit us (processed, written) dbs
      | (Inr n, dbs) \<Rightarrow> sweep ops gen cid limit us (processed + 1, written + n) dbs)"

definition embed_first ::
  "('db, 's) uow_ops \<Rightarrow> (embedder \<times> int) option \<Rightarrow> string option \<Rightarrow> 'db \<Rightarrow> (exn + int) \<times> 'db" where
  "embed_first ops pending cid db =
     (case pending of None \<Rightarrow> (Inr 0, db) | Some (provider, batch) \<Rightarrow> embed_pending ops provider batch cid db)"

definition refresh_all ::
  "('db, 's) uow_ops \<Rightarrow> generator \<Rightarrow> (embedder \<times> int) option \<Rightarrow> int \<Rightarrow> string option \<Rightarrow> int \<Rightarrow> 'db \<times> stamps \<Rightarrow>
   (exn + refresh_report) \<times> 'db \<times> stamps" where
  "refresh_all ops gen pending batch cid limit = (\<lambda>(db, ss).
     case embed_first ops pending cid db of
       (Inl x, db) \<Rightarrow> (Inl x, db, ss)
     | (Inr _, db) \<Rightarrow>
         (let s = uow_open ops cid db; users = prefs_with_signals ops s batch; db = uow_exit ops s;
              ((processed, written), db, ss) = sweep ops gen cid limit users (0, 0) (db, ss);
              (tm, ss) = stamps_now ss
          in (Inr \<lparr>users_processed = processed, recommendations_written = written, rr_generated_at = tm\<rparr>, db, ss)))"

definition refresh_for ::
  "('db, 's) uow_ops \<Rightarrow> generator \<Rightarrow> (embedder \<times> int) option \<Rightarrow> string option \<Rightarrow> user_id \<Rightarrow> int \<Rightarrow> 'db \<times> stamps \<Rightarrow>
   (exn + refresh_report) \<times> 'db \<times> stamps" where
  "refresh_for ops gen pending cid u limit = (\<lambda>(db, ss).
     case embed_first ops pending cid db of
       (Inl x, db) \<Rightarrow> (Inl x, db, ss)
     | (Inr _, db) \<Rightarrow>
         (case generate ops gen cid u limit (db, ss) of
            (Inl x, db, ss) \<Rightarrow> (Inl x, db, ss)
          | (Inr written, db, ss) \<Rightarrow>
              (let (tm, ss) = stamps_now ss in
               (Inr \<lparr>users_processed = 1, recommendations_written = written, rr_generated_at = tm\<rparr>, db, ss))))"

end
