(* ===== verification/Refresh.thy ===== *)
theory Refresh
  imports Generate
begin

text \<open>
  What generation leaves in the store: the shape of a stored list, the event published with it,
  the invariants of the store, and the isolation of the users of a sweep. Proved over the
  contract \<open>unit_of_work\<close>, then stated for the in-memory backend.
\<close>

section \<open>Building the list\<close>

definition rec_at :: "user_id \<Rightarrow> datetime \<Rightarrow> uuid \<Rightarrow> int \<Rightarrow> scored_game \<Rightarrow> recommendation" where
  "rec_at u tm e rk i =
     \<lparr>rec_id = RecommendationId e, rec_user_id = u, rec_game_id = game_id (sg_game i),
      rec_score = blend (sg_content i) (sg_collaborative i), rec_source = sg_source i, rec_rank = rk,
      rec_generated_at = tm, rec_reasons = sg_reasons i\<rparr>"

fun recs_from :: "user_id \<Rightarrow> datetime \<Rightarrow> (nat \<Rightarrow> uuid) \<Rightarrow> nat \<Rightarrow> int \<Rightarrow> scored_game list \<Rightarrow> recommendation list" where
  "recs_from u tm ids k rk [] = []"
| "recs_from u tm ids k rk (i # is) = rec_at u tm (ids k) rk i # recs_from u tm ids (k + 1) (rk + 1) is"

lemma build_total:
  assumes "\<forall>i \<in> set is. 0 \<le> blend (sg_content i) (sg_collaborative i)" "1 \<le> rk"
  shows "build_recommendations u tm rk is ss =
    (Inr (recs_from u tm (uuids ss) (drawn ss) rk is), ss\<lparr>drawn := drawn ss + length is\<rparr>)"
  using assms
  by (induction "is" arbitrary: rk ss)
     (simp_all add: stamps_new_uuid_def mk_recommendation_def rec_at_def)

lemma recs_from_maps:
  "length (recs_from u tm ids k rk is) = length is"
  "map rec_game_id (recs_from u tm ids k rk is) = map (\<lambda>i. game_id (sg_game i)) is"
  "map rec_score (recs_from u tm ids k rk is) = map (\<lambda>i. blend (sg_content i) (sg_collaborative i)) is"
  "map rec_source (recs_from u tm ids k rk is) = map sg_source is"
  "map rec_reasons (recs_from u tm ids k rk is) = map sg_reasons is"
  "\<forall>r \<in> set (recs_from u tm ids k rk is). rec_user_id r = u \<and> rec_generated_at r = tm"
  by (induction "is" arbitrary: k rk) (simp_all add: rec_at_def)

lemma recs_from_ranks: "map rec_rank (recs_from u tm ids k rk is) = map (\<lambda>j. rk + int j) [0..<length is]"
proof (induction "is" arbitrary: k rk)
  case Nil
  then show ?case by simp
next
  case (Cons i "is")
  have "map (\<lambda>j. rk + int j) [0..<Suc (length is)] = rk # map (\<lambda>j. rk + 1 + int j) [0..<length is]"
    by (simp add: upt_conv_Cons map_Suc_upt [symmetric] comp_def algebra_simps del: upt_Suc map_Suc_upt)
  with Cons show ?case by (simp add: rec_at_def del: upt_Suc)
qed

lemma recs_from_mem: "r \<in> set (recs_from u tm ids k rk is) \<Longrightarrow> \<exists>i \<in> set is. \<exists>e rk'. r = rec_at u tm e rk' i"
  by (induction "is" arbitrary: k rk) auto

text \<open>An explanation only replaces reasons.\<close>

lemma explained_keeps:
  assumes "explained f scored played = Inr out"
  shows "map (\<lambda>i. i\<lparr>sg_reasons := []\<rparr>) out = map (\<lambda>i. i\<lparr>sg_reasons := []\<rparr>) scored"
  using assms by (auto simp: explained_def res_simps split: option.splits if_splits)

definition explains_safely :: "explainer option \<Rightarrow> bool" where
  "explains_safely f \<longleftrightarrow> (case f of None \<Rightarrow> True | Some g \<Rightarrow> (\<forall>r. \<exists>d. g r = Inr d))"

lemma explained_total: "explains_safely f \<Longrightarrow> \<exists>out. explained f scored played = Inr out"
proof (cases f)
  case (Some g)
  assume "explains_safely f"
  then obtain d where d: "g \<lparr>er_liked = map as_explained (take MAX_EXPLAINED_CANDIDATES played),
      er_candidates = map (\<lambda>i. as_explained (sg_game i)) (take MAX_EXPLAINED_CANDIDATES scored)\<rparr> = Inr d"
    using Some by (auto simp: explains_safely_def)
  then show ?thesis using Some by (simp add: explained_def)
qed (simp add: explained_def)

lemma explained_map:
  assumes "explained f scored played = Inr out" "\<And>i. h (i\<lparr>sg_reasons := []\<rparr>) = h i"
  shows "map h out = map h scored"
proof -
  have "map h out = map h (map (\<lambda>i. i\<lparr>sg_reasons := []\<rparr>) out)" by (simp add: assms(2) comp_def)
  also have "\<dots> = map h (map (\<lambda>i. i\<lparr>sg_reasons := []\<rparr>) scored)"
    by (simp only: explained_keeps [OF assms(1)])
  also have "\<dots> = map h scored" by (simp add: assms(2) comp_def)
  finally show ?thesis .
qed

section \<open>Rebuilding from the store\<close>

lemma space_of_game:
  assumes "\<forall>g \<in> set gs. at_width n (dense g)" "space_of gs h = Some v"
  shows "at_width n v"
proof -
  have "fold (\<lambda>g m. m(game_id g \<mapsto> dense g)) gs m h = Some v \<Longrightarrow> m h = Some v \<or> (\<exists>g \<in> set gs. v = dense g)" for m
    by (induction gs arbitrary: m) (simp, fastforce split: if_splits)
  from this [of Map.empty] assms show ?thesis by (auto simp: space_of_def)
qed

lemma rebuilt_total:
  assumes "\<And>h v. space h = Some v \<Longrightarrow> at_width n v"
  shows "\<exists>q. rebuilt_in p space = Inr q \<and> at_width n (taste_dense q) \<and> q = p\<lparr>taste_dense := taste_dense q\<rparr>"
proof -
  obtain d where "rebuild space (history p) dense_empty = Inr d" "at_width n d"
    using rebuild_sum [where space = space and w = n and acc = dense_empty and rs = "history p"] assms by auto
  then show ?thesis by (simp add: rebuilt_in_def)
qed

lemma wf_pref_dense [simp]: "wf_pref (p\<lparr>taste_dense := d\<rparr>) = wf_pref p"
  by (simp add: wf_pref_def)

lemma owns_dense [simp]: "owns (p\<lparr>taste_dense := d\<rparr>) = owns p"
  by (rule ext) (simp add: owns_def)

section \<open>The shape of a stored list\<close>

lemma map_filter_games: "map sg_game (List.map_filter (score_candidate sc p collab) cs) =
    filter (\<lambda>g. score_candidate sc p collab g \<noteq> None) cs"
  by (induction cs) (auto simp: List.map_filter_simps score_candidate_SomeD(1) split: option.split)

lemma rank_distinct:
  assumes "distinct cs" "inj_on game_id (set cs)"
  shows "distinct (map (\<lambda>i. game_id (sg_game i)) (rank sc p cs co limit))"
proof -
  let ?xs = "List.map_filter (score_candidate sc p (collaborative_scores co)) cs"
  have "distinct (map game_id cs)" using assms by (simp add: distinct_map)
  then have "distinct (map game_id (map sg_game ?xs))"
    unfolding map_filter_games by (rule distinct_map_filter)
  then have "distinct (map (\<lambda>i. game_id (sg_game i)) ?xs)" by (simp add: comp_def)
  then have "distinct (map (\<lambda>i. game_id (sg_game i)) (sort_key rank_key ?xs))"
    by (simp only: distinct_map distinct_sort set_sort)
  then show ?thesis by (simp add: rank_def py_take_def take_map [symmetric])
qed

text \<open>What a reader of the list of \<open>u\<close> may rely on, relative to the store it was made from.\<close>

definition list_ok :: "world \<Rightarrow> user_id \<Rightarrow> int \<Rightarrow> recommendation list \<Rightarrow> bool" where
  "list_ok w u limit recs \<longleftrightarrow>
     map rec_rank recs = map (\<lambda>j. 1 + int j) [0..<length recs] \<and> int (length recs) \<le> limit \<and>
     distinct (map rec_game_id recs) \<and> sorted (map (\<lambda>r. - rec_score r) recs) \<and>
     (\<forall>r \<in> set recs. rec_user_id r = u \<and> 0 < rec_score r \<and> rec_score r < 1 \<and> rec_source r \<noteq> FALLBACK \<and>
        \<not> owns (pref_of w u) (rec_game_id r) \<and>
        (\<exists>gm. w_games w (rec_game_id r) = Some gm \<and> is_published gm))"

section \<open>One user\<close>

definition co_counts :: "world \<Rightarrow> user_id \<Rightarrow> game_id set \<Rightarrow> (game_id, int) dict \<Rightarrow> bool" where
  "co_counts w u mine co \<longleftrightarrow> dict_ok co \<and>
     (\<forall>h m. map_of co h = Some m \<longrightarrow> m = int (card (co_owners (w_owners w) u mine h)) \<and> 0 < m)"

lemma map_of_take: "dict_ok d \<Longrightarrow> map_of (take n d) k = Some v \<Longrightarrow> map_of d k = Some v"
  by (metis dict_ok_in_set distinct_take in_set_takeD take_map)

definition shortlist ::
  "world \<Rightarrow> generator \<Rightarrow> user_preference \<Rightarrow> int \<Rightarrow> scored_game list \<Rightarrow> bool" where
  "shortlist w gen p limit out \<longleftrightarrow>
     (\<exists>candidates co played. best_first (w_games w) is_published popularity_key (gen_catalogue_limit gen) candidates \<and>
        co_counts w (pref_user_id p) (fset (owned p)) co \<and>
        explained (gen_explain gen) (rank (gen_scorer gen) p candidates co limit) played = Inr out)"

definition refreshed :: "generator \<Rightarrow> nat \<Rightarrow> world \<Rightarrow> user_preference \<Rightarrow> world \<Rightarrow> bool" where
  "refreshed gen n w q w1 \<longleftrightarrow> (\<exists>d. q = (pref_of w (pref_user_id q))\<lparr>taste_dense := d\<rparr>) \<and>
     (if gen_dense_space gen then at_width n (taste_dense q) \<and> w1 = put_pref q w
      else q = pref_of w (pref_user_id q) \<and> w1 = w)"

definition publishes :: "user_id \<Rightarrow> recommendation list \<Rightarrow> event_stamp \<Rightarrow> world \<Rightarrow> world \<Rightarrow> bool" where
  "publishes u recs stamp w w' \<longleftrightarrow>
     (if recs = [] then w' = w\<lparr>w_recs := (w_recs w)(u := recs)\<rparr>
      else \<exists>topic cid. w' = w\<lparr>w_recs := (w_recs w)(u := recs),
         w_outbox := (w_outbox w)(stamp_event_id stamp \<mapsto>
           outbox_record_of topic cid (recommendation_generated_of u recs stamp))\<rparr>)"

lemma set_library: "set (library p) = fset (owned p)"
  by (simp add: library_def)

lemma rank_positive:
  assumes "i \<in> set (rank sc p cs co limit)"
  shows "0 < blend (sg_content i) (sg_collaborative i)"
  using set_rank [OF assms] score_candidate_SomeD(4) by blast

text \<open>The scorer an instance is configured with.\<close>

definition sound_scorer :: "scorer \<Rightarrow> bool" where
  "sound_scorer sc \<longleftrightarrow> sc = content_based_scorer \<or> sc = dense_content_scorer"

lemma sound_scorer: "sound_scorer sc \<Longrightarrow> content_scorer sc"
  using sparse.content_scorer_axioms semantic.content_scorer_axioms by (auto simp: sound_scorer_def)

lemma refreshed_sound:
  assumes "store_sound n w" "pref_user_id q = u" "refreshed gen n w q w1"
  shows "store_sound n w1" "w_games w1 = w_games w" "w_recs w1 = w_recs w" "w_outbox w1 = w_outbox w"
    "wf_pref q" "owned q = owned (pref_of w u)" "\<And>v. owns (pref_of w1 v) = owns (pref_of w v)"
    "w_processed w1 = w_processed w" "w_owners w1 = w_owners w"
proof -
  note snd = store_soundD [OF assms(1)]
  obtain d where d: "q = (pref_of w u)\<lparr>taste_dense := d\<rparr>"
    using assms(2,3) by (auto simp: refreshed_def)
  then show q: "wf_pref q" "owned q = owned (pref_of w u)" using pref_of_wf [OF snd(1), of u] by simp_all
  have owns: "owns (pref_of w1 v) = owns (pref_of w v)" for v
    using assms(2,3) q(2) by (auto simp: refreshed_def owns_def fun_eq_iff split: if_splits)
  then show "\<And>v. owns (pref_of w1 v) = owns (pref_of w v)" .
  show more: "w_games w1 = w_games w" "w_recs w1 = w_recs w" "w_outbox w1 = w_outbox w"
    "w_processed w1 = w_processed w" "w_owners w1 = w_owners w"
    using assms(3) by (auto simp: refreshed_def put_pref_def split: if_splits)
  show "store_sound n w1"
    using assms(3) snd q(1) owns more
    by (auto simp: refreshed_def store_sound_def credited_def split: if_splits intro: wf_put_pref width_put_pref)
qed

lemma sorted_map_le:
  assumes "sorted (map f xs)" "\<And>x y. x \<in> set xs \<Longrightarrow> y \<in> set xs \<Longrightarrow> f x \<le> f y \<Longrightarrow> g x \<le> g y"
  shows "sorted (map g xs)"
  using assms by (induction xs) auto

lemma rank_key_score: "rank_key i \<le> rank_key j \<Longrightarrow>
    - blend (sg_content i) (sg_collaborative i) \<le> - blend (sg_content j) (sg_collaborative j)"
  by (auto simp: rank_key_def)

lemma shortlist_list_ok:
  assumes "store_sound n w" "wf_pref q" "pref_user_id q = u" "shortlist w gen q limit out"
    and "sound_scorer (gen_scorer gen)" "0 \<le> limit" "owned q = owned (pref_of w u)"
  shows "list_ok w u limit (recs_from u tm ids k 1 out)"
proof -
  obtain cands co played where c:
    "best_first (w_games w) is_published popularity_key (gen_catalogue_limit gen) cands"
    "co_counts w u (fset (owned q)) co"
    "explained (gen_explain gen) (rank (gen_scorer gen) q cands co limit) played = Inr out"
    using assms(4) by (auto simp: shortlist_def assms(3))
  let ?ranked = "rank (gen_scorer gen) q cands co limit"
  let ?recs = "recs_from u tm ids k 1 out"
  have wf: "wf_world w" using assms(1) by (simp add: store_sound_def)
  have cand: "w_games w (game_id g) = Some g \<and> is_published g \<and> wf_game g" if "g \<in> set cands" for g
  proof -
    have "is_published g" "g \<in> ran (w_games w)" using best_first_set [OF c(1) that] by auto
    then show ?thesis using wf_worldD(1) [OF wf] by (fastforce simp: ran_def)
  qed
  then have inj: "inj_on game_id (set cands)" by (metis inj_onI option.inject)
  have co: "0 \<le> dget (collaborative_scores co) h 0 \<and> dget (collaborative_scores co) h 0 < 1" for h
    using c(2) by (simp add: co_counts_def collaborative_range)
  have same: "map (\<lambda>i. (sg_game i, sg_content i, sg_collaborative i)) out =
      map (\<lambda>i. (sg_game i, sg_content i, sg_collaborative i)) ?ranked"
    by (rule explained_map [OF c(3)]) simp
  have len: "length out = length ?ranked" using arg_cong [OF same, of length] by simp
  have each: "\<exists>j \<in> set ?ranked. sg_game i = sg_game j \<and> sg_content i = sg_content j \<and> sg_collaborative i = sg_collaborative j"
    if "i \<in> set out" for i
    using that arg_cong [OF same, of set] by force
  have ids: "map rec_game_id ?recs = map (\<lambda>i. game_id (sg_game i)) ?ranked"
    unfolding recs_from_maps by (rule explained_map [OF c(3)]) simp
  have scores: "map (\<lambda>r. - rec_score r) ?recs = map (\<lambda>i. - blend (sg_content i) (sg_collaborative i)) ?ranked"
  proof -
    have "map (\<lambda>r. - rec_score r) ?recs = map uminus (map rec_score ?recs)" by simp
    also have "map rec_score ?recs = map (\<lambda>i. blend (sg_content i) (sg_collaborative i)) ?ranked"
      unfolding recs_from_maps by (rule explained_map [OF c(3)]) simp
    finally show ?thesis by simp
  qed
  have "\<forall>r \<in> set ?recs. rec_user_id r = u \<and> 0 < rec_score r \<and> rec_score r < 1 \<and> rec_source r \<noteq> FALLBACK \<and>
      \<not> owns (pref_of w u) (rec_game_id r) \<and>
      (\<exists>gm. w_games w (rec_game_id r) = Some gm \<and> is_published gm)"
  proof
    fix r assume "r \<in> set ?recs"
    then obtain i e rk where i: "i \<in> set out" "r = rec_at u tm e rk i" using recs_from_mem by blast
    then obtain j where j: "j \<in> set ?ranked" "sg_game i = sg_game j" "sg_content i = sg_content j"
      "sg_collaborative i = sg_collaborative j" using each by blast
    then obtain g where g: "g \<in> set cands" "score_candidate (gen_scorer gen) q (collaborative_scores co) g = Some j"
      using set_rank by blast
    note sc = score_candidate_SomeD [OF g(2)]
    have "blend (sg_content j) (sg_collaborative j) < 1"
      using content_scorer.blend_range(2) [OF sound_scorer [OF assms(5)] assms(2)] cand [OF g(1)] co
      by (simp add: sc)
    moreover have "sg_source i \<noteq> FALLBACK" by (simp add: sg_source_def)
    moreover have "\<not> owns (pref_of w u) (game_id g)" using sc(3) assms(7) by (simp add: owns_def)
    ultimately show "rec_user_id r = u \<and> 0 < rec_score r \<and> rec_score r < 1 \<and> rec_source r \<noteq> FALLBACK \<and>
      \<not> owns (pref_of w u) (rec_game_id r) \<and> (\<exists>gm. w_games w (rec_game_id r) = Some gm \<and> is_published gm)"
      using i j sc cand [OF g(1)] by (simp add: rec_at_def)
  qed
  moreover have "distinct (map rec_game_id ?recs)"
    unfolding ids using best_first_sorted [OF c(1)] inj by (simp add: rank_distinct)
  moreover have "sorted (map (\<lambda>r. - rec_score r) ?recs)"
    unfolding scores by (rule sorted_map_le [OF rank_sorted]) (rule rank_key_score)
  moreover have "int (length ?recs) \<le> limit"
    using rank_length [OF assms(6), of "gen_scorer gen" q cands co] assms(6) by (simp add: recs_from_maps(1) len)
  moreover have "map rec_rank ?recs = map (\<lambda>j. 1 + int j) [0..<length ?recs]"
    by (simp only: recs_from_ranks recs_from_maps(1))
  ultimately show ?thesis by (simp add: list_ok_def)
qed

text \<open>A non-empty list is announced by one event, an empty one by none.\<close>

definition announced ::
  "user_id \<Rightarrow> recommendation list \<Rightarrow> event_stamp \<Rightarrow> (uuid \<rightharpoonup> outbox_record) \<Rightarrow> (uuid \<rightharpoonup> outbox_record) \<Rightarrow> bool" where
  "announced u recs stamp ob ob' \<longleftrightarrow>
     (if recs = [] then ob' = ob
      else \<exists>topic cid. ob' = ob(stamp_event_id stamp \<mapsto>
        outbox_record_of topic cid (recommendation_generated_of u recs stamp)))"

text \<open>What one successful generation does to the world.\<close>

definition generation ::
  "nat \<Rightarrow> user_id \<Rightarrow> int \<Rightarrow> recommendation list \<Rightarrow> event_stamp \<Rightarrow> world \<Rightarrow> world \<Rightarrow> bool" where
  "generation n u limit recs stamp w w' \<longleftrightarrow> store_sound n w' \<and> list_ok w u limit recs \<and>
     w_recs w' = (w_recs w)(u := recs) \<and> w_games w' = w_games w \<and> w_owners w' = w_owners w \<and>
     w_processed w' = w_processed w \<and> (\<forall>v. owns (pref_of w' v) = owns (pref_of w v)) \<and>
     (is_cold (pref_of w u) \<longrightarrow> recs = []) \<and>
     announced u recs stamp (w_outbox w) (w_outbox w')"

text \<open>What a sweep over \<open>us\<close> does; \<open>safe\<close> says that no explanation raises.\<close>

definition swept :: "nat \<Rightarrow> user_id list \<Rightarrow> int \<Rightarrow> bool \<Rightarrow> world \<Rightarrow> world \<Rightarrow> bool" where
  "swept n us limit safe w w' \<longleftrightarrow> store_sound n w' \<and> w_games w' = w_games w \<and> w_owners w' = w_owners w \<and>
     (\<forall>v. owns (pref_of w' v) = owns (pref_of w v)) \<and>
     (\<forall>u. u \<notin> set us \<longrightarrow> w_recs w' u = w_recs w u) \<and>
     (\<forall>u \<in> set us. list_ok w u limit (w_recs w' u) \<or> \<not> safe \<and> w_recs w' u = w_recs w u)"

lemma store_sound_cong:
  "w_games v = w_games w \<Longrightarrow> w_prefs v = w_prefs w \<Longrightarrow> w_owners v = w_owners w \<Longrightarrow>
     store_sound n v = store_sound n w"
  by (simp add: store_sound_def wf_world_def one_width_def credited_def pref_of_def)

lemma publishes_frame:
  assumes "publishes u recs stamp w1 w'"
  shows "w_games w' = w_games w1" "w_prefs w' = w_prefs w1" "w_owners w' = w_owners w1"
    "w_processed w' = w_processed w1" "w_recs w' = (w_recs w1)(u := recs)"
    "announced u recs stamp (w_outbox w1) (w_outbox w')"
proof -
  show "announced u recs stamp (w_outbox w1) (w_outbox w')"
    using assms unfolding publishes_def announced_def
    by (cases "recs = []") (simp, metis (no_types) world.select_convs(5) world.surjective world.update_convs(4,5))
qed (use assms in \<open>auto simp: publishes_def split: if_splits\<close>)

lemma generation_publishes:
  assumes p: "publishes u recs stamp w1 w'" and w1: "store_sound n w1" "w_games w1 = w_games w"
    "\<And>v. owns (pref_of w1 v) = owns (pref_of w v)" "w_processed w1 = w_processed w" "w_owners w1 = w_owners w"
    "w_recs w1 = w_recs w" "w_outbox w1 = w_outbox w"
    and "\<not> is_cold (pref_of w u)" "list_ok w u limit recs"
  shows "generation n u limit recs stamp w w'"
proof -
  note f = publishes_frame [OF p]
  have "store_sound n w'" using store_sound_cong [OF f(1-3)] w1(1) by simp
  moreover have "pref_of w' v = pref_of w1 v" for v by (simp add: pref_of_def f(2))
  ultimately show ?thesis using f w1(2-) assms(9,10) by (simp add: generation_def)
qed

text \<open>The store with the vectors \<open>vs\<close> given to the games \<open>gs\<close>, in turn.\<close>

definition with_vectors :: "game_profile list \<Rightarrow> real list list \<Rightarrow> world \<Rightarrow> world" where
  "with_vectors gs vs w = fold (\<lambda>(g, v). put_game (g\<lparr>dense := dense_of v\<rparr>)) (zip gs vs) w"

lemma list_ok_cong:
  assumes "w_games w = w_games v" "\<And>x. owns (pref_of w x) = owns (pref_of v x)"
  shows "list_ok w u limit recs = list_ok v u limit recs"
  by (simp add: list_ok_def assms)

lemma swept_Cons:
  assumes g: "generation n u limit recs stamp w w1" and s: "swept n us limit safe w1 w'" and u: "u \<notin> set us"
  shows "swept n (u # us) limit safe w w'"
proof -
  have games: "w_games w1 = w_games w" "w_games w' = w_games w" and own: "w_owners w' = w_owners w"
    and owns: "owns (pref_of w1 v) = owns (pref_of w v)" "owns (pref_of w' v) = owns (pref_of w v)" for v
    using g s by (simp_all add: generation_def swept_def)
  have "w_recs w' v = w_recs w v" if "v \<notin> set (u # us)" for v
    using that g s by (simp add: generation_def swept_def)
  moreover have "list_ok w v limit (w_recs w' v) \<or> \<not> safe \<and> w_recs w' v = w_recs w v" if "v \<in> set (u # us)" for v
  proof (cases "v = u")
    case True
    then show ?thesis using g s u by (simp add: generation_def swept_def)
  next
    case False
    then have "list_ok w1 v limit (w_recs w' v) \<or> \<not> safe \<and> w_recs w' v = w_recs w1 v"
      using that s by (simp add: swept_def)
    with False g show ?thesis using list_ok_cong [OF games(1) owns(1)] by (simp add: generation_def)
  qed
  ultimately show ?thesis using s games own owns by (simp add: swept_def)
qed

context unit_of_work
begin

lemma generate_cold:
  assumes "db_ok db" "is_cold (pref_of (db_view db) u)"
  shows "\<exists>db'. generate ops gen cid u limit (db, ss) = (Inr 0, db', ss) \<and> db_ok db' \<and>
    db_view db' = (db_view db)\<lparr>w_recs := (w_recs (db_view db))(u := [])\<rparr>"
proof -
  let ?s = "uow_open ops cid db"
  note opened = open_txn [OF assms(1), of cid] open_view [OF assms(1), of cid]
  have "generate_body ops gen u limit ?s ss = (Inr 0, recs_replace_for ops ?s u [], ss)"
    using assms(2) pref_of_view [OF opened(1), of u] opened(2) by (simp add: generate_body_def)
  then show ?thesis
    using commit_ok [OF replace_txn [OF opened(1)]] commit_view [OF replace_txn [OF opened(1)]]
      replace_view [OF opened(1), of u "[]"] opened(2)
    by (simp add: generate_def)
qed

lemma rebuild_step:
  assumes "txn db s" "own_clean s" "store_sound n (view s)"
  obtains q s1 where
    "(if gen_dense_space gen
      then bindE (rebuilt_in (pref_of (view s) u) (space_of (games_by_ids ops s (remembered_games (pref_of (view s) u)))))
        (\<lambda>q. Inr (q, prefs_upsert ops s q))
      else Inr (pref_of (view s) u, s)) = Inr (q, s1)"
    "pref_user_id q = u" "refreshed gen n (view s) q (view s1)" "txn db s1" "own_clean s1"
proof -
  let ?p = "pref_of (view s) u" and ?played = "games_by_ids ops s (remembered_games (pref_of (view s) u))"
  note snd = store_soundD [OF assms(3)]
  have pid: "pref_user_id ?p = u" using pref_of_wf [OF snd(1)] by simp
  have "\<forall>g \<in> set ?played. at_width n (dense g)"
    using by_ids [OF assms(1) distinct_remembered_games [of ?p]] one_width_game [OF snd(2)] by auto
  then obtain q where q: "rebuilt_in ?p (space_of ?played) = Inr q" "at_width n (taste_dense q)"
    "q = ?p\<lparr>taste_dense := taste_dense q\<rparr>"
    using rebuilt_total [of "space_of ?played" n ?p] space_of_game [of ?played n] by blast
  have qid: "pref_user_id q = u" using q(3) pid by (metis user_preference.ext_inject user_preference.surjective user_preference.update_convs(3))
  show thesis
  proof (cases "gen_dense_space gen")
    case True
    show thesis
      by (rule that [of q "prefs_upsert ops s q"])
         (use True q qid assms(1,2) in \<open>auto simp: refreshed_def put_views [where db = db] upsert_pref_txn
            upsert_pref_clean\<close>)
  next
    case False
    show thesis
      by (rule that [of ?p s]) (use False pid assms(1,2) in \<open>auto simp: refreshed_def intro: exI [of _ "taste_dense ?p"]\<close>)
  qed
qed

lemma shortlist_step:
  assumes "txn db s" "own_clean s" "pref_user_id p = u"
    and "explained (gen_explain gen) (rank (gen_scorer gen) p (games_recommendable ops s (gen_catalogue_limit gen))
      (owners_co_purchases ops s u (library p) MAX_COLLABORATIVE_CANDIDATES) limit) played = Inr out"
  shows "shortlist (view s) gen p limit out"
proof -
  let ?co = "owners_co_purchases ops s u (library p) MAX_COLLABORATIVE_CANDIDATES"
  obtain full where full: "dict_ok full" "?co = take (nat MAX_COLLABORATIVE_CANDIDATES) full"
    "\<And>h. map_of full h = (let n = int (card (co_owners (w_owners (view s)) u (set (library p)) h)) in
       if n = 0 then None else Some n)"
    using co_purchases [OF assms(1,2), where u = u and mine = "library p" and limit = MAX_COLLABORATIVE_CANDIDATES]
    by blast
  have "co_counts (view s) u (fset (owned p)) ?co"
    unfolding co_counts_def
  proof (intro conjI allI impI)
    show "dict_ok ?co" using full(1) by (simp add: full(2) take_map [symmetric])
    fix h m assume "map_of ?co h = Some m"
    then have "map_of full h = Some m" using map_of_take [OF full(1)] by (simp add: full(2))
    then show "m = int (card (co_owners (w_owners (view s)) u (fset (owned p)) h))" "0 < m"
      using full(3) [of h] by (auto simp: Let_def set_library split: if_splits)
  qed
  with assms(4) recommendable [OF assms(1)] show ?thesis
    by (auto simp: shortlist_def assms(3))
qed

lemma generate_warm:
  assumes "db_ok db" "store_sound n (db_view db)" "\<not> is_cold (pref_of (db_view db) u)"
  shows "(\<exists>x. generate ops gen cid u limit (db, ss) = (Inl x, db, ss) \<and> \<not> explains_safely (gen_explain gen)) \<or>
    (\<exists>db' ss' q w1 tm out recs stamp. generate ops gen cid u limit (db, ss) = (Inr (int (length recs)), db', ss') \<and>
    db_ok db' \<and> pref_user_id q = u \<and> refreshed gen n (db_view db) q w1 \<and> shortlist w1 gen q limit out \<and>
    recs = recs_from u tm (uuids ss) (drawn ss) 1 out \<and> publishes u recs stamp w1 (db_view db'))"
proof -
  let ?s = "uow_open ops cid db"
  note opened = open_txn [OF assms(1), of cid] open_view [OF assms(1), of cid] open_clean [OF assms(1), of cid]
  let ?played = "games_by_ids ops ?s (remembered_games (pref_of (view ?s) u))"
  obtain q s1 where q: "(if gen_dense_space gen
      then bindE (rebuilt_in (pref_of (view ?s) u) (space_of ?played)) (\<lambda>q. Inr (q, prefs_upsert ops ?s q))
      else Inr (pref_of (view ?s) u, ?s)) = Inr (q, s1)"
    "pref_user_id q = u" "refreshed gen n (view ?s) q (view s1)" "txn db s1" "own_clean s1"
    by (rule rebuild_step [OF opened(1,3), where n = n and gen = gen and u = u]) (use assms(2) opened(2) in auto)
  let ?ranked = "rank (gen_scorer gen) q (games_recommendable ops s1 (gen_catalogue_limit gen))
    (owners_co_purchases ops s1 u (library q) MAX_COLLABORATIVE_CANDIDATES) limit"
  have p: "preference_or_blank ops ?s u = pref_of (view ?s) u" by (rule pref_of_view [OF opened(1)])
  show ?thesis
  proof (cases "explained (gen_explain gen) ?ranked ?played")
    case (Inl x)
    then have "generate_body ops gen u limit ?s ss = (Inl x, s1, ss)"
      unfolding generate_body_def p Let_def using assms(3) q(1) by (simp add: opened(2))
    then have "generate ops gen cid u limit (db, ss) = (Inl x, db, ss)"
      by (simp add: generate_def exit_rollback [OF q(4)])
    moreover have "\<not> explains_safely (gen_explain gen)"
      using Inl explained_total [of "gen_explain gen" ?ranked ?played] by auto
    ultimately show ?thesis by blast
  next
    case out: (Inr out)
    have "map (\<lambda>i. blend (sg_content i) (sg_collaborative i)) out =
        map (\<lambda>i. blend (sg_content i) (sg_collaborative i)) ?ranked"
      by (rule explained_map [OF out]) simp
    from arg_cong [OF this, of set]
    have img: "(\<lambda>i. blend (sg_content i) (sg_collaborative i)) ` set out =
        (\<lambda>i. blend (sg_content i) (sg_collaborative i)) ` set ?ranked" by simp
    have pos: "\<forall>i \<in> set out. 0 \<le> blend (sg_content i) (sg_collaborative i)"
    proof
      fix i assume "i \<in> set out"
      then obtain j where "j \<in> set ?ranked"
        "blend (sg_content i) (sg_collaborative i) = blend (sg_content j) (sg_collaborative j)"
        using img by blast
      then show "0 \<le> blend (sg_content i) (sg_collaborative i)" using rank_positive [of j] by fastforce
    qed
    define tm where "tm = fst (stamps_now ss)"
    define ss1 where "ss1 = (snd (stamps_now ss))\<lparr>drawn := drawn ss + length out\<rparr>"
    define recs where "recs = recs_from u tm (uuids ss) (drawn ss) 1 out"
    have build: "build_recommendations u tm 1 out (snd (stamps_now ss)) = (Inr recs, ss1)"
      unfolding recs_def ss1_def by (subst build_total [OF pos]) (simp_all add: stamps_now_def)
    define stamp where "stamp = fst (stamps_next ss1)"
    let ?s2 = "recs_replace_for ops s1 u recs"
    let ?s3 = "if recs = [] then ?s2 else outbox_enqueue ops ?s2 [recommendation_generated_of u recs stamp]"
    define ss3 where "ss3 = (if recs = [] then ss1 else snd (stamps_next ss1))"
    have "generate_body ops gen u limit ?s ss = (Inr (int (length recs)), ?s3, ss3)"
      unfolding generate_body_def p Let_def
      using assms(3) q(1) out build
      by (simp add: opened(2) tm_def stamp_def ss3_def case_prod_beta)
    then have gen: "generate ops gen cid u limit (db, ss) =
        (Inr (int (length recs)), uow_exit ops (uow_commit ops ?s3), ss3)"
      by (simp add: generate_def)
    have t: "txn db ?s2" "txn db ?s3" using q(4) by (simp_all add: replace_txn enqueue_txn)
    have "publishes u recs stamp (view s1) (view ?s3)"
      using enqueue_view [OF t(1), of "[recommendation_generated_of u recs stamp]"] replace_view [OF q(4), of u recs]
      by (auto simp: publishes_def recommendation_generated_of_def)
    with gen q(2,3) shortlist_step [OF q(4,5,2) out] commit_ok [OF t(2)] commit_view [OF t(2)] opened(2) recs_def
    show ?thesis by metis
  qed
qed

lemma generate_sound:
  assumes "db_ok db" "store_sound n (db_view db)" "sound_scorer (gen_scorer gen)" "0 \<le> limit"
  shows "(\<exists>x. generate ops gen cid u limit (db, ss) = (Inl x, db, ss) \<and> \<not> explains_safely (gen_explain gen)) \<or>
    (\<exists>db' ss' recs stamp. generate ops gen cid u limit (db, ss) = (Inr (int (length recs)), db', ss') \<and>
      db_ok db' \<and> generation n u limit recs stamp (db_view db) (db_view db'))"
proof (cases "is_cold (pref_of (db_view db) u)")
  case True
  let ?w' = "(db_view db)\<lparr>w_recs := (w_recs (db_view db))(u := [])\<rparr>"
  from generate_cold [OF assms(1) True] obtain db' where
    "generate ops gen cid u limit (db, ss) = (Inr 0, db', ss)" "db_ok db'" "db_view db' = ?w'"
    by blast
  moreover have "generation n u limit [] stamp (db_view db) ?w'" for stamp
    using assms(2,4) by (auto simp: generation_def list_ok_def store_sound_def wf_world_def one_width_def
        credited_def pref_of_def announced_def)
  ultimately show ?thesis by force
next
  case False
  from generate_warm [OF assms(1,2) False, of gen cid limit ss] show ?thesis
  proof (elim disjE exE conjE)
    fix db' ss' q w1 tm out recs stamp
    assume a: "generate ops gen cid u limit (db, ss) = (Inr (int (length recs)), db', ss')" "db_ok db'"
      "pref_user_id q = u" "refreshed gen n (db_view db) q w1" "shortlist w1 gen q limit out"
      "recs = recs_from u tm (uuids ss) (drawn ss) 1 out" "publishes u recs stamp w1 (db_view db')"
    note r = refreshed_sound [OF assms(2) a(3,4)]
    have "owned q = owned (pref_of w1 u)" using r(6) r(7) [of u] by (simp add: owns_def fun_eq_iff fset_eq_iff)
    then have "list_ok w1 u limit recs"
      unfolding a(6) using shortlist_list_ok [OF r(1,5) a(3,5) assms(3,4)] by simp
    then have "list_ok (db_view db) u limit recs" using r(2,7) by (simp add: list_ok_def)
    then have "generation n u limit recs stamp (db_view db) (db_view db')"
      by (rule generation_publishes [OF a(7) r(1,2,7,8,9,3,4) False])
    then show ?thesis using a(1,2) by blast
  qed blast
qed

lemma sweep_sound:
  assumes "db_ok db" "store_sound n (db_view db)" "sound_scorer (gen_scorer gen)" "0 \<le> limit" "distinct us"
  shows "\<exists>k m db' ss'. sweep ops gen cid limit us (p, wr) (db, ss) = ((p + int k, m), db', ss') \<and> db_ok db' \<and>
    k \<le> length us \<and> (explains_safely (gen_explain gen) \<longrightarrow> k = length us) \<and>
    swept n us limit (explains_safely (gen_explain gen)) (db_view db) (db_view db')"
  using assms(1,2,5)
proof (induction us arbitrary: p wr db ss)
  case Nil
  then show ?case by (auto simp: swept_def)
next
  case (Cons u us)
  have d: "u \<notin> set us" "distinct us" using Cons.prems(3) by auto
  from generate_sound [OF Cons.prems(1,2) assms(3,4), of cid u ss] show ?case
  proof (elim disjE exE conjE)
    fix x
    assume a: "generate ops gen cid u limit (db, ss) = (Inl x, db, ss)" "\<not> explains_safely (gen_explain gen)"
    from Cons.IH [OF Cons.prems(1,2) d(2), of p wr ss] obtain k m db' ss' where
      "sweep ops gen cid limit us (p, wr) (db, ss) = ((p + int k, m), db', ss')" "db_ok db'" "k \<le> length us"
      "swept n us limit (explains_safely (gen_explain gen)) (db_view db) (db_view db')" by blast
    with a d(1) show ?thesis by (intro exI [of _ k] exI [of _ m]) (auto simp: swept_def)
  next
    fix db1 ss1 recs stamp
    assume a: "generate ops gen cid u limit (db, ss) = (Inr (int (length recs)), db1, ss1)" "db_ok db1"
      "generation n u limit recs stamp (db_view db) (db_view db1)"
    have snd: "store_sound n (db_view db1)" using a(3) by (simp add: generation_def)
    from Cons.IH [OF a(2) snd d(2), of "p + 1" "wr + int (length recs)" ss1] obtain k m db' ss' where
      b: "sweep ops gen cid limit us (p + 1, wr + int (length recs)) (db1, ss1) = ((p + 1 + int k, m), db', ss')"
      "db_ok db'" "k \<le> length us" "explains_safely (gen_explain gen) \<longrightarrow> k = length us"
      "swept n us limit (explains_safely (gen_explain gen)) (db_view db1) (db_view db')" by blast
    have "swept n (u # us) limit (explains_safely (gen_explain gen)) (db_view db) (db_view db')"
      by (rule swept_Cons [OF a(3) b(5) d(1)])
    with a(1) b(1-4) show ?thesis by (intro exI [of _ "Suc k"] exI [of _ m]) auto
  qed
qed

lemma embed_each_spec:
  assumes "txn db s" "\<forall>g \<in> set gs. wf_game g"
  shows "if length vs = length gs
    then \<exists>s'. embed_each ops gs vs s = (Inr (), s') \<and> txn db s' \<and> view s' = with_vectors gs vs (view s)
    else \<exists>m s'. embed_each ops gs vs s = (Inl (ValueError m), s') \<and> txn db s'"
  using assms
proof (induction gs arbitrary: vs s)
  case Nil
  then show ?case by (cases vs) (auto simp: with_vectors_def)
next
  case (Cons g gs)
  show ?case
  proof (cases vs)
    case Nil
    then show ?thesis using Cons.prems by simp
  next
    case v: (Cons v vs')
    let ?g = "g\<lparr>dense := dense_of v\<rparr>"
    have "embedded g (dense_of v) = Inr ?g" using Cons.prems(2) by (simp add: embedded_wf)
    moreover have "view (games_upsert ops s ?g) = put_game ?g (view s)"
      by (rule put_views(1) [OF Cons.prems(1)])
    ultimately show ?thesis
      using Cons.IH [where s = "games_upsert ops s ?g" and vs = vs'] upsert_game_txn [OF Cons.prems(1), of ?g] Cons.prems(2)
      by (auto simp: v with_vectors_def split: if_splits)
  qed
qed

lemma embed_pending_spec:
  assumes "db_ok db" "store_sound n (db_view db)"
  shows "\<exists>pending. best_first (w_games (db_view db)) needs_embedding popularity_key batch pending \<and>
    (if pending = [] then embed_pending ops provider batch cid db = (Inr 0, db)
     else case provider (map embedding_text pending) of
         Inl x \<Rightarrow> embed_pending ops provider batch cid db = (Inr 0, db)
       | Inr vs \<Rightarrow>
           if length vs = length pending
           then \<exists>db'. embed_pending ops provider batch cid db = (Inr (int (length pending)), db') \<and> db_ok db' \<and>
             db_view db' = with_vectors pending vs (db_view db)
           else \<exists>m. embed_pending ops provider batch cid db = (Inl (ValueError m), db))"
proof -
  let ?s = "uow_open ops cid db"
  note opened = open_txn [OF assms(1), of cid] open_view [OF assms(1), of cid]
  define pending where "pending = games_needing_embedding ops ?s batch"
  have bf: "best_first (w_games (db_view db)) needs_embedding popularity_key batch pending"
    using needing_embedding [OF opened(1), of batch] by (simp add: pending_def opened(2))
  have wf: "\<forall>g \<in> set pending. wf_game g"
    using best_first_set [OF bf] wf_worldD(1) [OF store_soundD(1) [OF assms(2)]] by (fastforce simp: ran_def)
  have exit: "uow_exit ops ?s = db" by (rule exit_rollback [OF opened(1)])
  have body: "embed_pending ops provider batch cid db =
      (if pending = [] then (Inr 0, db)
       else case provider (map embedding_text pending) of
           Inl x \<Rightarrow> (Inr 0, db)
         | Inr vs \<Rightarrow> with_uow ops cid (\<lambda>s. case embed_each ops pending vs s of
               (Inl x, s) \<Rightarrow> (Inl x, s) | (Inr _, s) \<Rightarrow> (Inr (int (length pending)), uow_commit ops s)) db)"
    unfolding embed_pending_def Let_def pending_def [symmetric] exit ..
  show ?thesis
  proof (cases "pending \<noteq> [] \<and> (\<exists>vs. provider (map embedding_text pending) = Inr vs)")
    case False
    with bf body show ?thesis
      by (intro exI [of _ pending]) (cases "provider (map embedding_text pending)"; simp)
  next
    case True
    then obtain vs where vs: "provider (map embedding_text pending) = Inr vs" by blast
    note step = embed_each_spec [OF opened(1) wf, of vs]
    show ?thesis
    proof (cases "length vs = length pending")
      case same: True
      with step obtain s' where "embed_each ops pending vs ?s = (Inr (), s')" "txn db s'"
        "view s' = with_vectors pending vs (db_view db)"
        by (auto simp: opened(2))
      then show ?thesis using True vs bf same commit_ok [of db s'] commit_view [of db s']
        by (intro exI [of _ pending]) (simp add: body with_uow_def)
    next
      case diff: False
      with step obtain m s' where "embed_each ops pending vs ?s = (Inl (ValueError m), s')" "txn db s'" by auto
      then show ?thesis using True vs bf diff exit_rollback [of db s']
        by (intro exI [of _ pending]) (simp add: body with_uow_def)
    qed
  qed
qed

end

section \<open>Generation on the in-memory backend\<close>

definition sample_generator :: generator where
  "sample_generator = \<lparr>gen_scorer = content_based_scorer, gen_catalogue_limit = 500, gen_explain = None,
     gen_dense_space = False\<rparr>"

definition sample_stamps :: stamps where
  "sample_stamps = \<lparr>clock = (\<lambda>k. utc (int k)), uuids = of_nat, readings = 0, drawn = 0\<rparr>"

lemma sample_generator_ok [simp]:
  "sound_scorer (gen_scorer sample_generator)" "explains_safely (gen_explain sample_generator)"
  by (simp_all add: sample_generator_def sound_scorer_def explains_safely_def)

text \<open>C2: the stored list. From a sound store, with an explanation model that does not raise, generating
  for \<open>u\<close> succeeds, keeps the store sound, and replaces the list of \<open>u\<close> and no other. The ranks of the new
  list are \<open>1, 2, ...\<close>, it is at most \<open>limit\<close> long, its games are distinct, published and not owned by
  \<open>u\<close>, its scores lie in \<open>(0, 1)\<close> and descend, and no entry is labelled \<open>FALLBACK\<close>.\<close>

theorem generated_list:
  assumes "store_ok st" "store_sound n (store_view st)" "sound_scorer (gen_scorer gen)" "0 \<le> limit"
    and "explains_safely (gen_explain gen)"
  shows "\<exists>st' ss' recs. generate (memory_ops iu ig topic) gen cid u limit (st, ss) = (Inr (int (length recs)), st', ss') \<and>
    store_ok st' \<and> store_sound n (store_view st') \<and>
    w_recs (store_view st') = (w_recs (store_view st))(u := recs) \<and> list_ok (store_view st) u limit recs"
  using mem.generate_sound [OF assms(1-4), of iu ig topic cid u ss] assms(5)
  by (auto simp: generation_def)

lemma generated_list_witness:
  "\<exists>st' ss' recs. generate (memory_ops ascending ascending ''reco'') sample_generator None (UserId 7) 10
     (sample_store, sample_stamps) = (Inr (int (length recs)), st', ss') \<and> store_ok st' \<and>
     list_ok (store_view sample_store) (UserId 7) 10 recs"
  using generated_list [OF sample_stores_ok(1) sample_store_sound sample_generator_ok(1), of 10,
      where iu = ascending and ig = ascending and topic = "''reco''" and cid = None and ss = sample_stamps and u = "UserId 7"]
  by auto

text \<open>C18: the event of a list. A generation that stores a non-empty list puts exactly one record into the
  outbox, pending and unattempted, whose envelope carries that list; a generation that stores an empty
  list, which includes every cold user's, puts none there. Games, ownerships and libraries do not change.\<close>

theorem generated_event:
  assumes "store_ok st" "store_sound n (store_view st)" "sound_scorer (gen_scorer gen)" "0 \<le> limit"
    and "explains_safely (gen_explain gen)"
  shows "\<exists>st' ss' recs stamp. generate (memory_ops iu ig topic) gen cid u limit (st, ss) = (Inr (int (length recs)), st', ss') \<and>
    w_recs (store_view st') u = recs \<and> (is_cold (pref_of (store_view st) u) \<longrightarrow> recs = []) \<and>
    announced u recs stamp (w_outbox (store_view st)) (w_outbox (store_view st')) \<and>
    w_games (store_view st') = w_games (store_view st) \<and> w_owners (store_view st') = w_owners (store_view st) \<and>
    (\<forall>v. owns (pref_of (store_view st') v) = owns (pref_of (store_view st) v))"
proof -
  obtain st' ss' recs stamp where
    "generate (memory_ops iu ig topic) gen cid u limit (st, ss) = (Inr (int (length recs)), st', ss')"
    "generation n u limit recs stamp (store_view st) (store_view st')"
    using mem.generate_sound [OF assms(1-4), of iu ig topic cid u ss] assms(5) by auto
  then show ?thesis
    by (intro exI [of _ st'] exI [of _ ss'] exI [of _ recs] exI [of _ stamp]) (auto simp: generation_def)
qed

lemma generated_event_witness:
  "\<exists>st' ss'. generate (memory_ops ascending ascending ''reco'') sample_generator None (UserId 7) 10
     (sample_store, sample_stamps) = (Inr 0, st', ss') \<and>
     w_outbox (store_view st') = w_outbox (store_view sample_store)"
proof -
  have "is_cold (blank (UserId 7))" by (simp add: is_cold_def blank_def)
  then show ?thesis
    using generated_event [OF sample_stores_ok(1) sample_store_sound sample_generator_ok(1), of 10,
        where iu = ascending and ig = ascending and topic = "''reco''" and cid = None and ss = sample_stamps and u = "UserId 7"]
    by (auto simp: sample_views announced_def)
qed



text \<open>C20: the embedding stage. It asks the provider for one batch of published games without a vector, most
  popular first. A provider that raises costs nothing: the stage reports zero and the store is as it was.
  An answer of the right length gives each game its vector in turn; an answer of another length raises
  \<open>ValueError\<close> and, although it raises half way through the upserts, leaves the store as it was.\<close>

theorem embedding_stage:
  assumes "store_ok st" "store_sound n (store_view st)"
  shows "\<exists>pending. best_first (w_games (store_view st)) needs_embedding popularity_key batch pending \<and>
    (if pending = [] then embed_pending (memory_ops iu ig topic) provider batch cid st = (Inr 0, st)
     else case provider (map embedding_text pending) of
         Inl x \<Rightarrow> embed_pending (memory_ops iu ig topic) provider batch cid st = (Inr 0, st)
       | Inr vs \<Rightarrow>
           if length vs = length pending
           then \<exists>st'. embed_pending (memory_ops iu ig topic) provider batch cid st = (Inr (int (length pending)), st') \<and>
             store_ok st' \<and> store_view st' = with_vectors pending vs (store_view st)
           else \<exists>m. embed_pending (memory_ops iu ig topic) provider batch cid st = (Inl (ValueError m), st))"
  using assms by (rule mem.embed_pending_spec)

lemma embedding_stage_witness:
  "embed_pending (memory_ops ascending ascending ''reco'') (\<lambda>texts. Inl (ProviderUnavailableError ''down'')) 32 None
     sample_store = (Inr 0, sample_store)"
  using embedding_stage [OF sample_stores_ok(1) sample_store_sound,
      where iu = ascending and ig = ascending and topic = "''reco''" and cid = None and batch = 32 and
        provider = "\<lambda>texts. Inl (ProviderUnavailableError ''down'')"]
  by (auto split: if_splits)

text \<open>An embedding outage does not reach the sweep. When the provider fails on every call, refreshing
  everybody gives the same report and the same store as an instance without a provider.\<close>

lemma outage_does_not_reach_the_sweep:
  assumes "store_ok st" "store_sound n (store_view st)" "\<forall>texts. \<exists>x. provider texts = Inl x"
  shows "refresh_all (memory_ops iu ig topic) gen (Some (provider, chunk)) batch cid limit (st, ss) =
    refresh_all (memory_ops iu ig topic) gen None batch cid limit (st, ss)"
proof -
  obtain pending where "if pending = [] then embed_pending (memory_ops iu ig topic) provider chunk cid st = (Inr 0, st)
     else case provider (map embedding_text pending) of
         Inl x \<Rightarrow> embed_pending (memory_ops iu ig topic) provider chunk cid st = (Inr 0, st) | Inr vs \<Rightarrow> True"
    using mem.embed_pending_spec [OF assms(1,2), of chunk iu ig topic provider cid]
    by (metis (no_types, lifting) assms(3) sum.case(1))
  moreover obtain x where "provider (map embedding_text pending) = Inl x" using assms(3) by blast
  ultimately have "embed_pending (memory_ops iu ig topic) provider chunk cid st = (Inr 0, st)"
    by (auto split: if_splits)
  then show ?thesis by (simp add: refresh_all_def embed_first_def)
qed

lemma outage_does_not_reach_the_sweep_witness:
  "refresh_all (memory_ops ascending ascending ''reco'') sample_generator
     (Some (\<lambda>texts. Inl (ProviderUnavailableError ''down''), 32)) 500 None 10 (sample_store, sample_stamps) =
   refresh_all (memory_ops ascending ascending ''reco'') sample_generator None 500 None 10 (sample_store, sample_stamps)"
  by (rule outage_does_not_reach_the_sweep [OF sample_stores_ok(1) sample_store_sound]) simp

end
