(* ===== verification/Serve.thy ===== *)
theory Serve
  imports Refresh
begin

text \<open>
  The read path (\<open>application/usecases/serve.py\<close>) and its wire types
  (\<open>application/dto/recommendation_dto.py\<close>): the stored list of a user, the top sellers when
  there is none, and the neighbours of a game. Every use case opens a unit of work and never
  commits it.
\<close>

section \<open>Wire types\<close>

record recommendation_item =
  ri_game_id :: string
  ri_title :: string
  ri_genres :: "string list"
  ri_score :: real
  ri_source :: recommendation_source
  ri_rank :: int
  ri_reasons :: "string list"

definition item_of :: "recommendation \<Rightarrow> game_profile option \<Rightarrow> recommendation_item" where
  "item_of r game =
     \<lparr>ri_game_id = game_str (rec_game_id r),
      ri_title = (case game of Some g \<Rightarrow> title g | None \<Rightarrow> []),
      ri_genres = (case game of Some g \<Rightarrow> genres g | None \<Rightarrow> []),
      ri_score = round6 (rec_score r), ri_source = rec_source r, ri_rank = rec_rank r,
      ri_reasons = rec_reasons r\<rparr>"

record recommendations_response =
  rs_user_id :: string
  rs_source :: recommendation_source
  rs_generated_at :: "datetime option"
  rs_items :: "recommendation_item list"

definition is_personalised :: "recommendations_response \<Rightarrow> bool" where
  "is_personalised r \<longleftrightarrow> rs_source r \<noteq> FALLBACK"

record similar_game =
  sm_game_id :: string
  sm_title :: string
  sm_genres :: "string list"
  sm_similarity :: real
  sm_shared_features :: "string list"

record similar_games_response =
  sr_game_id :: string
  sr_items :: "similar_game list"

definition items_of :: "recommendation list \<Rightarrow> game_profile list \<Rightarrow> recommendation_item list" where
  "items_of recs games =
     (let catalogue = fold (\<lambda>g m. m(game_id g \<mapsto> g)) games Map.empty
      in map (\<lambda>r. item_of r (catalogue (rec_game_id r))) recs)"

section \<open>Serving a user\<close>

definition dominant_source :: "recommendation list \<Rightarrow> recommendation_source" where
  "dominant_source stored =
     (case remdups (map rec_source stored) of
        [] \<Rightarrow> FALLBACK
      | [s] \<Rightarrow> s
      | _ \<Rightarrow> HYBRID)"

definition popularity_share :: "game_profile \<Rightarrow> game_profile list \<Rightarrow> real" where
  "popularity_share game ranked =
     (let strongest = (case map purchase_count ranked of [] \<Rightarrow> 0 | c # cs \<Rightarrow> fold max cs c) in
      if strongest \<le> 0 then 0 else round6 (of_int (purchase_count game) / of_int strongest))"

definition fallback_item :: "game_profile list \<Rightarrow> nat \<times> game_profile \<Rightarrow> recommendation_item" where
  "fallback_item best = (\<lambda>(k, game).
     \<lparr>ri_game_id = game_str (game_id game), ri_title = title game, ri_genres = genres game,
      ri_score = popularity_share game best, ri_source = FALLBACK, ri_rank = int k, ri_reasons = []\<rparr>)"

definition fallback_response ::
  "('db, 's) uow_ops \<Rightarrow> 's \<Rightarrow> user_id \<Rightarrow> int \<Rightarrow> recommendations_response" where
  "fallback_response ops s u limit =
     (let p = preference_or_blank ops s u;
          best = top_sellers (games_recommendable ops s (max (limit * 4) limit)) p limit
      in \<lparr>rs_user_id = user_str u, rs_source = FALLBACK, rs_generated_at = None,
          rs_items = map (fallback_item best) (enumerate 1 best)\<rparr>)"

definition serve ::
  "('db, 's) uow_ops \<Rightarrow> string option \<Rightarrow> user_id \<Rightarrow> int \<Rightarrow> 'db \<Rightarrow> (exn + recommendations_response) \<times> 'db" where
  "serve ops cid u limit = with_uow ops cid (\<lambda>s.
     let stored = recs_for_user ops s u limit in
     if stored \<noteq> [] then
       let games = games_by_ids ops s (map rec_game_id stored) in
       (Inr \<lparr>rs_user_id = user_str u, rs_source = dominant_source stored,
             rs_generated_at = Some (rec_generated_at (hd stored)), rs_items = items_of stored games\<rparr>, s)
     else (Inr (fallback_response ops s u limit), s))"

section \<open>Similar games\<close>

definition dense_similar :: "game_profile \<Rightarrow> game_profile \<Rightarrow> similar_game" where
  "dense_similar subject c =
     \<lparr>sm_game_id = game_str (game_id c), sm_title = title c, sm_genres = genres c,
      sm_similarity = round6 (dense_cosine (dense subject) (dense c)), sm_shared_features = []\<rparr>"

definition similar_key :: "game_profile \<times> real \<Rightarrow> real \<times> int \<times> string" where
  "similar_key = (\<lambda>(c, x). (- x, - purchase_count c, game_str (game_id c)))"

definition sparse_neighbours :: "game_profile \<Rightarrow> game_id \<Rightarrow> game_profile list \<Rightarrow> int \<Rightarrow> (game_profile \<times> real) list" where
  "sparse_neighbours subject g candidates limit =
     (let scored = map (\<lambda>c. (c, emb_cosine (embedding subject) (embedding c)))
            (filter (\<lambda>c. game_id c \<noteq> g) candidates)
      in py_take limit (sort_key similar_key (filter (\<lambda>(c, x). 0 < x) scored)))"

definition sparse_similar :: "game_profile \<Rightarrow> game_profile \<times> real \<Rightarrow> similar_game" where
  "sparse_similar subject = (\<lambda>(c, x).
     \<lparr>sm_game_id = game_str (game_id c), sm_title = title c, sm_genres = genres c,
      sm_similarity = round6 x, sm_shared_features = emb_overlap (embedding subject) (embedding c)\<rparr>)"

definition list_similar ::
  "('db, 's) uow_ops \<Rightarrow> int \<Rightarrow> bool \<Rightarrow> string option \<Rightarrow> game_id \<Rightarrow> int \<Rightarrow> 'db \<Rightarrow> (exn + similar_games_response) \<times> 'db" where
  "list_similar ops catalogue_limit dense_space cid g limit = with_uow ops cid (\<lambda>s.
     case games_get ops s g of
       None \<Rightarrow> (Inl (NotFound (''game '' @ game_str g @ '' is not known to this service'')), s)
     | Some subject \<Rightarrow>
         if dense_space
         then (Inr \<lparr>sr_game_id = game_str g,
                    sr_items = map (dense_similar subject) (games_nearest_to ops s subject limit)\<rparr>, s)
         else (Inr \<lparr>sr_game_id = game_str g,
                    sr_items = map (sparse_similar subject)
                      (sparse_neighbours subject g (games_recommendable ops s catalogue_limit) limit)\<rparr>, s))"

section \<open>Items\<close>

lemma catalogue_miss: "\<forall>g \<in> set gs. game_id g \<noteq> h \<Longrightarrow> fold (\<lambda>g m. m(game_id g \<mapsto> g)) gs m h = m h"
  by (induction gs arbitrary: m) auto

lemma catalogue_hit:
  "inj_on game_id (set gs) \<Longrightarrow> g \<in> set gs \<Longrightarrow> fold (\<lambda>g m. m(game_id g \<mapsto> g)) gs m (game_id g) = Some g"
proof (induction gs arbitrary: m)
  case Nil
  then show ?case by simp
next
  case (Cons a gs)
  show ?case
  proof (cases "g \<in> set gs")
    case True
    with Cons show ?thesis by simp
  next
    case False
    with Cons.prems have "g = a" "\<forall>g' \<in> set gs. game_id g' \<noteq> game_id a" by (auto simp: inj_on_def)
    then show ?thesis using catalogue_miss [of gs "game_id a" "m(game_id a \<mapsto> a)"]
      by (simp add: \<open>g = a\<close> del: fun_upd_apply) simp
  qed
qed

lemma catalogue_of_ids:
  assumes "\<And>g. g \<in> set gs \<longleftrightarrow> (\<exists>i \<in> set ids. w i = Some g)" "\<And>i g. w i = Some g \<Longrightarrow> game_id g = i"
    and "h \<in> set ids"
  shows "fold (\<lambda>g m. m(game_id g \<mapsto> g)) gs Map.empty h = w h"
proof (cases "w h")
  case None
  then have "\<forall>g \<in> set gs. game_id g \<noteq> h" using assms(1,2) by auto
  with None show ?thesis by (simp add: catalogue_miss)
next
  case (Some g)
  have "inj_on game_id (set gs)"
  proof (rule inj_onI)
    fix a b assume "a \<in> set gs" "b \<in> set gs" "game_id a = game_id b"
    then obtain i j where "w i = Some a" "w j = Some b" using assms(1) by blast
    with \<open>game_id a = game_id b\<close> show "a = b" using assms(2) [of i a] assms(2) [of j b] by simp
  qed
  moreover have "g \<in> set gs" using assms(1,3) Some by blast
  ultimately show ?thesis using catalogue_hit [of gs g Map.empty] assms(2) [OF Some] Some by simp
qed

lemma dominant_source_single:
  assumes "stored \<noteq> []" "\<forall>r \<in> set stored. rec_source r = s"
  shows "dominant_source stored = s"
proof -
  have "set (remdups (map rec_source stored)) = {s}" using assms by (cases stored) auto
  moreover have "distinct (remdups (map rec_source stored))" by simp
  ultimately have "remdups (map rec_source stored) = [s]" by (simp add: distinct_singleton)
  then show ?thesis by (simp add: dominant_source_def)
qed

lemma dominant_source_mixed:
  assumes "r \<in> set stored" "r' \<in> set stored" "rec_source r \<noteq> rec_source r'"
  shows "dominant_source stored = HYBRID"
proof -
  have "{rec_source r, rec_source r'} \<subseteq> set (remdups (map rec_source stored))" using assms by auto
  then have "2 \<le> card (set (remdups (map rec_source stored)))"
    using card_mono [of "set (remdups (map rec_source stored))" "{rec_source r, rec_source r'}"] assms(3) by simp
  then have "2 \<le> length (remdups (map rec_source stored))" by (simp add: length_remdups_card_conv)
  then obtain a b xs where "remdups (map rec_source stored) = a # b # xs"
    by (metis Suc_le_length_iff numeral_2_eq_2)
  then show ?thesis by (simp add: dominant_source_def)
qed

lemma dominant_source_FALLBACK:
  assumes "stored \<noteq> []" "\<forall>r \<in> set stored. rec_source r \<noteq> FALLBACK"
  shows "dominant_source stored \<noteq> FALLBACK"
proof (cases "\<forall>r \<in> set stored. rec_source r = rec_source (hd stored)")
  case True
  have "dominant_source stored = rec_source (hd stored)" by (rule dominant_source_single [OF assms(1) True])
  then show ?thesis using assms by (metis list.set_sel(1))
next
  case False
  then obtain r where "r \<in> set stored" "rec_source r \<noteq> rec_source (hd stored)" by blast
  with dominant_source_mixed [of r stored "hd stored"] assms(1) show ?thesis by simp
qed

section \<open>What is served\<close>

lemma fold_max: "fold max cs (c :: int) \<in> set (c # cs) \<and> (\<forall>x \<in> set (c # cs). x \<le> fold max cs c)"
proof -
  have "fold max cs c = Max (set (c # cs))" by (simp only: Max.set_eq_fold)
  then show ?thesis using Max_in [of "set (c # cs)"] Max_ge [of "set (c # cs)"] by simp
qed

lemma popularity_share_range:
  assumes "g \<in> set ranked" "\<forall>g \<in> set ranked. 0 \<le> purchase_count g"
  shows "0 \<le> popularity_share g ranked \<and> popularity_share g ranked \<le> 1"
proof -
  obtain c cs where c: "map purchase_count ranked = c # cs" using assms(1) by (cases ranked) auto
  have "purchase_count g \<in> set (c # cs)" using assms(1) by (metis c image_eqI list.set_map)
  then have le: "purchase_count g \<le> fold max cs c" using fold_max [of cs c] by blast
  have "0 \<le> purchase_count g" using assms by blast
  with le round6_range [of "of_int (purchase_count g) / of_int (fold max cs c)"] show ?thesis
    by (auto simp: popularity_share_def c Let_def)
qed

definition served_stored :: "world \<Rightarrow> user_id \<Rightarrow> recommendation list \<Rightarrow> recommendations_response" where
  "served_stored w u stored =
     \<lparr>rs_user_id = user_str u, rs_source = dominant_source stored,
      rs_generated_at = Some (rec_generated_at (hd stored)),
      rs_items = map (\<lambda>r. item_of r (w_games w (rec_game_id r))) stored\<rparr>"

definition served_fallback :: "user_id \<Rightarrow> game_profile list \<Rightarrow> recommendations_response" where
  "served_fallback u games =
     \<lparr>rs_user_id = user_str u, rs_source = FALLBACK, rs_generated_at = None,
      rs_items = map (fallback_item games) (enumerate 1 games)\<rparr>"

context unit_of_work
begin

lemma serve_spec:
  fixes limit
  assumes "db_ok db" "distinct (map rec_game_id (w_recs (db_view db) u))"
  defines "stored \<equiv> py_take limit (sort_key rec_rank (w_recs (db_view db) u))"
  shows "if stored \<noteq> [] then serve ops cid u limit db = (Inr (served_stored (db_view db) u stored), db)
    else \<exists>cands. best_first (w_games (db_view db)) is_published popularity_key (max (limit * 4) limit) cands \<and>
      serve ops cid u limit db = (Inr (served_fallback u (top_sellers cands (pref_of (db_view db) u) limit)), db)"
proof -
  let ?s = "uow_open ops cid db" and ?w = "db_view db"
  note opened = open_txn [OF assms(1), of cid] open_view [OF assms(1), of cid]
  have st: "recs_for_user ops ?s u limit = stored"
    using for_user [OF opened(1), of u limit] by (simp add: opened(2) stored_def)
  have exit: "uow_exit ops ?s = db" by (rule exit_rollback [OF opened(1)])
  have "distinct (map rec_game_id (sort_key rec_rank (w_recs ?w u)))"
    using assms(2) by (simp only: distinct_map distinct_sort set_sort)
  then have d: "distinct (map rec_game_id stored)"
    unfolding stored_def by (simp add: py_take_def take_map [symmetric])
  let ?games = "games_by_ids ops ?s (map rec_game_id stored)"
  have games: "g \<in> set ?games \<longleftrightarrow> (\<exists>i \<in> set (map rec_game_id stored). w_games ?w i = Some g)" for g
    using by_ids [OF opened(1) d] opened(2) by auto
  have key: "game_id g = i" if "w_games ?w i = Some g" for i g
    using games_keyed [OF opened(1), of i g] that opened(2) by simp
  have "items_of stored ?games = map (\<lambda>r. item_of r (w_games ?w (rec_game_id r))) stored"
    unfolding items_of_def Let_def
    by (rule map_cong [OF refl]) (subst catalogue_of_ids [of ?games "map rec_game_id stored" "w_games ?w"],
      use games key in auto)
  then have stored: "serve ops cid u limit db = (Inr (served_stored ?w u stored), db)" if "stored \<noteq> []"
    using that by (simp add: serve_def with_uow_def st served_stored_def exit)
  show ?thesis
  proof (cases "stored = []")
    case False
    with stored show ?thesis by simp
  next
    case True
    then have "serve ops cid u limit db = (Inr (served_fallback u
        (top_sellers (games_recommendable ops ?s (max (limit * 4) limit)) (pref_of ?w u) limit)), db)"
      using pref_of_view [OF opened(1), of u]
      by (simp add: serve_def with_uow_def st exit fallback_response_def served_fallback_def Let_def opened(2))
    then show ?thesis using True recommendable [OF opened(1), of "max (limit * 4) limit"] opened(2) by auto
  qed
qed

end

lemma list_ok_stored:
  assumes "list_ok w u limit recs"
  shows "py_take limit (sort_key rec_rank recs) = recs"
proof -
  have "sorted (map rec_rank recs)"
    using assms by (simp add: list_ok_def sorted_wrt_map sorted_iff_nth_mono)
  then have "sort_key rec_rank recs = recs" by (rule sort_key_id_if_sorted)
  moreover have "int (length recs) \<le> limit" using assms by (simp add: list_ok_def)
  ultimately show ?thesis by (simp add: py_take_def)
qed





section \<open>Neighbours\<close>

lemma wf_game_coord: "wf_game g \<Longrightarrow> coord (embedding g) x \<in> {0, 1}"
  by (simp add: wf_game_def coord_of)

lemma similar_overlap:
  assumes "wf_game a" "wf_game b" "0 < emb_cosine (embedding a) (embedding b)"
  shows "emb_overlap (embedding a) (embedding b) \<noteq> []"
proof -
  have wf: "wf_embedding (embedding a)" "wf_embedding (embedding b)" using assms by (simp_all add: wf_game_def)
  have "(\<Sum>x \<in> names (embedding a) \<inter> names (embedding b). coord (embedding a) x * coord (embedding b) x) \<noteq> 0"
    using assms(3) unfolding cosine_sum [OF wf] by auto
  then obtain x where "coord (embedding a) x * coord (embedding b) x \<noteq> 0" by (meson sum.neutral)
  then have "x \<in> set (emb_overlap (embedding a) (embedding b))"
    using wf_game_coord [OF assms(1), of x] wf_game_coord [OF assms(2), of x] by (auto simp: set_overlap)
  then show ?thesis by auto
qed

lemma set_sparse_neighbours:
  assumes "(c, x) \<in> set (sparse_neighbours subject g candidates limit)"
  shows "c \<in> set candidates" "game_id c \<noteq> g" "x = emb_cosine (embedding subject) (embedding c)" "0 < x"
  using assms set_py_take [of limit] by (fastforce simp: sparse_neighbours_def Let_def)+

lemma sparse_neighbours_sorted: "sorted (map similar_key (sparse_neighbours subject g candidates limit))"
  by (simp add: sparse_neighbours_def Let_def sorted_py_take)



end
