(* ===== verification/Outbox.thy ===== *)
theory Outbox
  imports Memory
begin

text \<open>
  The outbox dispatcher (\<open>infrastructure/messaging/outbox/dispatcher.py\<close>) over the port
  \<open>outbox/store.py\<close>, and the in-memory store behind it (\<open>persistence/memory/outbox_store.py\<close>).
  The transport is a parameter: what publishing a record does to the state \<open>'e\<close> outside, and the
  next value of \<open>random.random()\<close>. A record is passed by value; the code mutates the object
  that the store holds, and writes it back at the end of every attempt.
\<close>

section \<open>Exceptions as text\<close>

fun exn_name :: "exn \<Rightarrow> string" where
  "exn_name (InvariantViolation m) = ''InvariantViolation''"
| "exn_name (NotFound m) = ''NotFound''"
| "exn_name (Forbidden m) = ''Forbidden''"
| "exn_name (AuthenticationError m) = ''AuthenticationError''"
| "exn_name (AuthorizationError m) = ''AuthorizationError''"
| "exn_name (DebugAuthDisabledError m) = ''DebugAuthDisabledError''"
| "exn_name (ValueError m) = ''ValueError''"
| "exn_name (ConnectionError m) = ''ConnectionError''"
| "exn_name (ProviderUnavailableError m) = ''ProviderUnavailableError''"
| "exn_name (RuntimeError m) = ''RuntimeError''"
| "exn_name (TypeError m) = ''TypeError''"
| "exn_name (IndexError m) = ''IndexError''"
| "exn_name (KeyError m) = ''KeyError''"
| "exn_name (ZeroDivisionError m) = ''ZeroDivisionError''"
| "exn_name (HTTPError m) = ''HTTPError''"

fun exn_text :: "exn \<Rightarrow> string" where
  "exn_text (InvariantViolation m) = m"
| "exn_text (NotFound m) = m"
| "exn_text (Forbidden m) = m"
| "exn_text (AuthenticationError m) = m"
| "exn_text (AuthorizationError m) = m"
| "exn_text (DebugAuthDisabledError m) = m"
| "exn_text (ValueError m) = m"
| "exn_text (ConnectionError m) = m"
| "exn_text (ProviderUnavailableError m) = m"
| "exn_text (RuntimeError m) = m"
| "exn_text (TypeError m) = m"
| "exn_text (IndexError m) = m"
| "exn_text (KeyError m) = m"
| "exn_text (ZeroDivisionError m) = m"
| "exn_text (HTTPError m) = m"

section \<open>The store port\<close>

record 'st outbox_store_ops =
  os_pending_count :: "'st \<Rightarrow> int"
  os_dlq_depth :: "'st \<Rightarrow> int"
  os_due :: "'st \<Rightarrow> datetime \<Rightarrow> int \<Rightarrow> outbox_record list \<times> 'st"
  os_record_published :: "outbox_record \<Rightarrow> 'st \<Rightarrow> 'st"
  os_record_failure :: "outbox_record \<Rightarrow> 'st \<Rightarrow> 'st"

definition is_due :: "datetime \<Rightarrow> outbox_record \<Rightarrow> bool" where
  "is_due now r \<longleftrightarrow> is_pending r \<and>
     (case ob_next_attempt_at r of None \<Rightarrow> True | Some t \<Rightarrow> instant t \<le> instant now)"

section \<open>The dispatcher\<close>

record 'e transport =
  tr_publish :: "outbox_record \<Rightarrow> 'e \<Rightarrow> (exn + unit) \<times> 'e"
  tr_random :: "'e \<Rightarrow> real \<times> 'e"

definition MAX_ATTEMPTS :: int where "MAX_ATTEMPTS = 5"
definition BASE_BACKOFF_SECONDS :: real where "BASE_BACKOFF_SECONDS = 1 / 2"

text \<open>\<open>now + timedelta(seconds=s)\<close>: a delta is a whole number of microseconds, rounded half to even.\<close>

definition plus_seconds :: "datetime \<Rightarrow> real \<Rightarrow> datetime" where
  "plus_seconds t s = DateTime (wall t + round_half_even (s * 1000000)) (offset t)"

definition failed :: "datetime \<Rightarrow> exn \<Rightarrow> real \<Rightarrow> outbox_record \<Rightarrow> outbox_record" where
  "failed now x rnd r =
     (let r = r\<lparr>ob_last_error := Some (exn_name x @ '': '' @ exn_text x)\<rparr> in
      if MAX_ATTEMPTS \<le> ob_attempts r then r\<lparr>ob_dead_lettered := True\<rparr>
      else let backoff = BASE_BACKOFF_SECONDS * 2 ^ nat (ob_attempts r - 1);
               jitter = backoff * rnd * (1 / 10)
        in r\<lparr>ob_next_attempt_at := Some (plus_seconds now (backoff + jitter))\<rparr>)"

text \<open>\<open>random.random()\<close> is drawn only when there is another attempt.\<close>

definition publish_record ::
  "'st outbox_store_ops \<Rightarrow> 'e transport \<Rightarrow> datetime \<Rightarrow> outbox_record \<Rightarrow> 'st \<times> 'e \<Rightarrow> bool \<times> 'st \<times> 'e" where
  "publish_record so tr now r = (\<lambda>(st, e).
     let r = r\<lparr>ob_attempts := ob_attempts r + 1\<rparr> in
     case tr_publish tr r e of
       (Inl x, e) \<Rightarrow>
         (let (rnd, e) = (if MAX_ATTEMPTS \<le> ob_attempts r then (0, e) else tr_random tr e)
          in (False, os_record_failure so (failed now x rnd r) st, e))
     | (Inr _, e) \<Rightarrow>
         (True, os_record_published so (r\<lparr>ob_published_at := Some now, ob_last_error := None\<rparr>) st, e))"

fun drain_records ::
  "'st outbox_store_ops \<Rightarrow> 'e transport \<Rightarrow> datetime \<Rightarrow> outbox_record list \<Rightarrow> int \<Rightarrow> 'st \<times> 'e \<Rightarrow> int \<times> 'st \<times> 'e" where
  "drain_records so tr now [] n ste = (n, ste)"
| "drain_records so tr now (r # rs) n ste =
     (case publish_record so tr now r ste of
        (ok, ste) \<Rightarrow> drain_records so tr now rs (if ok then n + 1 else n) ste)"

definition drain_once ::
  "'st outbox_store_ops \<Rightarrow> 'e transport \<Rightarrow> int \<Rightarrow> datetime \<Rightarrow> 'st \<times> 'e \<Rightarrow> int \<times> 'st \<times> 'e" where
  "drain_once so tr batch now ste =
     (case os_due so (fst ste) now batch of (due, st) \<Rightarrow> drain_records so tr now due 0 (st, snd ste))"

section \<open>The in-memory store\<close>

definition mem_pending_count :: "memory_store \<Rightarrow> int" where
  "mem_pending_count st = int (length (filter is_pending (map snd (ms_outbox st))))"

definition mem_dlq_depth :: "memory_store \<Rightarrow> int" where
  "mem_dlq_depth st = int (length (filter ob_dead_lettered (map snd (ms_outbox st))))"

definition mem_due :: "memory_store \<Rightarrow> datetime \<Rightarrow> int \<Rightarrow> outbox_record list" where
  "mem_due st now limit =
     py_take limit (sort_key (\<lambda>r. instant (ob_occurred_at r)) (filter (is_due now) (map snd (ms_outbox st))))"

definition mem_record_outcome :: "outbox_record \<Rightarrow> memory_store \<Rightarrow> memory_store" where
  "mem_record_outcome r st = st\<lparr>ms_outbox := AList.update (ob_id r) r (ms_outbox st)\<rparr>"

definition mem_outbox_store :: "memory_store outbox_store_ops" where
  "mem_outbox_store =
     \<lparr>os_pending_count = mem_pending_count, os_dlq_depth = mem_dlq_depth,
      os_due = (\<lambda>st now limit. (mem_due st now limit, st)),
      os_record_published = mem_record_outcome, os_record_failure = mem_record_outcome\<rparr>"

lemma os_due_memory: "os_due mem_outbox_store st now limit = (mem_due st now limit, st)"
  by (simp add: mem_outbox_store_def)

section \<open>The contract of a store\<close>

text \<open>Records that differ in the bookkeeping of their delivery only.\<close>

definition same_event :: "outbox_record \<Rightarrow> outbox_record \<Rightarrow> bool" where
  "same_event q r \<longleftrightarrow>
     r\<lparr>ob_published_at := ob_published_at q, ob_attempts := ob_attempts q, ob_last_error := ob_last_error q,
       ob_next_attempt_at := ob_next_attempt_at q, ob_dead_lettered := ob_dead_lettered q\<rparr> = q"

text \<open>
  A store shows its records as the mapping \<open>recs\<close>. It hands out the due ones, earliest first, at most
  \<open>cap n\<close> of the \<open>n\<close> asked for, and may postpone the next attempt of those, no more. The outcome of an
  attempt at a record it holds replaces it: a publication may leave the postponed time in place, and a
  timestamp may come back in another time zone.
\<close>

locale outbox_store =
  fixes so :: "'st outbox_store_ops"
    and ok :: "'st \<Rightarrow> bool"
    and recs :: "'st \<Rightarrow> uuid \<rightharpoonup> outbox_record"
    and cap :: "int \<Rightarrow> int"
  assumes recs_keyed: "ok st \<Longrightarrow> recs st k = Some r \<Longrightarrow> ob_id r = k"
    and due: "ok st \<Longrightarrow> os_due so st now n = (rs, st') \<Longrightarrow>
      best_first (recs st) (is_due now) (\<lambda>r. instant (ob_occurred_at r)) (cap n) rs"
    and due_ok: "ok st \<Longrightarrow> os_due so st now n = (rs, st') \<Longrightarrow> ok st'"
    and due_others: "ok st \<Longrightarrow> os_due so st now n = (rs, st') \<Longrightarrow> k \<notin> ob_id ` set rs \<Longrightarrow> recs st' k = recs st k"
    and due_handed: "ok st \<Longrightarrow> os_due so st now n = (rs, st') \<Longrightarrow> r \<in> set rs \<Longrightarrow>
      \<exists>t. recs st' (ob_id r) = Some (r\<lparr>ob_next_attempt_at := t\<rparr>)"
    and published_ok: "ok st \<Longrightarrow> ok (os_record_published so r st)"
    and published_recs: "ok st \<Longrightarrow> recs st (ob_id r) = Some q \<Longrightarrow> same_event q r \<Longrightarrow>
      ob_dead_lettered q = ob_dead_lettered r \<Longrightarrow> ob_last_error r = None \<Longrightarrow>
      \<exists>p t. recs (os_record_published so r st) = (recs st)(ob_id r \<mapsto> r\<lparr>ob_published_at := p, ob_next_attempt_at := t\<rparr>) \<and>
        (p = None \<longleftrightarrow> ob_published_at r = None)"
    and failure_ok: "ok st \<Longrightarrow> ok (os_record_failure so r st)"
    and failure_recs: "ok st \<Longrightarrow> recs st (ob_id r) = Some q \<Longrightarrow> same_event q r \<Longrightarrow>
      ob_published_at q = ob_published_at r \<Longrightarrow>
      \<exists>t. recs (os_record_failure so r st) = (recs st)(ob_id r \<mapsto> r\<lparr>ob_next_attempt_at := t\<rparr>) \<and>
        map_option instant t = map_option instant (ob_next_attempt_at r)"

text \<open>A store whose gauges are exact at any moment.\<close>

locale counted_outbox_store = outbox_store +
  assumes pending_count: "ok st \<Longrightarrow> os_pending_count so st = int (card {r \<in> ran (recs st). is_pending r})"
    and dlq_depth: "ok st \<Longrightarrow> os_dlq_depth so st = int (card {r \<in> ran (recs st). ob_dead_lettered r})"

lemma length_filter_values:
  assumes "keyed f d"
  shows "length (filter P (map snd d)) = card {v \<in> ran (map_of d). P v}"
proof -
  have "length (filter P (map snd d)) = card (set (filter P (map snd d)))"
    using distinct_values [OF assms] by (intro distinct_card [symmetric]) simp
  also have "set (filter P (map snd d)) = {v \<in> ran (map_of d). P v}"
    using set_values [of d] assms by (auto simp: keyed_def)
  finally show ?thesis .
qed

interpretation mem_outbox: counted_outbox_store mem_outbox_store
  "\<lambda>st. keyed ob_id (ms_outbox st)" "\<lambda>st. map_of (ms_outbox st)" "\<lambda>n. n"
proof (unfold_locales, goal_cases)
  case (1 st k r)
  then show ?case by (rule keyedD)
next
  case (2 st now n rs st')
  then show ?case by (auto simp: os_due_memory mem_due_def best_first_values)
next
  case (5 st now n rs st' r)
  then have "r \<in> ran (map_of (ms_outbox st))" "st' = st"
    using set_values [of "ms_outbox st"] set_py_take by (fastforce simp: os_due_memory mem_due_def keyed_def)+
  with 5(1) show ?case by (auto simp: ran_def dest: keyedD intro!: exI [of _ "ob_next_attempt_at r"])
next
  case (7 st r q)
  then show ?case
    by (intro exI [of _ "ob_published_at r"] exI [of _ "ob_next_attempt_at r"])
      (simp add: mem_outbox_store_def mem_record_outcome_def dict_simps)
next
  case (9 st r q)
  then show ?case
    by (intro exI [of _ "ob_next_attempt_at r"]) (simp add: mem_outbox_store_def mem_record_outcome_def dict_simps)
next
  case (10 st)
  then show ?case unfolding mem_outbox_store_def mem_pending_count_def
    by (simp only: outbox_store_ops.select_convs length_filter_values)
next
  case (11 st)
  then show ?case unfolding mem_outbox_store_def mem_dlq_depth_def
    by (simp only: outbox_store_ops.select_convs length_filter_values)
qed (auto simp: os_due_memory mem_outbox_store_def mem_record_outcome_def keyed_update dict_simps)

section \<open>The life of a record\<close>

text \<open>One attempt takes a pending record to a published, retried or dead-lettered one.\<close>

inductive attempt :: "outbox_record \<Rightarrow> outbox_record \<Rightarrow> bool" where
  accepted: "is_pending r \<Longrightarrow>
    attempt r (r\<lparr>ob_attempts := ob_attempts r + 1, ob_last_error := None, ob_published_at := Some now,
      ob_next_attempt_at := t\<rparr>)"
| refused: "is_pending r \<Longrightarrow> q = failed now x rnd (r\<lparr>ob_attempts := ob_attempts r + 1\<rparr>) \<Longrightarrow>
    map_option instant t = map_option instant (ob_next_attempt_at q) \<Longrightarrow> attempt r (q\<lparr>ob_next_attempt_at := t\<rparr>)"

inductive_cases attemptE: "attempt r r'"

definition record_ok :: "outbox_record \<Rightarrow> bool" where
  "record_ok r \<longleftrightarrow> 0 \<le> ob_attempts r \<and> ob_attempts r \<le> MAX_ATTEMPTS \<and>
     (is_pending r \<longrightarrow> ob_attempts r < MAX_ATTEMPTS) \<and>
     (ob_dead_lettered r \<longrightarrow> ob_attempts r = MAX_ATTEMPTS \<and> ob_published_at r = None \<and> ob_last_error r \<noteq> None) \<and>
     (ob_published_at r \<noteq> None \<longrightarrow> \<not> ob_dead_lettered r \<and> 1 \<le> ob_attempts r \<and> ob_last_error r = None)"

lemma failed_simps [simp]:
  "ob_id (failed now x rnd r) = ob_id r" "ob_attempts (failed now x rnd r) = ob_attempts r"
  "ob_published_at (failed now x rnd r) = ob_published_at r"
  "ob_last_error (failed now x rnd r) = Some (exn_name x @ '': '' @ exn_text x)"
  "ob_dead_lettered (failed now x rnd r) \<longleftrightarrow> ob_dead_lettered r \<or> MAX_ATTEMPTS \<le> ob_attempts r"
  "ob_payload (failed now x rnd r) = ob_payload r" "ob_occurred_at (failed now x rnd r) = ob_occurred_at r"
  by (simp_all add: failed_def Let_def)

lemma attempt_ok: "attempt r r' \<Longrightarrow> record_ok r \<Longrightarrow> record_ok r'"
  by (erule attemptE) (auto simp: record_ok_def is_pending_def)

lemma attempt_id: "attempt r r' \<Longrightarrow> ob_id r' = ob_id r \<and> ob_payload r' = ob_payload r \<and> ob_attempts r' = ob_attempts r + 1"
  by (erule attemptE) auto

lemma attempt_pending: "attempt r r' \<Longrightarrow> is_pending r"
  by (erule attemptE) auto

context outbox_store
begin

lemma publish_record_spec:
  assumes "ok st" "is_pending r" "recs st (ob_id r) = Some (r\<lparr>ob_next_attempt_at := t0\<rparr>)"
    and "publish_record so tr now r (st, e) = (b, st', e')"
  shows "ok st'" and "\<exists>r'. recs st' = (recs st)(ob_id r \<mapsto> r') \<and> attempt r r' \<and>
    (b \<longleftrightarrow> ob_published_at r' \<noteq> None) \<and>
    (b \<longleftrightarrow> fst (tr_publish tr (r\<lparr>ob_attempts := ob_attempts r + 1\<rparr>) e) = Inr ())"
proof -
  let ?r = "r\<lparr>ob_attempts := ob_attempts r + 1\<rparr>" and ?q = "r\<lparr>ob_next_attempt_at := t0\<rparr>"
  have np: "ob_published_at r = None" "\<not> ob_dead_lettered r" using assms(2) by (simp_all add: is_pending_def)
  obtain res e1 where p: "tr_publish tr ?r e = (res, e1)" by fastforce
  have "ok st' \<and> (\<exists>r'. recs st' = (recs st)(ob_id r \<mapsto> r') \<and> attempt r r' \<and>
    (b \<longleftrightarrow> ob_published_at r' \<noteq> None) \<and> (b \<longleftrightarrow> fst (tr_publish tr ?r e) = Inr ()))"
  proof (cases res)
    case (Inl x)
    define rnd where "rnd = fst (if MAX_ATTEMPTS \<le> ob_attempts ?r then (0, e1) else tr_random tr e1)"
    let ?r' = "failed now x rnd ?r"
    have b: "b = False" "st' = os_record_failure so ?r' st"
      using assms(4) by (auto simp: publish_record_def p Inl rnd_def Let_def split: prod.splits)
    have "same_event ?q ?r'" by (simp add: same_event_def failed_def Let_def)
    then obtain t where "recs st' = (recs st)(ob_id r \<mapsto> ?r'\<lparr>ob_next_attempt_at := t\<rparr>)"
      "map_option instant t = map_option instant (ob_next_attempt_at ?r')"
      using failure_recs [OF assms(1), of ?r' ?q] assms(3) by (auto simp: b(2))
    moreover from attempt.refused [OF assms(2) refl this(2)] have "attempt r (?r'\<lparr>ob_next_attempt_at := t\<rparr>)" .
    ultimately show ?thesis using failure_ok [OF assms(1)] b np
      by (auto simp: p Inl intro!: exI [of _ "?r'\<lparr>ob_next_attempt_at := t\<rparr>"])
  next
    case (Inr u)
    let ?r' = "?r\<lparr>ob_published_at := Some now, ob_last_error := None\<rparr>"
    have b: "b" "st' = os_record_published so ?r' st"
      using assms(4) by (auto simp: publish_record_def p Inr Let_def)
    have "same_event ?q ?r'" by (simp add: same_event_def)
    then obtain d t where "recs st' = (recs st)(ob_id r \<mapsto> ?r'\<lparr>ob_published_at := Some d, ob_next_attempt_at := t\<rparr>)"
      using published_recs [OF assms(1), of ?r' ?q] assms(3) np by (fastforce simp: b(2))
    moreover have "attempt r (?r'\<lparr>ob_published_at := Some d, ob_next_attempt_at := t\<rparr>)"
      using attempt.accepted [OF assms(2), where now = d and t = t] by simp
    ultimately show ?thesis using published_ok [OF assms(1)] b
      by (auto simp: p Inr intro!: exI [of _ "?r'\<lparr>ob_published_at := Some d, ob_next_attempt_at := t\<rparr>"])
  qed
  then show "ok st'" and "\<exists>r'. recs st' = (recs st)(ob_id r \<mapsto> r') \<and> attempt r r' \<and>
    (b \<longleftrightarrow> ob_published_at r' \<noteq> None) \<and>
    (b \<longleftrightarrow> fst (tr_publish tr (r\<lparr>ob_attempts := ob_attempts r + 1\<rparr>) e) = Inr ())" by auto
qed

text \<open>A drain makes one attempt at each record of its batch and touches no other.\<close>

lemma drain_records_spec:
  assumes "ok st" "distinct (map ob_id rs)" "\<forall>r \<in> set rs. is_pending r"
    and "\<forall>r \<in> set rs. \<exists>t. recs st (ob_id r) = Some (r\<lparr>ob_next_attempt_at := t\<rparr>)"
    and "drain_records so tr now rs n (st, e) = (n', st', e')"
  shows "ok st' \<and> (\<forall>k. k \<notin> ob_id ` set rs \<longrightarrow> recs st' k = recs st k) \<and>
    (\<forall>r \<in> set rs. \<exists>r'. recs st' (ob_id r) = Some r' \<and> attempt r r') \<and>
    n' = n + int (length (filter (\<lambda>r. \<exists>r'. recs st' (ob_id r) = Some r' \<and> ob_published_at r' \<noteq> None) rs)) \<and>
    ((\<forall>r e. \<exists>e'. tr_publish tr r e = (Inr (), e')) \<longrightarrow> n' = n + int (length rs))"
  using assms
proof (induction rs arbitrary: n st e)
  case Nil
  then show ?case by simp
next
  case (Cons r rs)
  obtain b st1 e1 where b: "publish_record so tr now r (st, e) = (b, st1, e1)" by (metis prod_cases3)
  obtain t0 where t0: "recs st (ob_id r) = Some (r\<lparr>ob_next_attempt_at := t0\<rparr>)" using Cons.prems(4) by auto
  obtain r' where r': "ok st1" "recs st1 = (recs st)(ob_id r \<mapsto> r')" "attempt r r'" "b \<longleftrightarrow> ob_published_at r' \<noteq> None"
    "b \<longleftrightarrow> fst (tr_publish tr (r\<lparr>ob_attempts := ob_attempts r + 1\<rparr>) e) = Inr ()"
    using publish_record_spec [OF Cons.prems(1) _ t0 b] Cons.prems(3) by auto
  have rest: "drain_records so tr now rs (if b then n + 1 else n) (st1, e1) = (n', st', e')"
    using Cons.prems(5) b by simp
  have "ob_id q \<noteq> ob_id r" if "q \<in> set rs" for q
    using imageI [OF that, of ob_id] Cons.prems(2) by auto
  then have held: "\<forall>q \<in> set rs. \<exists>t. recs st1 (ob_id q) = Some (q\<lparr>ob_next_attempt_at := t\<rparr>)"
    using Cons.prems(4) r'(2) by simp
  from Cons.IH [OF r'(1) _ _ held rest] Cons.prems(2,3) have IH: "ok st'"
    "\<forall>k. k \<notin> ob_id ` set rs \<longrightarrow> recs st' k = recs st1 k"
    "\<forall>r \<in> set rs. \<exists>r'. recs st' (ob_id r) = Some r' \<and> attempt r r'"
    "n' = (if b then n + 1 else n) +
      int (length (filter (\<lambda>r. \<exists>r'. recs st' (ob_id r) = Some r' \<and> ob_published_at r' \<noteq> None) rs))"
    "(\<forall>r e. \<exists>e'. tr_publish tr r e = (Inr (), e')) \<longrightarrow> n' = (if b then n + 1 else n) + int (length rs)"
    by auto
  have own: "recs st' (ob_id r) = Some r'" using IH(2) r'(2) Cons.prems(2) by auto
  have healthy: "(\<forall>r e. \<exists>e'. tr_publish tr r e = (Inr (), e')) \<Longrightarrow> b"
    using r'(5) by (metis fst_conv)
  show ?case
  proof (intro conjI)
    show "n' = n + int (length (filter (\<lambda>r. \<exists>r'. recs st' (ob_id r) = Some r' \<and> ob_published_at r' \<noteq> None) (r # rs)))"
      using IH(4) own r'(4) by simp
    show "(\<forall>r e. \<exists>e'. tr_publish tr r e = (Inr (), e')) \<longrightarrow> n' = n + int (length (r # rs))"
      using IH(5) healthy by simp
  qed (use IH own r' in auto)
qed

lemma drain_once_spec:
  assumes "ok st" "drain_once so tr batch now (st, e) = (n, st', e')"
  shows "\<exists>ready. ready = fst (os_due so st now batch) \<and>
    best_first (recs st) (is_due now) (\<lambda>r. instant (ob_occurred_at r)) (cap batch) ready \<and> ok st' \<and>
    (\<forall>k. k \<notin> ob_id ` set ready \<longrightarrow> recs st' k = recs st k) \<and>
    (\<forall>r \<in> set ready. \<exists>r'. recs st' (ob_id r) = Some r' \<and> attempt r r') \<and>
    n = int (length (filter (\<lambda>r. \<exists>r'. recs st' (ob_id r) = Some r' \<and> ob_published_at r' \<noteq> None) ready)) \<and>
    ((\<forall>r e. \<exists>e'. tr_publish tr r e = (Inr (), e')) \<longrightarrow> n = int (length ready))"
proof -
  obtain ready st1 where os: "os_due so st now batch = (ready, st1)" by fastforce
  note bf = due [OF assms(1) os]
  have mem: "is_pending r \<and> recs st (ob_id r) = Some r" if "r \<in> set ready" for r
    using best_first_set [OF bf that] recs_keyed [OF assms(1)] by (fastforce simp: is_due_def ran_def)
  then have "inj_on ob_id (set ready)" by (metis inj_onI option.inject)
  then have "distinct (map ob_id ready)" using best_first_sorted [OF bf] by (simp add: distinct_map)
  moreover have "drain_records so tr now ready 0 (st1, e) = (n, st', e')"
    using assms(2) by (simp add: drain_once_def os)
  ultimately show ?thesis
    using drain_records_spec [OF due_ok [OF assms(1) os], of ready tr now 0 e n st' e'] mem bf
      due_others [OF assms(1) os] due_handed [OF assms(1) os]
    by (intro exI [of _ ready]) (auto simp: os)
qed

end

section \<open>Reachable outboxes\<close>

text \<open>The stores that commits of this service and drains with the transport \<open>tr\<close> lead to.\<close>

inductive outbox_run :: "'e transport \<Rightarrow> memory_store \<Rightarrow> bool" for tr where
  start: "outbox_run tr empty_store"
| commit: "outbox_run tr st \<Longrightarrow> mem_txn st s \<Longrightarrow>
    \<forall>r \<in> set (mu_events s). \<exists>topic cid e. r = outbox_record_of topic cid e \<Longrightarrow>
    outbox_run tr (mem_exit (mem_commit s))"
| drain: "outbox_run tr st \<Longrightarrow> drain_once mem_outbox_store tr batch now (st, e) = (n, st', e') \<Longrightarrow>
    outbox_run tr st'"

lemma record_ok_new: "record_ok (outbox_record_of topic cid e)"
  by (simp add: record_ok_def MAX_ATTEMPTS_def)

lemma record_ok_commit:
  assumes "\<forall>r \<in> ran m. record_ok r" "\<forall>r \<in> set rs. record_ok r"
  shows "\<forall>r \<in> ran (fold (\<lambda>r m. m(ob_id r \<mapsto> r)) rs m). record_ok r"
  using assms
proof (induction rs arbitrary: m)
  case Nil
  then show ?case by simp
next
  case (Cons r rs)
  have "\<forall>x \<in> ran (m(ob_id r \<mapsto> r)). record_ok x" using Cons.prems by (auto simp: ran_def)
  with Cons show ?case by simp
qed

lemma outbox_run_ok:
  "outbox_run tr st \<Longrightarrow> keyed ob_id (ms_outbox st) \<and> (\<forall>r \<in> ran (map_of (ms_outbox st)). record_ok r)"
proof (induction rule: outbox_run.induct)
  case start
  then show ?case by (simp add: empty_store_def keyed_def)
next
  case (commit st s)
  have ob: "ms_outbox (mem_exit (mem_commit s)) = fold (\<lambda>r d. AList.update (ob_id r) r d) (mu_events s) (ms_outbox st)"
    using commit.hyps(2) by (simp add: mem_exit_def mem_commit_def mem_txn_def)
  have "\<forall>r \<in> set (mu_events s). record_ok r" using commit.hyps(3) record_ok_new by metis
  with commit.IH have "\<forall>r \<in> ran (fold (\<lambda>r m. m(ob_id r \<mapsto> r)) (mu_events s) (map_of (ms_outbox st))). record_ok r"
    by (intro record_ok_commit) blast+
  then show ?case using commit.IH unfolding ob map_of_fold_update by (blast intro: keyed_fold_update)
next
  case (drain st batch now e n st' e')
  obtain ready where d: "best_first (map_of (ms_outbox st)) (is_due now) (\<lambda>r. instant (ob_occurred_at r)) batch ready"
    "keyed ob_id (ms_outbox st')"
    "\<forall>k. k \<notin> ob_id ` set ready \<longrightarrow> map_of (ms_outbox st') k = map_of (ms_outbox st) k"
    "\<forall>r \<in> set ready. \<exists>r'. map_of (ms_outbox st') (ob_id r) = Some r' \<and> attempt r r'"
    using mem_outbox.drain_once_spec [OF _ drain.hyps(2)] drain.IH by blast
  have "record_ok r" if r: "map_of (ms_outbox st') k = Some r" for k r
  proof (cases "k \<in> ob_id ` set ready")
    case True
    then obtain q where q: "q \<in> set ready" "k = ob_id q" by blast
    with d(4) r have "attempt q r" by fastforce
    moreover have "record_ok q" using best_first_set [OF d(1) q(1)] drain.IH by blast
    ultimately show ?thesis by (rule attempt_ok)
  next
    case False
    with d(3) r drain.IH show ?thesis by (auto simp: ran_def)
  qed
  then have "\<forall>r \<in> ran (map_of (ms_outbox st')). record_ok r" unfolding ran_def by blast
  with d(2) show ?case by blast
qed

lemma best_first_all:
  assumes "best_first m P key n out" "int (card {v \<in> ran m. P v}) \<le> n"
  shows "set out = {v \<in> ran m. P v}"
proof -
  obtain xs where xs: "distinct xs" "set xs = {v \<in> ran m. P v}" "out = py_take n (sort_key key xs)"
    using assms(1) by (auto simp: best_first_def)
  then have "length xs = card {v \<in> ran m. P v}" by (metis distinct_card)
  with assms(2) have "py_take n (sort_key key xs) = sort_key key xs" by (simp add: py_take_def)
  with xs show ?thesis by simp
qed

lemma record_state:
  "record_ok r \<Longrightarrow> (is_pending r \<and> \<not> ob_dead_lettered r \<and> ob_published_at r = None) \<or>
     (\<not> is_pending r \<and> ob_dead_lettered r \<and> ob_published_at r = None) \<or>
     (\<not> is_pending r \<and> \<not> ob_dead_lettered r \<and> ob_published_at r \<noteq> None)"
  unfolding record_ok_def is_pending_def by blast

lemma records_add_up:
  assumes "\<forall>r \<in> set rs. record_ok r"
  shows "length rs = length (filter is_pending rs) + length (filter ob_dead_lettered rs) +
    length (filter (\<lambda>r. ob_published_at r \<noteq> None) rs)"
  using assms
proof (induction rs)
  case Nil
  then show ?case by simp
next
  case (Cons r rs)
  then have "record_ok r" and IH: "length rs = length (filter is_pending rs) +
      length (filter ob_dead_lettered rs) + length (filter (\<lambda>r. ob_published_at r \<noteq> None) rs)" by simp_all
  from record_state [OF this(1)] show ?case by (elim disjE) (simp_all add: IH)
qed

section \<open>Sequences of drains\<close>

definition drain_step :: "'st outbox_store_ops \<Rightarrow> 'e transport \<Rightarrow> 'st \<Rightarrow> 'st \<Rightarrow> bool" where
  "drain_step so tr st st' \<longleftrightarrow> (\<exists>batch now e n e'. drain_once so tr batch now (st, e) = (n, st', e'))"

context outbox_store
begin

lemma drain_step_record:
  assumes "drain_step so tr st st'" "ok st" "recs st k = Some r"
  shows "ok st' \<and> (\<exists>r'. recs st' k = Some r' \<and> (r' = r \<or> attempt r r'))"
proof -
  obtain batch now e n e' where d: "drain_once so tr batch now (st, e) = (n, st', e')"
    using assms(1) by (auto simp: drain_step_def)
  obtain ready where r: "best_first (recs st) (is_due now) (\<lambda>r. instant (ob_occurred_at r)) (cap batch) ready"
    "ok st'" "\<forall>k. k \<notin> ob_id ` set ready \<longrightarrow> recs st' k = recs st k"
    "\<forall>r \<in> set ready. \<exists>r'. recs st' (ob_id r) = Some r' \<and> attempt r r'"
    using drain_once_spec [OF assms(2) d] by blast
  have "\<exists>r'. recs st' k = Some r' \<and> (r' = r \<or> attempt r r')"
  proof (cases "k \<in> ob_id ` set ready")
    case True
    then obtain q where q: "q \<in> set ready" "k = ob_id q" by blast
    have "q \<in> ran (recs st)" using best_first_set [OF r(1) q(1)] by blast
    then obtain k' where "recs st k' = Some q" by (auto simp: ran_def)
    with recs_keyed [OF assms(2) this] q(2) assms(3) have "q = r" by simp
    with r(4) q show ?thesis by blast
  next
    case False
    with r(3) assms(3) show ?thesis by simp
  qed
  with r(2) show ?thesis by blast
qed

lemma drains_record:
  assumes "(drain_step so tr)\<^sup>*\<^sup>* st st'" "ok st" "recs st k = Some r"
  shows "ok st' \<and> (\<exists>r' n. recs st' k = Some r' \<and> (attempt ^^ n) r r')"
  using assms
proof (induction rule: rtranclp_induct)
  case base
  then show ?case using relpowp_0_I [of attempt r] by blast
next
  case (step s s')
  then obtain q n where q: "ok s" "recs s k = Some q" "(attempt ^^ n) r q" by blast
  from drain_step_record [OF step.hyps(2) q(1,2)] obtain r' where
    "ok s'" "recs s' k = Some r'" "r' = q \<or> attempt q r'" by blast
  with q(3) show ?case using relpowp_Suc_I [of n attempt r q r'] by blast
qed

end

lemma attempts_spec:
  "(attempt ^^ n) r r' \<Longrightarrow> record_ok r \<Longrightarrow> record_ok r' \<and> ob_attempts r' = ob_attempts r + int n \<and>
     ob_id r' = ob_id r \<and> ob_payload r' = ob_payload r"
proof (induction n arbitrary: r')
  case 0
  then show ?case by simp
next
  case (Suc n)
  then obtain q where q: "(attempt ^^ n) r q" "attempt q r'" by auto
  with Suc.IH Suc.prems(2) attempt_ok [OF q(2)] attempt_id [OF q(2)] show ?case by simp
qed

text \<open>A record that satisfies \<open>record_ok\<close> is not attempted beyond the limit, and not at all once it is done.\<close>

lemma attempts_bounded:
  assumes "(attempt ^^ n) r r'" "record_ok r"
  shows "ob_id r' = ob_id r \<and> ob_payload r' = ob_payload r \<and> ob_attempts r' = ob_attempts r + int n \<and>
    ob_attempts r' \<le> 5 \<and> (\<not> is_pending r \<longrightarrow> r' = r)"
proof -
  have "r' = r" if "\<not> is_pending r"
  proof (cases n)
    case 0
    with assms(1) show ?thesis by simp
  next
    case (Suc m)
    with assms(1) obtain q where "attempt r q" by (blast elim: relpowp_Suc_E2)
    with that show ?thesis by (blast dest: attempt_pending)
  qed
  with attempts_spec [OF assms] show ?thesis by (auto simp: record_ok_def MAX_ATTEMPTS_def)
qed

section \<open>The time to the next attempt\<close>

lemma backoff_bounds:
  fixes rnd :: real
  assumes "0 \<le> rnd" "rnd < 1"
  shows "500000 * 2 ^ k \<le> round_half_even ((BASE_BACKOFF_SECONDS * 2 ^ k +
      BASE_BACKOFF_SECONDS * 2 ^ k * rnd * (1 / 10)) * 1000000)"
    and "round_half_even ((BASE_BACKOFF_SECONDS * 2 ^ k +
      BASE_BACKOFF_SECONDS * 2 ^ k * rnd * (1 / 10)) * 1000000) \<le> 550000 * 2 ^ k"
proof -
  let ?x = "(BASE_BACKOFF_SECONDS * 2 ^ k + BASE_BACKOFF_SECONDS * 2 ^ k * rnd * (1 / 10)) * 1000000"
  have x: "?x = 500000 * 2 ^ k + 50000 * (2 ^ k * rnd)" by (simp add: BASE_BACKOFF_SECONDS_def algebra_simps)
  have "0 \<le> 2 ^ k * rnd" "2 ^ k * rnd \<le> 2 ^ k * 1" using assms by (intro mult_nonneg_nonneg mult_left_mono; simp)+
  with x have "of_int (500000 * 2 ^ k) \<le> ?x" "?x \<le> of_int (550000 * 2 ^ k)" by simp_all
  from this [THEN round_half_even_mono] show "500000 * 2 ^ k \<le> round_half_even ?x" "round_half_even ?x \<le> 550000 * 2 ^ k"
    by (simp_all only: round_half_even_of_int)
qed

lemma failed_retries:
  assumes "ob_attempts r < MAX_ATTEMPTS" "0 \<le> rnd" "rnd < 1"
  shows "\<exists>t. ob_next_attempt_at (failed now x rnd r) = Some t \<and> offset t = offset now \<and>
    wall now + 500000 * 2 ^ nat (ob_attempts r - 1) \<le> wall t \<and>
    wall t \<le> wall now + 550000 * 2 ^ nat (ob_attempts r - 1)"
proof -
  let ?b = "BASE_BACKOFF_SECONDS * 2 ^ nat (ob_attempts r - 1)"
  have "ob_next_attempt_at (failed now x rnd r) = Some (plus_seconds now (?b + ?b * rnd * (1 / 10)))"
    using assms(1) by (simp add: failed_def Let_def)
  with backoff_bounds [OF assms(2,3), of "nat (ob_attempts r - 1)"] show ?thesis
    by (intro exI [of _ "plus_seconds now (?b + ?b * rnd * (1 / 10))"])
      (simp only: plus_seconds_def datetime.sel add_le_cancel_left simp_thms)
qed

section \<open>A small outbox\<close>

definition sample_event :: recommendation_generated where
  "sample_event = \<lparr>ev_event_id = 11, ev_occurred_at = utc 0, ev_aggregate_id = 7, ev_user_id = UserId 7,
     ev_generated_at = utc 0, ev_items = []\<rparr>"

definition sample_record :: outbox_record where
  "sample_record = outbox_record_of ''reco-events'' None sample_event"

definition sample_outbox :: memory_store where
  "sample_outbox = mem_exit (mem_commit (mem_enqueue (mem_open ''reco-events'' None empty_store) [sample_event]))"

definition broker_down :: "unit transport" where
  "broker_down = \<lparr>tr_publish = (\<lambda>r e. (Inl (ConnectionError ''no broker''), e)), tr_random = (\<lambda>e. (1 / 2, e))\<rparr>"

definition broker_up :: "unit transport" where
  "broker_up = \<lparr>tr_publish = (\<lambda>r e. (Inr (), e)), tr_random = (\<lambda>e. (1 / 2, e))\<rparr>"

definition sample_drained :: memory_store where
  "sample_drained = sample_outbox\<lparr>ms_outbox :=
     [(11, sample_record\<lparr>ob_attempts := 1, ob_published_at := Some (utc 5), ob_last_error := None\<rparr>)]\<rparr>"

lemma sample_outbox_run: "outbox_run tr sample_outbox"
  unfolding sample_outbox_def
proof (rule outbox_run.commit [OF outbox_run.start])
  show "mem_txn empty_store (mem_enqueue (mem_open ''reco-events'' None empty_store) [sample_event])"
    by (simp add: mem_txn_def mem_enqueue_def mem_open_def store_ok_empty keyed_def)
qed (auto simp: mem_enqueue_def mem_open_def)

lemma sample_outbox_records: "ms_outbox sample_outbox = [(11, sample_record)]"
  by (simp add: sample_outbox_def mem_exit_def mem_commit_def mem_enqueue_def mem_open_def empty_store_def
      sample_record_def sample_event_def)

lemma sample_record_simps [simp]:
  "ob_id sample_record = 11" "ob_published_at sample_record = None" "ob_attempts sample_record = 0"
  "ob_dead_lettered sample_record = False" "ob_next_attempt_at sample_record = None"
  "ob_occurred_at sample_record = utc 0"
  by (simp_all add: sample_record_def sample_event_def)

lemma sample_outbox_drained:
  "drain_once mem_outbox_store broker_up 50 (utc 5) (sample_outbox, ()) =
     (1, sample_drained, ())"
  by (simp add: sample_drained_def drain_once_def mem_outbox_store_def mem_due_def sample_outbox_records is_due_def is_pending_def
      py_take_def publish_record_def broker_up_def Let_def mem_record_outcome_def)

section \<open>The dispatcher on the in-memory store\<close>

text \<open>C28: the life of an outbox record. In every outbox that commits and drains can lead to, with any
  transport, every record has been attempted at most five times; a pending one fewer than that; a
  dead-lettered one exactly five times, never published and with its last error kept; a published one at
  least once and not dead-lettered. The pending records, the dead letters and the published ones add up.\<close>

theorem outbox_records_stay_well_formed:
  assumes "outbox_run tr st"
  shows "(\<forall>k r. map_of (ms_outbox st) k = Some r \<longrightarrow> ob_id r = k \<and> record_ok r) \<and>
    int (length (ms_outbox st)) = mem_pending_count st + mem_dlq_depth st +
      int (card {r \<in> ran (map_of (ms_outbox st)). ob_published_at r \<noteq> None})"
proof
  note ok = outbox_run_ok [OF assms]
  show "\<forall>k r. map_of (ms_outbox st) k = Some r \<longrightarrow> ob_id r = k \<and> record_ok r"
    using ok by (auto simp: ran_def dest: keyedD)
  have "\<forall>r \<in> set (map snd (ms_outbox st)). record_ok r"
    using ok set_values [of "ms_outbox st"] by (auto simp: keyed_def)
  note records_add_up [OF this]
  then show "int (length (ms_outbox st)) = mem_pending_count st + mem_dlq_depth st +
      int (card {r \<in> ran (map_of (ms_outbox st)). ob_published_at r \<noteq> None})"
    using length_filter_values [of ob_id "ms_outbox st" "\<lambda>r. ob_published_at r \<noteq> None"] ok
    by (simp add: mem_pending_count_def mem_dlq_depth_def)
qed

lemma outbox_records_stay_well_formed_witness:
  "record_ok sample_record \<and> ob_id sample_record = 11 \<and>
    1 = mem_pending_count sample_outbox + mem_dlq_depth sample_outbox +
      int (card {r \<in> ran (map_of (ms_outbox sample_outbox)). ob_published_at r \<noteq> None})"
proof -
  have m: "map_of (ms_outbox sample_outbox) 11 = Some sample_record" "length (ms_outbox sample_outbox) = 1"
    by (simp_all add: sample_outbox_records)
  note w = outbox_records_stay_well_formed [OF sample_outbox_run [where tr = broker_down]]
  from w [THEN conjunct1, rule_format, OF m(1)] w [THEN conjunct2] show ?thesis by (simp only: m(2) of_nat_1)
qed

text \<open>A drain makes exactly one attempt at each record of its batch, the earliest due records up to the
  batch size, and leaves every other record as it was; its answer is the number of records of the batch
  that are now published.\<close>

lemma drain_attempts_the_due_records:
  assumes "outbox_run tr st" "drain_once mem_outbox_store tr batch now (st, e) = (n, st', e')"
  shows "\<exists>ready. best_first (map_of (ms_outbox st)) (is_due now) (\<lambda>r. instant (ob_occurred_at r)) batch ready \<and>
    (\<forall>k. k \<notin> ob_id ` set ready \<longrightarrow> map_of (ms_outbox st') k = map_of (ms_outbox st) k) \<and>
    (\<forall>r \<in> set ready. \<exists>r'. map_of (ms_outbox st') (ob_id r) = Some r' \<and> attempt r r') \<and>
    n = int (length (filter (\<lambda>r. \<exists>r'. map_of (ms_outbox st') (ob_id r) = Some r' \<and> ob_published_at r' \<noteq> None) ready))"
proof -
  have "keyed ob_id (ms_outbox st)" using outbox_run_ok [OF assms(1)] ..
  from mem_outbox.drain_once_spec [OF this assms(2)] show ?thesis by blast
qed

lemma drain_attempts_the_due_records_witness:
  "\<exists>ready. best_first (map_of (ms_outbox sample_outbox)) (is_due (utc 5)) (\<lambda>r. instant (ob_occurred_at r)) 50 ready \<and>
    1 = int (length (filter (\<lambda>r. \<exists>r'. map_of (ms_outbox sample_drained) (ob_id r) = Some r' \<and> ob_published_at r' \<noteq> None) ready))"
  using drain_attempts_the_due_records [OF sample_outbox_run sample_outbox_drained] by blast

text \<open>C29: delivery ends. However many drains run, with whatever transport, a record is never lost, keeps its
  id and its payload, and is attempted at most five times in all, counting the attempts it had; a record that
  is published or dead-lettered is never attempted again.\<close>

theorem drains_end:
  assumes "outbox_run tr st" "(drain_step mem_outbox_store tr)\<^sup>*\<^sup>* st st'" "map_of (ms_outbox st) k = Some r"
  shows "\<exists>r' n. map_of (ms_outbox st') k = Some r' \<and> (attempt ^^ n) r r' \<and>
    ob_id r' = ob_id r \<and> ob_payload r' = ob_payload r \<and>
    ob_attempts r' = ob_attempts r + int n \<and> ob_attempts r' \<le> 5 \<and> (\<not> is_pending r \<longrightarrow> r' = r)"
proof -
  have ok: "keyed ob_id (ms_outbox st)" "record_ok r"
    using outbox_run_ok [OF assms(1)] assms(3) by (auto simp: ran_def)
  obtain r' n where r': "map_of (ms_outbox st') k = Some r'" "(attempt ^^ n) r r'"
    using mem_outbox.drains_record [OF assms(2) ok(1) assms(3)] by blast
  with attempts_bounded [OF r'(2) ok(2)] show ?thesis by blast
qed

lemma drains_end_witness:
  "\<exists>r' n. map_of (ms_outbox sample_drained) 11 = Some r' \<and> (attempt ^^ n) sample_record r' \<and>
    ob_id r' = ob_id sample_record \<and> ob_payload r' = ob_payload sample_record \<and>
    ob_attempts r' = ob_attempts sample_record + int n \<and> ob_attempts r' \<le> 5"
proof -
  have run: "(drain_step mem_outbox_store broker_up)\<^sup>*\<^sup>* sample_outbox sample_drained"
    using sample_outbox_drained unfolding drain_step_def by blast
  have "map_of (ms_outbox sample_outbox) 11 = Some sample_record" by (simp add: sample_outbox_records)
  from drains_end [OF sample_outbox_run run this] show ?thesis by blast
qed

text \<open>C30: what a refused attempt does. The record keeps the error as text. After the fifth attempt it is
  dead-lettered; before, its next attempt is due between \<open>0.5 * 2^k\<close> and \<open>0.55 * 2^k\<close> seconds after the
  drain began, \<open>k\<close> being the attempts made earlier, and not before: the wait doubles each time.\<close>

theorem refused_attempt_backs_off:
  assumes "is_pending r" "0 \<le> ob_attempts r"
    and "tr_publish tr (r\<lparr>ob_attempts := ob_attempts r + 1\<rparr>) e = (Inl x, e1)"
    and "0 \<le> fst (tr_random tr e1)" "fst (tr_random tr e1) < 1"
    and "publish_record mem_outbox_store tr now r (st, e) = (b, st', e')"
  shows "\<not> b \<and> (\<exists>r'. map_of (ms_outbox st') (ob_id r) = Some r' \<and>
    ob_last_error r' = Some (exn_name x @ '': '' @ exn_text x) \<and> ob_attempts r' = ob_attempts r + 1 \<and>
    (if ob_attempts r < 4
     then is_pending r' \<and> (\<exists>t. ob_next_attempt_at r' = Some t \<and> offset t = offset now \<and>
       wall now + 500000 * 2 ^ nat (ob_attempts r) \<le> wall t \<and> wall t \<le> wall now + 550000 * 2 ^ nat (ob_attempts r))
     else ob_dead_lettered r' \<and> (\<forall>now. \<not> is_due now r')))"
proof -
  let ?r = "r\<lparr>ob_attempts := ob_attempts r + 1\<rparr>"
  define rnd where "rnd = (if MAX_ATTEMPTS \<le> ob_attempts ?r then 0 else fst (tr_random tr e1))"
  have b: "\<not> b" "st' = mem_record_outcome (failed now x rnd ?r) st"
    using assms(6) by (auto simp: publish_record_def assms(3) rnd_def Let_def mem_outbox_store_def split: prod.splits)
  have rnd: "0 \<le> rnd" "rnd < 1" using assms(4,5) by (simp_all add: rnd_def)
  have m: "map_of (ms_outbox st') (ob_id r) = Some (failed now x rnd ?r)"
    using b(2) by (simp add: mem_record_outcome_def dict_simps)
  show ?thesis
  proof (cases "ob_attempts r < 4")
    case True
    then have "ob_attempts ?r < MAX_ATTEMPTS" by (simp add: MAX_ATTEMPTS_def)
    from failed_retries [OF this rnd, of now x] b(1) m True assms(1) show ?thesis
      by (intro conjI exI [of _ "failed now x rnd ?r"]) (auto simp: is_pending_def MAX_ATTEMPTS_def)
  next
    case False
    then show ?thesis using b
      by (simp add: mem_record_outcome_def dict_simps failed_def Let_def MAX_ATTEMPTS_def is_pending_def is_due_def)
  qed
qed

lemma refused_attempt_backs_off_witness:
  "\<exists>r' t. ob_last_error r' = Some ''ConnectionError: no broker'' \<and> ob_attempts r' = 1 \<and>
     is_pending r' \<and> ob_next_attempt_at r' = Some t \<and> 500005 \<le> wall t \<and> wall t \<le> 550005"
proof -
  obtain b st' e' where "publish_record mem_outbox_store broker_down (utc 5) sample_record (sample_outbox, ()) = (b, st', e')"
    by (metis prod_cases3)
  from refused_attempt_backs_off [OF _ _ _ _ _ this, of "ConnectionError ''no broker''" "()"] show ?thesis
    by (auto simp: broker_down_def is_pending_def utc_def)
qed

text \<open>C31: recovery. When the broker accepts what it is given, a drain whose batch is large enough for the
  records that are due publishes all of them, and answers how many they were: nothing stays due.\<close>

theorem healthy_drain_publishes_everything_due:
  assumes "outbox_run tr st" "\<And>r e. \<exists>e'. tr_publish tr r e = (Inr (), e')"
    and "mem_pending_count st \<le> batch"
    and "drain_once mem_outbox_store tr batch now (st, e) = (n, st', e')"
  shows "n = int (card {r \<in> ran (map_of (ms_outbox st)). is_due now r}) \<and>
    (\<forall>k r. map_of (ms_outbox st) k = Some r \<longrightarrow> is_due now r \<longrightarrow>
      (\<exists>r'. map_of (ms_outbox st') k = Some r' \<and> ob_published_at r' \<noteq> None)) \<and>
    {r \<in> ran (map_of (ms_outbox st')). is_due now r} = {}"
proof -
  let ?m = "map_of (ms_outbox st)" and ?m' = "map_of (ms_outbox st')"
  let ?pub = "\<lambda>r. \<exists>r'. ?m' (ob_id r) = Some r' \<and> ob_published_at r' \<noteq> None"
  let ?D = "{r \<in> ran ?m. is_due now r}"
  have ok: "keyed ob_id (ms_outbox st)" using outbox_run_ok [OF assms(1)] ..
  obtain ready where r: "best_first ?m (is_due now) (\<lambda>r. instant (ob_occurred_at r)) batch ready"
    "\<forall>k. k \<notin> ob_id ` set ready \<longrightarrow> ?m' k = ?m k" "n = int (length (filter ?pub ready))"
    "keyed ob_id (ms_outbox st')"
    using mem_outbox.drain_once_spec [OF ok assms(4)] by blast
  have fin: "finite (ran ?m)" by (simp add: finite_ran)
  have "card ?D \<le> card {r \<in> ran ?m. is_pending r}"
    using fin by (intro card_mono) (auto simp: is_due_def)
  then have batch: "int (card ?D) \<le> batch" and pos: "0 \<le> batch"
    using assms(3) length_filter_values [OF ok, of is_pending] by (simp_all add: mem_pending_count_def)
  have set: "set ready = ?D" using best_first_all [OF r(1) batch] .
  let ?due = "mem_due st now batch"
  have due: "best_first ?m (is_due now) (\<lambda>r. instant (ob_occurred_at r)) batch ?due"
    using mem_outbox.due [OF ok os_due_memory] by simp
  have "n = int (length ?due)"
    using mem_outbox.drain_once_spec [OF ok assms(4)] assms(2) by (simp add: os_due_memory)
  with best_first_length [OF due pos] batch have n: "n = int (card ?D)" by simp
  moreover have "card ?D = length ready"
    using set distinct_card [OF best_first_sorted [OF r(1), THEN conjunct2]] by simp
  ultimately have "length (filter ?pub ready) = length ready" using r(3) by simp
  then have "\<forall>r \<in> set ready. ?pub r" using length_filter_less [of _ ready ?pub] by (metis less_irrefl)
  with set have pub: "\<forall>r \<in> ?D. ?pub r" by simp
  have keys: "ob_id r = k" if "?m k = Some r" for k r using keyedD [OF ok that] .
  show ?thesis
  proof (intro conjI allI impI)
    show "n = int (card ?D)" by (rule n)
    show "\<exists>r'. ?m' k = Some r' \<and> ob_published_at r' \<noteq> None" if "?m k = Some r" "is_due now r" for k r
      using pub keys [OF that(1)] that by (auto simp: ran_def)
    have False if "?m' k = Some r" "is_due now r" for k r
    proof (cases "k \<in> ob_id ` set ready")
      case True
      then obtain q where "q \<in> ?D" "k = ob_id q" using set by blast
      with pub that show False by (auto simp: is_due_def is_pending_def)
    next
      case False
      with r(2) that(1) have m: "?m k = Some r" by simp
      then have "r \<in> ?D" using that(2) by (auto simp: ran_def)
      with set False keys [OF m] show False by blast
    qed
    then show "{r \<in> ran ?m'. is_due now r} = {}" by (auto simp: ran_def)
  qed
qed

lemma healthy_drain_publishes_everything_due_witness:
  "1 = int (card {r \<in> ran (map_of (ms_outbox sample_outbox)). is_due (utc 5) r})"
  using healthy_drain_publishes_everything_due [OF sample_outbox_run _ _ sample_outbox_drained]
  by (simp add: broker_up_def mem_pending_count_def sample_outbox_records is_pending_def)

end
