(* ===== verification/Timestamps.thy ===== *)
theory Timestamps
  imports Messaging
begin

text \<open>
  \<open>datetime.fromisoformat\<close>, for the extended format, the one RFC 3339 and \<open>isoformat\<close> write: a
  date \<open>YYYY-MM-DD\<close>, any separator, hours with optional minutes, seconds and a fraction, and
  \<open>Z\<close> or a signed offset. Compact dates, week dates and hour 24, which newer Python versions
  read as well, count as malformed. The lemmas show that it undoes \<open>isoformat\<close>.
\<close>

section \<open>datetime.fromisoformat\<close>

definition digit_of :: "char \<Rightarrow> int option" where
  "digit_of c = (let n = cp c in if 48 \<le> n \<and> n \<le> 57 then Some (int n - 48) else None)"

fun digits :: "nat \<Rightarrow> int \<Rightarrow> string \<Rightarrow> (int \<times> string) option" where
  "digits 0 a s = Some (a, s)"
| "digits (Suc k) a [] = None"
| "digits (Suc k) a (c # cs) = (case digit_of c of None \<Rightarrow> None | Some d \<Rightarrow> digits k (10 * a + d) cs)"

fun literal :: "char \<Rightarrow> string \<Rightarrow> string option" where
  "literal c [] = None"
| "literal c (x # xs) = (if x = c then Some xs else None)"

definition days_of_civil :: "int \<Rightarrow> int \<Rightarrow> int \<Rightarrow> int" where
  "days_of_civil y m d =
     (let y = (if m \<le> 2 then y - 1 else y); era = y div 400; yoe = y mod 400;
          mp = (if 2 < m then m - 3 else m + 9); doy = (153 * mp + 2) div 5 + d - 1
      in era * 146097 + (yoe * 365 + yoe div 4 - yoe div 100 + doy) - 719468)"

text \<open>The date part; a date is one of the calendar when its day number names it back.\<close>

definition parse_date :: "string \<Rightarrow> (int \<times> string) option" where
  "parse_date s =
     Option.bind (digits 4 0 s) (\<lambda>(y, s).
     Option.bind (literal CHR ''-'' s) (\<lambda>s.
     Option.bind (digits 2 0 s) (\<lambda>(m, s).
     Option.bind (literal CHR ''-'' s) (\<lambda>s.
     Option.bind (digits 2 0 s) (\<lambda>(d, s).
       if 1 \<le> y \<and> civil (days_of_civil y m d) = (y, m, d) then Some (days_of_civil y m d, s) else None)))))"

text \<open>A fraction of a second: any number of digits, of which six count.\<close>

definition parse_fraction :: "string \<Rightarrow> int option" where
  "parse_fraction s =
     (if s = [] \<or> list_ex (\<lambda>c. digit_of c = None) s then None
      else map_option (\<lambda>(us, _). us) (digits 6 0 (take 6 s @ replicate (6 - length s) (CHR ''0''))))"

text \<open>\<open>HH[:MM[:SS[.f]]]\<close>, in microseconds; hours below 24, minutes and seconds below 60.\<close>

definition time_of :: "int \<Rightarrow> int \<Rightarrow> int \<Rightarrow> int \<Rightarrow> int option" where
  "time_of h m s us =
     (if h < 24 \<and> m < 60 \<and> s < 60 then Some (((h * 60 + m) * 60 + s) * 1000000 + us) else None)"

definition parse_seconds :: "int \<Rightarrow> int \<Rightarrow> string \<Rightarrow> int option" where
  "parse_seconds h m t =
     (case digits 2 0 t of
        None \<Rightarrow> None
      | Some (s, []) \<Rightarrow> time_of h m s 0
      | Some (s, c # cs) \<Rightarrow>
          (if c = CHR ''.'' \<or> c = CHR '','' then Option.bind (parse_fraction cs) (time_of h m s) else None))"

definition parse_clock :: "string \<Rightarrow> int option" where
  "parse_clock t =
     (case digits 2 0 t of
        None \<Rightarrow> None
      | Some (h, []) \<Rightarrow> time_of h 0 0 0
      | Some (h, c # t) \<Rightarrow>
          (if c \<noteq> CHR '':'' then None
           else case digits 2 0 t of
               None \<Rightarrow> None
             | Some (m, []) \<Rightarrow> time_of h m 0 0
             | Some (m, c # t) \<Rightarrow> if c \<noteq> CHR '':'' then None else parse_seconds h m t))"

fun parse_offset :: "string \<Rightarrow> int option option" where
  "parse_offset [] = Some None"
| "parse_offset (c # s) =
     (if c = CHR ''Z'' then (if s = [] then Some (Some 0) else None)
      else map_option (\<lambda>n. Some (if c = CHR ''-'' then - n else n)) (parse_clock s))"

definition zone_mark :: "char \<Rightarrow> bool" where
  "zone_mark c \<longleftrightarrow> c = CHR ''+'' \<or> c = CHR ''-'' \<or> c = CHR ''Z''"

definition fromisoformat :: "string \<Rightarrow> datetime option" where
  "fromisoformat s =
     Option.bind (parse_date s) (\<lambda>(days, s).
       case s of
         [] \<Rightarrow> Some (DateTime (days * 86400000000) None)
       | [sep] \<Rightarrow> Some (DateTime (days * 86400000000) None)
       | sep # t \<Rightarrow>
           Option.bind (parse_clock (takeWhile (\<lambda>c. \<not> zone_mark c) t)) (\<lambda>us.
           Option.bind (parse_offset (dropWhile (\<lambda>c. \<not> zone_mark c) t)) (\<lambda>z.
             Some (DateTime (days * 86400000000 + us) z))))"

section \<open>Printed numbers read back\<close>

definition digit :: "int \<Rightarrow> char" where
  "digit d = char_of (48 + nat d)"

fun dec :: "nat \<Rightarrow> int \<Rightarrow> string" where
  "dec 0 n = []"
| "dec (Suc k) n = dec k (n div 10) @ [digit (n mod 10)]"

lemma digit_of_digit [simp]: "0 \<le> d \<Longrightarrow> d < 10 \<Longrightarrow> digit_of (digit d) = Some d"
  by (simp add: digit_of_def digit_def Let_def nat_less_iff)

lemma length_dec [simp]: "length (dec k n) = k"
  by (induction k arbitrary: n) auto

lemma digits_dec: "0 \<le> n \<Longrightarrow> n < 10 ^ k \<Longrightarrow> digits k a (dec k n @ s) = Some (a * 10 ^ k + n, s)"
proof (induction k arbitrary: n s)
  case 0
  then show ?case by simp
next
  case (Suc k)
  have split: "digits (Suc k) a (xs @ ys) = Option.bind (digits k a xs) (\<lambda>(b, zs). digits 1 b (zs @ ys))"
    if "length xs = k" for xs ys
    using that by (induction k arbitrary: a xs) (auto split: option.splits simp: length_Suc_conv)
  have n: "n div 10 < 10 ^ k" "0 \<le> n div 10" using Suc.prems by (auto simp: div_less_iff_less_mult)
  have m: "0 \<le> n mod 10" "n mod 10 < 10" by auto
  have "digits (Suc k) a (dec k (n div 10) @ digit (n mod 10) # s) =
      Option.bind (digits k a (dec k (n div 10) @ [])) (\<lambda>(b, zs). digits 1 b (zs @ digit (n mod 10) # s))"
    by (subst split) simp_all
  also have "\<dots> = Some (10 * (a * 10 ^ k + n div 10) + n mod 10, s)"
    unfolding Suc.IH [OF n(2,1)] by (simp add: digit_of_digit [OF m])
  also have "10 * (a * 10 ^ k + n div 10) + n mod 10 = a * 10 ^ Suc k + n" by simp
  finally show ?case by simp
qed

lemma digit_0: "digit 0 = CHR ''0''"
  by code_simp

lemma dec_0: "dec k 0 = replicate k (CHR ''0'')"
  by (induction k) (simp_all add: digit_0 replicate_append_same)

lemma pad_dec:
  assumes "0 < k" "0 \<le> n" "n < 10 ^ k"
  shows "pad k n = dec k n"
proof -
  have "n < 10 ^ k \<Longrightarrow> length (nat_str n) \<le> k \<and> replicate (k - length (nat_str n)) (CHR ''0'') @ nat_str n = dec k (int n)"
    if "0 < k" for k n
    using that
  proof (induction k arbitrary: n)
    case 0
    then show ?case by simp
  next
    case (Suc k)
    show ?case
    proof (cases "n < 10")
      case True
      then show ?thesis by (simp add: nat_str.simps [of n] dec_0 digit_def)
    next
      case False
      then have "0 < k" using Suc.prems by (cases k) auto
      moreover have "n div 10 < 10 ^ k" using Suc.prems by (simp add: div_less_iff_less_mult)
      ultimately have "length (nat_str (n div 10)) \<le> k"
        "replicate (k - length (nat_str (n div 10))) (CHR ''0'') @ nat_str (n div 10) = dec k (int (n div 10))"
        using Suc.IH by auto
      moreover have "nat (int n mod 10) = n mod 10" by (simp add: nat_mod_as_int)
      ultimately show ?thesis using False
        by (simp add: nat_str.simps [of n] digit_def zdiv_int flip: append_assoc)
    qed
  qed
  from this [of k "nat n"] assms show ?thesis by (simp add: pad_def Let_def nat_less_iff)
qed

lemma digits_pad:
  "0 < k \<Longrightarrow> 0 \<le> n \<Longrightarrow> n < 10 ^ k \<Longrightarrow> digits k 0 (pad k n @ s) = Some (n, s)"
  using digits_dec [of n k 0 s] by (simp add: pad_dec)

lemma dec_digit: "c \<in> set (dec k n) \<Longrightarrow> digit_of c \<noteq> None"
  by (induction k arbitrary: n) auto

lemma digit_no_mark: "digit_of c \<noteq> None \<Longrightarrow> \<not> zone_mark c"
  by (auto simp: zone_mark_def digit_of_def Let_def cp_def)

section \<open>The calendar\<close>

lemma doe_bounds:
  fixes e :: int
  assumes "0 \<le> e" "e < 146097"
  defines "y \<equiv> (e - e div 1460 + e div 36524 - e div 146096) div 365"
  shows "0 \<le> y \<and> y < 400 \<and> 0 \<le> e - (365 * y + y div 4 - y div 100) \<and> e - (365 * y + y div 4 - y div 100) \<le> 365"
proof (cases "e = 146096")
  case True
  then show ?thesis by (simp add: y_def)
next
  case False
  define c where "c = e div 36524"
  define b where "b = (24 * c + (e - 36524 * c)) div 1460"
  define s where "s = (24 * c + (e - 36524 * c)) mod 1460"
  have c1: "36524 * c \<le> e" "e < 36524 * c + 36524"
    using mult_div_mod_eq [of 36524 e] pos_mod_bound [of 36524 e] pos_mod_sign [of 36524 e] unfolding c_def by linarith+
  then have "-1 < c" "c < 4" using assms(1,2) False by linarith+
  then have "c = 0 \<or> c = 1 \<or> c = 2 \<or> c = 3" by arith
  note c = this c1
  have s: "24 * c + (e - 36524 * c) = 1460 * b + s" "0 \<le> s" "s < 1460" by (simp_all add: b_def s_def)
  have b: "0 \<le> b" "b \<le> 25" using s c by linarith+
  define t where "t = (s - b - 24 * c) div 365"
  have e: "e = s + (25 * c + b) * 1460" using s(1) by (simp add: distrib_right)
  have "e div 1460 = 25 * c + b" using s(2,3) unfolding e by simp
  moreover have "e div 146096 = 0" using assms(1,2) False by simp
  ultimately have "y = (e - (25 * c + b) + c) div 365" by (simp only: y_def c_def [symmetric] diff_0_right)
  also have "e - (25 * c + b) + c = (s - b - 24 * c) + (100 * c + 4 * b) * 365" using e by (simp add: distrib_right)
  finally have y: "y = 100 * c + 4 * b + t" by (simp add: t_def)
  have t: "365 * t \<le> s - b - 24 * c" "s - b - 24 * c < 365 * t + 365" 
    using mult_div_mod_eq [of 365 "s - b - 24 * c"] pos_mod_bound [of 365 "s - b - 24 * c"] pos_mod_sign [of 365 "s - b - 24 * c"]
    unfolding t_def by linarith+
  have "-2 < t" "t < 4" using t s b c by linarith+
  then have tt: "t = -1 \<or> t = 0 \<or> t = 1 \<or> t = 2 \<or> t = 3" by arith
  have y4: "y div 4 = 25 * c + b + (if t = -1 then -1 else 0)" 
  proof -
    have "y = (25 * c + b) * 4 + t" using y by simp
    then have "y div 4 = 25 * c + b + t div 4" by simp
    with tt show ?thesis by auto
  qed
  have b25: "b = 25 \<Longrightarrow> t = -1" using t s b c tt by linarith
  have y100: "y div 100 = c + (if 4 * b + t = -1 then - 1 else 0)"
  proof -
    have "y = (4 * b + t) + c * 100" using y by simp
    then have "y div 100 = c + (4 * b + t) div 100" by simp
    moreover have "(4 * b + t) div 100 = (if 4 * b + t = -1 then - 1 else 0)"
    proof (cases "4 * b + t = -1")
      case True
      then show ?thesis by simp
    next
      case False
      then have "0 \<le> 4 * b + t" using tt b by linarith
      moreover have "4 * b + t < 100" using tt b b25 by (cases "b = 25") auto
      ultimately show ?thesis using False by simp
    qed
    ultimately show ?thesis by simp
  qed
  have nn: "4 * b + t \<noteq> -1" using t s b c tt by linarith
  have lo: "0 \<le> 4 * b + t" using nn tt b by linarith
  have hi: "4 * b + t < 100" using tt b b25 by (cases "b = 25") auto
  have val: "e - (365 * y + y div 4 - y div 100) = s - b - 24 * c - 365 * t + (if t = -1 then 1 else 0)"
    using nn unfolding y4 y100 by (simp add: e y)
  have "0 \<le> y" "y < 400" using y c lo hi by linarith+
  moreover have "0 \<le> s - b - 24 * c - 365 * t" "s - b - 24 * c - 365 * t \<le> 364" using t by linarith+
  ultimately show ?thesis unfolding val by simp
qed

lemma div_between:
  fixes n k :: int
  assumes "0 < k"
  shows "k * (n div k) \<le> n" "n < k * (n div k) + k"
  using mult_div_mod_eq [of k n] pos_mod_bound [OF assms, of n] pos_mod_sign [OF assms, of n] by linarith+

lemma civil_inverse:
  assumes "civil n = (y, m, d)"
  shows "days_of_civil y m d = n" and "1 \<le> m" "m \<le> 12" "1 \<le> d" "d \<le> 31"
    and "-719162 \<le> n \<Longrightarrow> 1 \<le> y" and "n \<le> 2932896 \<Longrightarrow> y \<le> 9999"
proof -
  define era where "era = (n + 719468) div 146097"
  define e where "e = (n + 719468) mod 146097"
  define x where "x = (e - e div 1460 + e div 36524 - e div 146096) div 365"
  define v where "v = e - (365 * x + x div 4 - x div 100)"
  define p where "p = (5 * v + 2) div 153"
  define q where "q = (153 * p + 2) div 5"
  have e: "0 \<le> e" "e < 146097" "n + 719468 = era * 146097 + e" by (simp_all add: e_def era_def)
  have b: "0 \<le> x" "x < 400" "0 \<le> v" "v \<le> 365"
    using doe_bounds [OF e(1,2), folded x_def, folded v_def] by blast+
  have "civil n = (x + era * 400 + (if (if p < 10 then p + 3 else p - 9) \<le> 2 then 1 else 0),
      (if p < 10 then p + 3 else p - 9), v - q + 1)"
    unfolding q_def p_def v_def x_def e_def era_def civil_def Let_def by (rule refl)
  then have yx: "y = x + era * 400 + (if (if p < 10 then p + 3 else p - 9) \<le> 2 then 1 else 0)"
    "m = (if p < 10 then p + 3 else p - 9)" "d = v - q + 1"
    using assms by simp_all
  have p1: "153 * p \<le> 5 * v + 2" "5 * v + 2 < 153 * p + 153"
    using div_between [of 153 "5 * v + 2", folded p_def] by simp_all
  then have p: "0 \<le> p" "p \<le> 11" using b by linarith+
  have q: "5 * q \<le> 153 * p + 2" "153 * p + 2 < 5 * q + 5"
    using div_between [of 5 "153 * p + 2", folded q_def] by simp_all
  show "1 \<le> m" "m \<le> 12" using p yx(2) by auto
  show "1 \<le> d" "d \<le> 31" using p1 q yx(3) by linarith+
  have base: "(if m \<le> 2 then y - 1 else y) = x + era * 400" using yx by auto
  have mp: "(if 2 < m then m - 3 else m + 9) = p" using p yx(2) by auto
  have "(x + era * 400) div 400 = era" "(x + era * 400) mod 400 = x" using b by auto
  then show "days_of_civil y m d = n"
    unfolding days_of_civil_def Let_def base mp yx(3) using e(3) by (simp add: v_def flip: q_def)
  show "1 \<le> y" if "-719162 \<le> n"
  proof (cases "era = 0")
    case True
    show ?thesis
    proof (cases "x = 0")
      case True
      then have "v = e" by (simp add: v_def)
      moreover have "306 \<le> e" using that e(3) \<open>era = 0\<close> by simp
      ultimately have "10 \<le> p" using p1 by linarith
      then show ?thesis using yx(1) True \<open>era = 0\<close> p by simp
    qed (use True b yx(1) in simp)
  next
    case False
    then have "1 \<le> era" using that e by linarith
    then show ?thesis using yx(1) b by (simp split: if_splits)
  qed
  show "y \<le> 9999" if "n \<le> 2932896"
  proof (cases "era = 24 \<and> x = 399")
    case True
    then have "e \<le> 146036" using e(3) that by simp
    then have "v \<le> 305" using True by (simp add: v_def)
    then have "p < 10" using p1 by linarith
    then show ?thesis using yx(1) True p by simp
  next
    case False
    have "era \<le> 24" using e that by linarith
    then show ?thesis using False b yx(1) by (cases "era = 24") (auto split: if_splits)
  qed
qed

section \<open>isoformat and back\<close>

lemma pad_text [simp]:
  "0 < k \<Longrightarrow> 0 \<le> n \<Longrightarrow> n < 10 ^ k \<Longrightarrow> length (pad k n) = k"
  "0 < k \<Longrightarrow> 0 \<le> n \<Longrightarrow> n < 10 ^ k \<Longrightarrow> c \<in> set (pad k n) \<Longrightarrow> digit_of c \<noteq> None"
  by (simp_all add: pad_dec dec_digit)

lemma pad_no_mark: "0 < k \<Longrightarrow> 0 \<le> n \<Longrightarrow> n < 10 ^ k \<Longrightarrow> \<forall>c \<in> set (pad k n). \<not> zone_mark c"
  by (intro ballI digit_no_mark) (rule pad_text(2))

lemma parse_fraction_pad: "0 \<le> us \<Longrightarrow> us < 1000000 \<Longrightarrow> parse_fraction (pad 6 us) = Some us"
  using digits_pad [of 6 us "[]"] pad_text [of 6 us]
  by (auto simp: parse_fraction_def list_ex_iff dest: arg_cong [where f = length])

lemma parse_clock_seconds:
  assumes "0 \<le> h" "h < 24" "0 \<le> m" "m < 60" "0 \<le> s" "s < 60" "0 \<le> us" "us < 1000000"
  shows "parse_clock (pad 2 h @ '':'' @ pad 2 m @ '':'' @ pad 2 s @ (if us = 0 then [] else ''.'' @ pad 6 us)) =
    Some (((h * 60 + m) * 60 + s) * 1000000 + us)"
  using assms by (simp add: parse_clock_def parse_seconds_def digits_pad digits_pad [where s = "[]", simplified]
      parse_fraction_pad time_of_def)

lemma parse_clock_minutes:
  assumes "0 \<le> h" "h < 24" "0 \<le> m" "m < 60"
  shows "parse_clock (pad 2 h @ '':'' @ pad 2 m) = Some ((h * 60 + m) * 60000000)"
  using assms by (simp add: parse_clock_def digits_pad digits_pad [where s = "[]", simplified] time_of_def)

text \<open>What is left of a number of microseconds below a day.\<close>

lemma clock_parts:
  fixes r :: int
  assumes "0 \<le> r" "r < 86400000000"
  defines "s \<equiv> r div 1000000" and "us \<equiv> r mod 1000000"
  shows "0 \<le> s div 3600" "s div 3600 < 24" "0 \<le> s div 60 mod 60" "s div 60 mod 60 < 60" "0 \<le> s mod 60" "s mod 60 < 60"
    "0 \<le> us" "us < 1000000" "((s div 3600 * 60 + s div 60 mod 60) * 60 + s mod 60) * 1000000 + us = r"
proof -
  have s: "0 \<le> s" "s < 86400" "s * 1000000 + us = r" using assms(1,2) by (simp_all add: s_def us_def)
  then show "0 \<le> s div 3600" "s div 3600 < 24" by simp_all
  show "((s div 3600 * 60 + s div 60 mod 60) * 60 + s mod 60) * 1000000 + us = r"
  proof -
    have "s div 3600 = s div 60 div 60" by (simp add: zdiv_zmult2_eq [symmetric])
    then have "s div 3600 * 60 + s div 60 mod 60 = s div 60" by simp
    then show ?thesis using s(3) by simp
  qed
qed (simp_all add: us_def)

lemma parse_offset_str:
  assumes "\<bar>z\<bar> < 86400000000"
  shows "parse_offset (offset_str z) = Some (Some z)" "zone_mark (hd (offset_str z))" "offset_str z \<noteq> []"
proof -
  define s where "s = \<bar>z\<bar> div 1000000"
  define us where "us = \<bar>z\<bar> mod 1000000"
  note c = clock_parts [OF abs_ge_zero assms, folded s_def us_def]
  let ?sign = "if z < 0 then CHR ''-'' else CHR ''+''"
  let ?t = "pad 2 (s div 3600) @ '':'' @ pad 2 (s div 60 mod 60) @
    (if s mod 60 = 0 \<and> us = 0 then [] else '':'' @ pad 2 (s mod 60) @ (if us = 0 then [] else ''.'' @ pad 6 us))"
  have o: "offset_str z = ?sign # ?t" by (simp add: offset_str_def Let_def s_def us_def)
  have "parse_clock ?t = Some \<bar>z\<bar>"
  proof (cases "s mod 60 = 0 \<and> us = 0")
    case True
    then show ?thesis using parse_clock_minutes [OF c(1-4)] c(9) by simp
  next
    case False
    then show ?thesis using parse_clock_seconds [OF c(1-8)] c(9) by (simp only: False if_False)
  qed
  then show "parse_offset (offset_str z) = Some (Some z)" unfolding o by auto
  show "zone_mark (hd (offset_str z))" "offset_str z \<noteq> []" unfolding o by (auto simp: zone_mark_def)
qed

lemma takeWhile_dropWhile_marked:
  assumes "\<forall>c \<in> set xs. \<not> P c" "ys = [] \<or> P (hd ys)"
  shows "takeWhile (\<lambda>c. \<not> P c) (xs @ ys) = xs \<and> dropWhile (\<lambda>c. \<not> P c) (xs @ ys) = ys"
  using assms by (cases ys) (auto simp: takeWhile_append dropWhile_append)

lemma fromisoformat_parts:
  assumes "parse_date s = Some (days, sep # t)" "2 \<le> length t"
    and "takeWhile (\<lambda>c. \<not> zone_mark c) t = clock" "parse_clock clock = Some us"
    and "dropWhile (\<lambda>c. \<not> zone_mark c) t = zone" "parse_offset zone = Some z"
  shows "fromisoformat s = Some (DateTime (days * 86400000000 + us) z)"
  using assms by (cases t) (auto simp: fromisoformat_def)

text \<open>The timestamps Python has: years 1 to 9999, offsets below a day.\<close>

definition representable :: "datetime \<Rightarrow> bool" where
  "representable t \<longleftrightarrow> -62135596800000000 \<le> wall t \<and> wall t < 253402300800000000 \<and>
     (case offset t of None \<Rightarrow> True | Some z \<Rightarrow> \<bar>z\<bar> < 86400000000)"

lemma parse_date_iso:
  assumes "civil n = (y, m, d)" "-719162 \<le> n" "n \<le> 2932896"
  shows "parse_date (pad 4 y @ ''-'' @ pad 2 m @ ''-'' @ pad 2 d @ s) = Some (n, s)"
  using civil_inverse [OF assms(1)] assms by (simp add: parse_date_def digits_pad)

theorem fromisoformat_isoformat:
  assumes "representable t"
  shows "fromisoformat (isoformat t) = Some t"
proof -
  obtain y m d where c: "civil (wall t div 86400000000) = (y, m, d)" by (metis prod_cases3)
  define r where "r = wall t mod 86400000000"
  define s where "s = r div 1000000"
  define us where "us = r mod 1000000"
  define zone where "zone = (case offset t of None \<Rightarrow> [] | Some z \<Rightarrow> offset_str z)"
  let ?t = "pad 2 (s div 3600) @ '':'' @ pad 2 (s div 60 mod 60) @ '':'' @ pad 2 (s mod 60) @ (if us = 0 then [] else ''.'' @ pad 6 us)"
  have n: "-719162 \<le> wall t div 86400000000" "wall t div 86400000000 \<le> 2932896"
    using assms by (auto simp: representable_def)
  have "0 \<le> r" "r < 86400000000" by (simp_all add: r_def)
  note p = clock_parts [OF this, folded s_def us_def]
  have iso: "isoformat t = pad 4 y @ ''-'' @ pad 2 m @ ''-'' @ pad 2 d @ ''T'' @ ?t @ zone"
    by (simp add: isoformat_def Let_def c r_def s_def us_def zone_def)
  have z: "parse_offset zone = Some (offset t)" "zone = [] \<or> zone_mark (hd zone)"
    using assms parse_offset_str by (auto simp: zone_def representable_def split: option.splits)
  have "\<forall>c \<in> set (pad 2 (s div 3600)). \<not> zone_mark c" "\<forall>c \<in> set (pad 2 (s div 60 mod 60)). \<not> zone_mark c"
    "\<forall>c \<in> set (pad 2 (s mod 60)). \<not> zone_mark c" "\<forall>c \<in> set (pad 6 us). \<not> zone_mark c"
    by (rule pad_no_mark [OF _ p(1) order.strict_trans2 [OF p(2)]] pad_no_mark [OF _ p(3) order.strict_trans2 [OF p(4)]]
        pad_no_mark [OF _ p(5) order.strict_trans2 [OF p(6)]] pad_no_mark [OF _ p(7) order.strict_trans2 [OF p(8)]]; simp)+
  then have "\<forall>c \<in> set ?t. \<not> zone_mark c" "\<not> zone_mark CHR '':''"
    by (simp_all add: ball_Un) (simp_all add: zone_mark_def)
  then have split: "takeWhile (\<lambda>c. \<not> zone_mark c) (?t @ zone) = ?t" "dropWhile (\<lambda>c. \<not> zone_mark c) (?t @ zone) = zone"
    using takeWhile_dropWhile_marked [of ?t zone_mark zone] z(2) by blast+
  have len: "2 \<le> length (?t @ zone)" by simp
  have clk: "parse_clock ?t = Some r" using parse_clock_seconds [OF p(1-8)] p(9) by simp
  have wall: "wall t div 86400000000 * 86400000000 + r = wall t" by (simp add: r_def)
  have "parse_date (isoformat t) = Some (wall t div 86400000000, CHR ''T'' # ?t @ zone)"
    unfolding iso using parse_date_iso [OF c n, of "''T'' @ ?t @ zone"] by (simp only: append.simps)
  from fromisoformat_parts [OF this len split(1) clk split(2) z(1)] wall show ?thesis by simp
qed

end
