(* ===== verification/Wire.thy ===== *)
theory Wire
  imports Timestamps
begin

text \<open>
  Reading what other services put on the broker: \<open>str\<close> and the truth of a JSON value, and the
  helpers of \<open>presentation/consumers/envelope.py\<close>. How Python prints a float (\<open>repr\<close>) is the
  parameter \<open>fs\<close>, since a float is a real number here.
\<close>

section \<open>str and bool of a JSON value\<close>

fun json_repr :: "(real \<Rightarrow> string) \<Rightarrow> json \<Rightarrow> string" where
  "json_repr fs JNull = ''None''"
| "json_repr fs (JBool b) = (if b then ''True'' else ''False'')"
| "json_repr fs (JInt i) = int_str i"
| "json_repr fs (JFloat x) = fs x"
| "json_repr fs (JStr s) = py_repr s"
| "json_repr fs (JList xs) = ''['' @ py_join '', '' (map (json_repr fs) xs) @ '']''"
| "json_repr fs (JDict d) =
     ''{'' @ py_join '', '' (map (\<lambda>(k, v). py_repr k @ '': '' @ json_repr fs v) d) @ ''}''"

definition py_str :: "(real \<Rightarrow> string) \<Rightarrow> json \<Rightarrow> string" where
  "py_str fs j = (case j of JStr s \<Rightarrow> s | _ \<Rightarrow> json_repr fs j)"

fun py_truthy :: "json \<Rightarrow> bool" where
  "py_truthy JNull = False"
| "py_truthy (JBool b) = b"
| "py_truthy (JInt i) = (i \<noteq> 0)"
| "py_truthy (JFloat x) = (x \<noteq> 0)"
| "py_truthy (JStr s) = (s \<noteq> [])"
| "py_truthy (JList xs) = (xs \<noteq> [])"
| "py_truthy (JDict d) = (d \<noteq> [])"

lemma py_str_JStr [simp]: "py_str fs (JStr s) = s"
  by (simp add: py_str_def)

text \<open>\<open>d.get(k)\<close>: an absent key and a null one are both \<open>None\<close>.\<close>

definition json_get :: "(string, json) dict \<Rightarrow> string \<Rightarrow> json" where
  "json_get d k = dget d k JNull"

text \<open>\<open>d.get(key, default)\<close>: the default is for an absent key only.\<close>

definition get_or :: "(string, json) dict \<Rightarrow> string \<Rightarrow> string \<Rightarrow> json" where
  "get_or d k z = (case map_of d k of None \<Rightarrow> JStr z | Some j \<Rightarrow> j)"

section \<open>float of a JSON value\<close>

text \<open>\<open>type(body).__name__\<close>\<close>

fun json_type :: "json \<Rightarrow> string" where
  "json_type JNull = ''NoneType''"
| "json_type (JBool b) = ''bool''"
| "json_type (JInt i) = ''int''"
| "json_type (JFloat x) = ''float''"
| "json_type (JStr s) = ''str''"
| "json_type (JList xs) = ''list''"
| "json_type (JDict d) = ''dict''"

text \<open>\<open>float(value)\<close>; what \<open>float\<close> makes of a string is the parameter \<open>rf\<close>.\<close>

fun py_float :: "(string \<Rightarrow> real option) \<Rightarrow> json \<Rightarrow> exn + real" where
  "py_float rf (JBool b) = Inr (if b then 1 else 0)"
| "py_float rf (JInt i) = Inr (of_int i)"
| "py_float rf (JFloat x) = Inr x"
| "py_float rf (JStr s) =
     (case rf s of None \<Rightarrow> Inl (ValueError (''could not convert string to float: '' @ py_repr s)) | Some x \<Rightarrow> Inr x)"
| "py_float rf j = Inl (TypeError (''float() argument must be a string or a real number, not '' @ py_repr (json_type j)))"

section \<open>Reading an envelope\<close>

definition payload_of :: "outbox_record \<Rightarrow> (string, json) dict" where
  "payload_of r = (case json_get (ob_payload r) ''payload'' of JDict d \<Rightarrow> d | _ \<Rightarrow> [])"

definition game_id_of :: "(real \<Rightarrow> string) \<Rightarrow> (string, json) dict \<Rightarrow> game_id option" where
  "game_id_of fs payload =
     (let raw = json_get payload ''game_id'' in
      if raw = JNull then None
      else case game_id_parse (py_str fs raw) of Inl x \<Rightarrow> None | Inr g \<Rightarrow> Some g)"

definition user_id_of :: "(real \<Rightarrow> string) \<Rightarrow> (string, json) dict \<Rightarrow> string \<Rightarrow> user_id option" where
  "user_id_of fs payload key =
     (let raw = json_get payload key in
      if raw = JNull then None
      else case user_id_parse (py_str fs raw) of Inl x \<Rightarrow> None | Inr u \<Rightarrow> Some u)"

definition timestamp_of :: "(real \<Rightarrow> string) \<Rightarrow> json \<Rightarrow> datetime option" where
  "timestamp_of fs raw =
     (if raw = JNull then None else fromisoformat (py_replace ''Z'' ''+00:00'' (py_str fs raw)))"

text \<open>\<open>UUID(str(raw))\<close>, with the error of the constructor or of the \<open>int(hex, 16)\<close> in it.\<close>

definition uuid_error :: "string \<Rightarrow> string" where
  "uuid_error raw =
     (let hex = py_replace ''uuid:'' [] (py_replace ''urn:'' [] raw);
          hex = filter (\<lambda>c. c \<noteq> CHR ''-'') (strip_chars ''{}'' hex)
      in if length hex \<noteq> 32 then ''badly formed hexadecimal UUID string''
         else if int16 hex = None then ''invalid literal for int() with base 16: '' @ py_repr hex
         else ''int is out of range (need a 128-bit value)'')"

definition uuid_of :: "string \<Rightarrow> exn + uuid" where
  "uuid_of s = (case uuid_parse s of Some u \<Rightarrow> Inr u | None \<Rightarrow> Inl (ValueError (uuid_error s)))"

definition event_id_of :: "(real \<Rightarrow> string) \<Rightarrow> outbox_record \<Rightarrow> exn + uuid" where
  "event_id_of fs r =
     (let raw = json_get (ob_payload r) ''event_id'' in
      if raw = JNull then Inr (ob_id r) else uuid_of (py_str fs raw))"

end
