(* ===== verification/Bus.thy ===== *)
theory Bus
  imports Outbox Wire
begin

text \<open>
  The messaging infrastructure between the outbox and the consumers: the idempotency wrapper
  (\<open>infrastructure/messaging/bus/idempotent.py\<close>) over a log of processed events, the in-process bus
  (\<open>bus/in_process.py\<close>), the Kafka subscriber and publisher (\<open>messaging/kafka/\<close>). A handler acts on a
  state \<open>'w\<close>. The broker's client is a parameter: \<open>connect\<close> and \<open>send\<close> are the calls of aiokafka,
  the messages of a topic arrive as a list. Message bytes are taken as the JSON values they stand for.
\<close>

type_synonym 'w handler = "outbox_record \<Rightarrow> 'w \<Rightarrow> (exn + unit) \<times> 'w"

section \<open>The idempotency wrapper\<close>

record 'w event_log =
  log_seen :: "'w \<Rightarrow> uuid \<Rightarrow> bool"
  log_mark :: "'w \<Rightarrow> uuid \<Rightarrow> 'w"

definition idempotent :: "(real \<Rightarrow> string) \<Rightarrow> 'w event_log \<Rightarrow> 'w handler \<Rightarrow> 'w handler" where
  "idempotent fs plog handler r w =
     (case event_id_of fs r of
        Inl x \<Rightarrow> (Inl x, w)
      | Inr e \<Rightarrow>
          if log_seen plog w e then (Inr (), w)
          else case handler r w of
              (Inl x, w) \<Rightarrow> (Inl x, w)
            | (Inr _, w) \<Rightarrow> (Inr (), log_mark plog w e))"

definition mem_log :: "memory_store event_log" where
  "mem_log =
     \<lparr>log_seen = (\<lambda>st e. e \<in> ms_processed_events st),
      log_mark = (\<lambda>st e. st\<lparr>ms_processed_events := insert e (ms_processed_events st)\<rparr>)\<rparr>"

locale processed_log =
  fixes plog :: "'w event_log"
  assumes seen_mark: "log_seen plog (log_mark plog w e) e' \<longleftrightarrow> e' = e \<or> log_seen plog w e'"
    and mark_seen: "log_seen plog w e \<Longrightarrow> log_mark plog w e = w"
begin

lemma second_delivery:
  assumes "idempotent fs plog h r w = (Inr (), w')"
  shows "idempotent fs plog h r w' = (Inr (), w')"
  using assms seen_mark by (auto simp: idempotent_def split: sum.splits if_splits prod.splits)

lemma first_delivery:
  assumes "event_id_of fs r = Inr e" "\<not> log_seen plog w e"
  shows "idempotent fs plog h r w =
    (case h r w of (Inl x, w) \<Rightarrow> (Inl x, w) | (Inr _, w) \<Rightarrow> (Inr (), log_mark plog w e))"
  using assms by (simp add: idempotent_def)

end

interpretation mem_log: processed_log mem_log
  by unfold_locales (auto simp: mem_log_def insert_absorb)

section \<open>The in-process bus\<close>

record 'w bus =
  bus_handlers :: "(string, 'w handler list) dict"
  bus_delivered :: "outbox_record list"
  bus_down :: bool
  bus_world :: 'w

definition new_bus :: "'w \<Rightarrow> 'w bus" where
  "new_bus w = \<lparr>bus_handlers = [], bus_delivered = [], bus_down = False, bus_world = w\<rparr>"

definition bus_subscribe :: "string \<Rightarrow> string \<Rightarrow> 'w handler \<Rightarrow> 'w bus \<Rightarrow> 'w bus" where
  "bus_subscribe topic etype h b =
     b\<lparr>bus_handlers := AList.update etype (dget (bus_handlers b) etype [] @ [h]) (bus_handlers b)\<rparr>"

definition force_down :: "bool \<Rightarrow> 'w bus \<Rightarrow> 'w bus" where
  "force_down down b = b\<lparr>bus_down := down\<rparr>"

text \<open>
  \<open>asyncio.gather\<close>: every handler runs, in order since none of them gives up control half way, and
  the first exception is raised.
\<close>

fun gather :: "'w handler list \<Rightarrow> outbox_record \<Rightarrow> 'w \<Rightarrow> (exn + unit) \<times> 'w" where
  "gather [] r w = (Inr (), w)"
| "gather (h # hs) r w =
     (let (a, w) = h r w; (b, w) = gather hs r w in (case a of Inl x \<Rightarrow> Inl x | Inr _ \<Rightarrow> b, w))"

definition bus_publish :: "outbox_record \<Rightarrow> 'w bus \<Rightarrow> (exn + unit) \<times> 'w bus" where
  "bus_publish r b =
     (if bus_down b then (Inl (ConnectionError ''event bus is unavailable''), b)
      else let b = b\<lparr>bus_delivered := bus_delivered b @ [r]\<rparr>;
               handlers = dget (bus_handlers b) (ob_event_type r) []
        in if handlers = [] then (Inr (), b)
           else case gather handlers r (bus_world b) of (res, w) \<Rightarrow> (res, b\<lparr>bus_world := w\<rparr>))"

section \<open>Kafka: from envelope to handler\<close>

definition RETRY_SUFFIX :: string where "RETRY_SUFFIX = ''.retry''"
definition DLQ_SUFFIX :: string where "DLQ_SUFFIX = ''.dlq''"

definition ends_with :: "string \<Rightarrow> string \<Rightarrow> bool" where
  "ends_with suffix s \<longleftrightarrow> starts_with (rev suffix) (rev s)"

text \<open>\<open>fresh\<close> and \<open>now\<close> are what \<open>uuid4()\<close> and the clock would give. A correlation id is read by no
  handler; one that is not a string is kept as its text.\<close>

definition record_from_envelope ::
  "(real \<Rightarrow> string) \<Rightarrow> uuid \<Rightarrow> datetime \<Rightarrow> (string, json) dict \<Rightarrow> string \<Rightarrow> exn + outbox_record" where
  "record_from_envelope fs fresh now envelope topic =
     bindE (if json_get envelope ''event_id'' = JNull then Inr fresh
            else uuid_of (py_str fs (json_get envelope ''event_id''))) (\<lambda>event_id.
     bindE (if json_get envelope ''aggregate_id'' = JNull then Inr event_id
            else uuid_of (py_str fs (json_get envelope ''aggregate_id''))) (\<lambda>aggregate_id.
     bindE (if json_get envelope ''occurred_at'' = JNull then Inr now
            else case fromisoformat (py_str fs (json_get envelope ''occurred_at'')) of
                Some t \<Rightarrow> Inr t
              | None \<Rightarrow> Inl (ValueError (''Invalid isoformat string: '' @
                  py_repr (py_str fs (json_get envelope ''occurred_at'')))))
       (\<lambda>occurred_at.
     Inr \<lparr>ob_id = event_id, ob_aggregate_id = aggregate_id,
          ob_aggregate_type = py_str fs (get_or envelope ''aggregate_type'' ''Unknown''),
          ob_event_type = py_str fs (get_or envelope ''event_type'' []), ob_payload = envelope,
          ob_occurred_at = occurred_at, ob_topic = topic, ob_partition_key = [],
          ob_correlation_id = (let c = json_get envelope ''correlation_id'' in
            if c = JNull then None else Some (py_str fs c)),
          ob_published_at = None, ob_attempts = 0, ob_last_error = None, ob_next_attempt_at = None,
          ob_dead_lettered = False, ob_headers = []\<rparr>)))"

type_synonym 'w subscriptions = "(string, (string, 'w handler list) dict) dict"

definition kafka_subscribe :: "string \<Rightarrow> string \<Rightarrow> 'w handler \<Rightarrow> 'w subscriptions \<Rightarrow> 'w subscriptions" where
  "kafka_subscribe topic etype h subs =
     (let types = dget subs topic [] in
      AList.update topic (AList.update etype (dget types etype [] @ [h]) types) subs)"

type_synonym 'w sender = "string \<Rightarrow> (string, json) dict \<Rightarrow> 'w \<Rightarrow> (exn + unit) \<times> 'w"

definition reroute_target :: "string \<Rightarrow> string" where
  "reroute_target topic = (if ends_with RETRY_SUFFIX topic then topic @ DLQ_SUFFIX else topic @ RETRY_SUFFIX)"

definition reroute ::
  "'w sender option \<Rightarrow> string \<Rightarrow> (string, json) dict \<Rightarrow> string \<Rightarrow> 'w \<Rightarrow> (exn + unit) \<times> 'w" where
  "reroute producer topic envelope error w =
     (case producer of
        None \<Rightarrow> (Inr (), w)
      | Some send \<Rightarrow> send (reroute_target topic) (AList.update ''error'' (JStr error) envelope) w)"

fun run_handlers :: "'w handler list \<Rightarrow> outbox_record \<Rightarrow> 'w \<Rightarrow> (exn + unit) \<times> 'w" where
  "run_handlers [] r w = (Inr (), w)"
| "run_handlers (h # hs) r w =
     (case h r w of (Inl x, w) \<Rightarrow> (Inl x, w) | (Inr _, w) \<Rightarrow> run_handlers hs r w)"

text \<open>The attempts that are left: the last one to fail reroutes the message.\<close>

fun deliver_attempts ::
  "nat \<Rightarrow> (string \<Rightarrow> 'w \<Rightarrow> (exn + unit) \<times> 'w) \<Rightarrow> 'w handler list \<Rightarrow> outbox_record \<Rightarrow> 'w \<Rightarrow> (exn + unit) \<times> 'w" where
  "deliver_attempts 0 give_up hs r w = (Inr (), w)"
| "deliver_attempts (Suc n) give_up hs r w =
     (case run_handlers hs r w of
        (Inr _, w) \<Rightarrow> (Inr (), w)
      | (Inl x, w) \<Rightarrow> if n = 0 then give_up (exn_text x) w else deliver_attempts n give_up hs r w)"

definition kafka_handle ::
  "(real \<Rightarrow> string) \<Rightarrow> 'w sender option \<Rightarrow> int \<Rightarrow> 'w subscriptions \<Rightarrow> string \<Rightarrow>
   uuid \<times> datetime \<times> (string, json) dict \<Rightarrow> 'w \<Rightarrow> (exn + unit) \<times> 'w" where
  "kafka_handle fs producer max_retries subs topic = (\<lambda>(fresh, now, envelope) w.
     case record_from_envelope fs fresh now envelope topic of
       Inl x \<Rightarrow> (Inl x, w)
     | Inr r \<Rightarrow>
         (let handlers = dget (dget subs topic []) (ob_event_type r) [] in
          if handlers = [] then (Inr (), w)
          else deliver_attempts (nat max_retries) (reroute producer topic envelope) handlers r w))"

text \<open>
  \<open>_run\<close>: the offset is committed after each message that was handled; an exception ends the task,
  and the messages from there on stay uncommitted. The result is the exception, if any, the number
  of messages committed, and the state.
\<close>

fun kafka_run ::
  "(real \<Rightarrow> string) \<Rightarrow> 'w sender option \<Rightarrow> int \<Rightarrow> 'w subscriptions \<Rightarrow> string \<Rightarrow>
   (uuid \<times> datetime \<times> (string, json) dict) list \<Rightarrow> nat \<Rightarrow> 'w \<Rightarrow> exn option \<times> nat \<times> 'w" where
  "kafka_run fs producer max_retries subs topic [] committed w = (None, committed, w)"
| "kafka_run fs producer max_retries subs topic (m # ms) committed w =
     (case kafka_handle fs producer max_retries subs topic m w of
        (Inl x, w) \<Rightarrow> (Some x, committed, w)
      | (Inr _, w) \<Rightarrow> kafka_run fs producer max_retries subs topic ms (committed + 1) w)"

section \<open>Kafka: publishing\<close>

text \<open>The state is whether the producer is connected, and the broker.\<close>

definition kafka_publish ::
  "('e \<Rightarrow> bool \<times> 'e) \<Rightarrow> (string \<Rightarrow> (string, json) dict \<Rightarrow> string \<Rightarrow> 'e \<Rightarrow> (exn + unit) \<times> 'e) \<Rightarrow>
   outbox_record \<Rightarrow> bool \<times> 'e \<Rightarrow> (exn + unit) \<times> bool \<times> 'e" where
  "kafka_publish connect send r = (\<lambda>(up, e).
     let (up, e) = (if up then (True, e) else connect e) in
     if \<not> up then (Inl (ConnectionError ''kafka producer is not connected''), False, e)
     else let key = (if ob_partition_key r = [] then uuid_str (ob_aggregate_id r) else ob_partition_key r);
              (res, e) = send (ob_topic r) (ob_payload r) key e
       in (res, True, e))"

section \<open>The bus under the dispatcher\<close>

definition bus_transport :: "('w bus \<Rightarrow> real \<times> 'w bus) \<Rightarrow> 'w bus transport" where
  "bus_transport random = \<lparr>tr_publish = bus_publish, tr_random = random\<rparr>"

definition attempted :: "outbox_record \<Rightarrow> outbox_record" where
  "attempted r = r\<lparr>ob_attempts := ob_attempts r + 1\<rparr>"

lemma drain_records_up:
  assumes "\<not> bus_down b" "\<forall>r \<in> set rs. dget (bus_handlers b) (ob_event_type r) [] = []"
  shows "\<exists>st'. drain_records so (bus_transport random) now rs n (st, b) =
    (n + int (length rs), st', b\<lparr>bus_delivered := bus_delivered b @ map attempted rs\<rparr>)"
  using assms
proof (induction rs arbitrary: n st b)
  case Nil
  then show ?case by simp
next
  case (Cons r rs)
  let ?b = "b\<lparr>bus_delivered := bus_delivered b @ [attempted r]\<rparr>"
  have "\<exists>st1. publish_record so (bus_transport random) now r (st, b) = (True, st1, ?b)"
    using Cons.prems by (simp add: publish_record_def bus_transport_def bus_publish_def attempted_def Let_def)
  then obtain st1 where "publish_record so (bus_transport random) now r (st, b) = (True, st1, ?b)" ..
  with Cons.IH [of ?b "n + 1" st1] Cons.prems show ?case by auto
qed

lemma drain_records_down:
  assumes "bus_down b" "\<And>b. snd (random b) = b"
  shows "\<exists>st'. drain_records so (bus_transport random) now rs n (st, b) = (n, st', b)"
proof (induction rs arbitrary: st)
  case Nil
  then show ?case by simp
next
  case (Cons r rs)
  have "\<exists>st1. publish_record so (bus_transport random) now r (st, b) = (False, st1, b)"
    using assms by (simp add: publish_record_def bus_transport_def bus_publish_def Let_def split: prod.splits)
      (metis snd_conv)
  then obtain st1 where "publish_record so (bus_transport random) now r (st, b) = (False, st1, b)" ..
  with Cons.IH [of st1] show ?case by auto
qed

text \<open>The dispatcher over the in-process bus. While the bus is up and nobody subscribes to the events
  this service publishes, a drain delivers every record of its batch, in the order of occurrence. While it is
  down a drain delivers nothing, answers zero, and leaves the bus as it was.\<close>

lemma drain_into_the_bus:
  assumes "\<And>b. snd (random b) = (b :: 'w bus)"
    and "\<forall>r \<in> set (mem_due st now batch). dget (bus_handlers b) (ob_event_type r) [] = []"
  shows "\<exists>st'. drain_once mem_outbox_store (bus_transport random) batch now (st, b) =
    (if bus_down b then (0, st', b)
     else (int (length (mem_due st now batch)), st',
       b\<lparr>bus_delivered := bus_delivered b @ map attempted (mem_due st now batch)\<rparr>)) \<and>
    sorted (map (\<lambda>r. instant (ob_occurred_at r)) (mem_due st now batch))"
proof -
  have "sorted (map (\<lambda>r. instant (ob_occurred_at r)) (mem_due st now batch))"
    by (simp add: mem_due_def sorted_py_take)
  then show ?thesis
    using drain_records_up [OF _ assms(2), of mem_outbox_store random now 0 st]
      drain_records_down [of b random mem_outbox_store now "mem_due st now batch" 0 st, OF _ assms(1)]
    by (cases "bus_down b") (auto simp: drain_once_def os_due_memory)
qed

lemma drain_into_the_bus_witness:
  "\<exists>st'. drain_once mem_outbox_store (bus_transport (\<lambda>b. (0, b))) 50 (utc 5) (sample_outbox, new_bus ()) =
    (1, st', (new_bus ())\<lparr>bus_delivered := [attempted sample_record]\<rparr>)"
proof -
  have "mem_due sample_outbox (utc 5) 50 = [sample_record]"
    by (simp add: mem_due_def sample_outbox_records is_due_def is_pending_def py_take_def)
  then show ?thesis
    using drain_into_the_bus [of "\<lambda>b. (0, b)" sample_outbox "utc 5" 50 "new_bus ()"]
    by (simp add: new_bus_def dget_def)
qed

section \<open>Own events, read back\<close>

text \<open>C25: round trip through the broker. The envelope of an event this service publishes is read back, by the
  code every consumer reads envelopes with, as a record with the id, aggregate, type, time of occurrence and
  correlation id the outbox gave it.\<close>

theorem published_event_is_read_back:
  assumes "representable (ev_occurred_at e)"
  shows "record_from_envelope fs fresh now (ob_payload (outbox_record_of topic cid e)) topic =
    Inr ((outbox_record_of topic cid e)\<lparr>ob_partition_key := []\<rparr>)"
  using fromisoformat_isoformat [OF assms]
  by (cases cid) (simp_all add: outbox_record_of_def record_from_envelope_def event_envelope_def json_get_def get_or_def
      dget_def uuid_of_def uuid_parse_str Let_def)

lemma published_event_is_read_back_witness:
  "record_from_envelope (\<lambda>x. []) 0 (utc 9) (ob_payload sample_record) ''reco-events'' =
     Inr (sample_record\<lparr>ob_partition_key := []\<rparr>)"
  using published_event_is_read_back [of sample_event "\<lambda>x. []" 0 "utc 9" "''reco-events''" None]
  by (simp add: sample_record_def sample_event_def representable_def utc_def)

section \<open>Envelopes nobody can read\<close>

text \<open>C24: an envelope whose event id, aggregate id or time is malformed ends the consumer. The exception is raised
  before any handler runs, so it is neither retried nor rerouted: the messages before it are committed, the
  message itself and everything behind it stay uncommitted, and nothing else changes.\<close>

theorem unreadable_envelope_ends_the_consumer:
  assumes "kafka_run fs producer retries subs topic ms 0 w = (None, length ms, w')"
    and "record_from_envelope fs fresh now envelope topic = Inl x"
  shows "kafka_run fs producer retries subs topic (ms @ (fresh, now, envelope) # rest) 0 w = (Some x, length ms, w')"
proof -
  have "kafka_run fs producer retries subs topic (ms @ (fresh, now, envelope) # rest) k w = (Some x, n, w')"
    if "kafka_run fs producer retries subs topic ms k w = (None, n, w')" for k n
    using that assms(2)
    by (induction ms arbitrary: k w) (auto simp: kafka_handle_def split: sum.splits prod.splits)
  from this [OF assms(1)] show ?thesis .
qed

lemma unreadable_envelope_ends_the_consumer_witness:
  "kafka_run (\<lambda>x. []) None 3 [] ''game-events'' ([] @ (0, utc 0, [(''event_id'', JStr ''nonsense'')]) # []) 0 () =
     (Some (ValueError ''badly formed hexadecimal UUID string''), length [], ())"
proof -
  have "record_from_envelope (\<lambda>x. []) 0 (utc 0) [(''event_id'', JStr ''nonsense'')] ''game-events'' =
      Inl (ValueError ''badly formed hexadecimal UUID string'')"
    by code_simp
  from unreadable_envelope_ends_the_consumer [OF _ this, of None 3 "[]" "[]" "()" "()" "[]"] show ?thesis by simp
qed

end
