(* ===== verification/Consumers.thy ===== *)
theory Consumers
  imports Bus Config Generate
begin

text \<open>
  The consumers (\<open>presentation/consumers/\<close>): how a message of the catalogue, order or review service
  becomes a command of the ingesting use cases, and how \<open>register_consumers\<close> subscribes the four
  handlers, each in its idempotency wrapper. The state of a running service is a \<open>node\<close>: its database,
  its clock, and the broker as far as the service writes to it.
\<close>

section \<open>Messages as commands\<close>

definition GAME_PUBLISHED :: string where "GAME_PUBLISHED = ''arcadia.catalog.v1.GamePublished''"
definition GAME_WITHDRAWN :: string where "GAME_WITHDRAWN = ''arcadia.catalog.v1.GameWithdrawn''"
definition PURCHASE_COMPLETED :: string where "PURCHASE_COMPLETED = ''arcadia.order.v1.PurchaseCompleted''"
definition REVIEW_POSTED :: string where "REVIEW_POSTED = ''arcadia.review.v1.ReviewPosted''"
definition LIKE :: string where "LIKE = ''LIKE''"

text \<open>A decoder returns the command the handler runs, \<open>None\<close> for a message it ignores.\<close>

type_synonym decoder = "outbox_record \<Rightarrow> exn + ingest_command option"

definition strings_of :: "(real \<Rightarrow> string) \<Rightarrow> json \<Rightarrow> string list" where
  "strings_of fs raw =
     (case raw of
        JList items \<Rightarrow> map (\<lambda>item. py_strip (py_str fs item)) (filter (\<lambda>item. py_strip (py_str fs item) \<noteq> []) items)
      | _ \<Rightarrow> [])"

text \<open>\<open>str(payload.get(key) or "")\<close>\<close>

definition text_of :: "(real \<Rightarrow> string) \<Rightarrow> (string, json) dict \<Rightarrow> string \<Rightarrow> string" where
  "text_of fs payload key =
     (let raw = json_get payload key in if py_truthy raw then py_str fs raw else [])"

definition published_command :: "(real \<Rightarrow> string) \<Rightarrow> decoder" where
  "published_command fs r =
     (let payload = payload_of r in
      case (game_id_of fs payload, user_id_of fs payload ''developer_id'') of
        (Some g, Some dev) \<Rightarrow>
          (let title = py_strip (text_of fs payload ''title'') in
           if title = [] then Inr None
           else bindE (event_id_of fs r) (\<lambda>e.
             Inr (Some (GamePublished e g dev (take 200 title)
               (strings_of fs (json_get payload ''genres'')) (strings_of fs (json_get payload ''tags''))
               (timestamp_of fs (json_get payload ''published_at'')) (text_of fs payload ''description'')))))
      | _ \<Rightarrow> Inr None)"

definition withdrawn_command :: "(real \<Rightarrow> string) \<Rightarrow> decoder" where
  "withdrawn_command fs r =
     (case game_id_of fs (payload_of r) of
        None \<Rightarrow> Inr None
      | Some g \<Rightarrow> bindE (event_id_of fs r) (\<lambda>e. Inr (Some (GameWithdrawn e g))))"

text \<open>\<open>a or b\<close> of two optional values.\<close>

definition or_else :: "'a option \<Rightarrow> 'a option \<Rightarrow> 'a option" where
  "or_else a b = (case a of None \<Rightarrow> b | Some x \<Rightarrow> Some x)"

definition purchase_command :: "(real \<Rightarrow> string) \<Rightarrow> decoder" where
  "purchase_command fs r =
     (let payload = payload_of r in
      case (or_else (user_id_of fs payload ''recipient_id'') (user_id_of fs payload ''buyer_id''),
            game_id_of fs payload) of
        (Some u, Some g) \<Rightarrow> bindE (event_id_of fs r) (\<lambda>e.
          Inr (Some (PurchaseCompleted e u g
            (or_else (timestamp_of fs (json_get payload ''completed_at''))
                     (timestamp_of fs (json_get payload ''created_at''))))))
      | _ \<Rightarrow> Inr None)"

definition review_command :: "(real \<Rightarrow> string) \<Rightarrow> decoder" where
  "review_command fs r =
     (let payload = payload_of r in
      case (user_id_of fs payload ''author_id'', game_id_of fs payload) of
        (Some u, Some g) \<Rightarrow> bindE (event_id_of fs r) (\<lambda>e.
          Inr (Some (ReviewPosted e u g (py_upper (py_str fs (get_or payload ''sentiment'' [])) = LIKE)
            (timestamp_of fs (json_get (ob_payload r) ''occurred_at'')))))
      | _ \<Rightarrow> Inr None)"

section \<open>Handlers and their registration\<close>

record ('db, 'b) node =
  node_db :: 'db
  node_stamps :: stamps
  node_broker :: 'b

text \<open>Every run of a use case gets a reading of the clock of its own.\<close>

definition consume ::
  "('db, 's) uow_ops \<Rightarrow> int \<Rightarrow> string option \<Rightarrow> decoder \<Rightarrow> ('db, 'b) node handler" where
  "consume ops limit cid decode r nd =
     (case decode r of
        Inl x \<Rightarrow> (Inl x, nd)
      | Inr None \<Rightarrow> (Inr (), nd)
      | Inr (Some c) \<Rightarrow>
          (let (now, ss) = stamps_now (node_stamps nd);
               (res, db) = ingest ops now limit cid c (node_db nd)
           in (res, nd\<lparr>node_db := db, node_stamps := ss\<rparr>)))"

definition node_log :: "'db event_log \<Rightarrow> ('db, 'b) node event_log" where
  "node_log plog =
     \<lparr>log_seen = (\<lambda>nd. log_seen plog (node_db nd)),
      log_mark = (\<lambda>nd e. nd\<lparr>node_db := log_mark plog (node_db nd) e\<rparr>)\<rparr>"

definition subscriptions :: "(real \<Rightarrow> string) \<Rightarrow> settings \<Rightarrow> (string \<times> string \<times> decoder) list" where
  "subscriptions fs ts =
     [(kafka_topic_game_events ts, GAME_PUBLISHED, published_command fs),
      (kafka_topic_game_events ts, GAME_WITHDRAWN, withdrawn_command fs),
      (kafka_topic_purchase_events ts, PURCHASE_COMPLETED, purchase_command fs),
      (kafka_topic_review_events ts, REVIEW_POSTED, review_command fs)]"

definition register_consumers ::
  "(real \<Rightarrow> string) \<Rightarrow> ('db, 's) uow_ops \<Rightarrow> 'db event_log \<Rightarrow> int \<Rightarrow> string option \<Rightarrow> settings \<Rightarrow>
   ('db, 'b) node subscriptions \<Rightarrow> ('db, 'b) node subscriptions" where
  "register_consumers fs ops plog limit cid ts subs =
     fold (\<lambda>(topic, etype, decode).
         kafka_subscribe topic etype (idempotent fs (node_log plog) (consume ops limit cid decode)))
       (subscriptions fs ts) subs"

text \<open>A producer writes to the broker only.\<close>

definition node_sender :: "'b sender \<Rightarrow> ('db, 'b) node sender" where
  "node_sender send topic value nd =
     (case send topic value (node_broker nd) of (res, b) \<Rightarrow> (res, nd\<lparr>node_broker := b\<rparr>))"

section \<open>What a message asks for\<close>

definition decoder_of :: "(real \<Rightarrow> string) \<Rightarrow> settings \<Rightarrow> string \<Rightarrow> string \<Rightarrow> decoder option" where
  "decoder_of fs ts topic etype =
     map_of (map (\<lambda>(t, e, d). ((t, e), d)) (subscriptions fs ts)) (topic, etype)"

definition command_of :: "(real \<Rightarrow> string) \<Rightarrow> settings \<Rightarrow> string \<Rightarrow> outbox_record \<Rightarrow> ingest_command option" where
  "command_of fs ts topic r =
     (case decoder_of fs ts topic (ob_event_type r) of
        None \<Rightarrow> None
      | Some decode \<Rightarrow> (case decode r of Inr (Some c) \<Rightarrow> Some c | _ \<Rightarrow> None))"

lemma event_types_distinct [simp]:
  "GAME_PUBLISHED \<noteq> GAME_WITHDRAWN" "GAME_PUBLISHED \<noteq> PURCHASE_COMPLETED" "GAME_PUBLISHED \<noteq> REVIEW_POSTED"
  "GAME_WITHDRAWN \<noteq> PURCHASE_COMPLETED" "GAME_WITHDRAWN \<noteq> REVIEW_POSTED" "PURCHASE_COMPLETED \<noteq> REVIEW_POSTED"
  "GAME_WITHDRAWN \<noteq> GAME_PUBLISHED" "PURCHASE_COMPLETED \<noteq> GAME_PUBLISHED" "REVIEW_POSTED \<noteq> GAME_PUBLISHED"
  "PURCHASE_COMPLETED \<noteq> GAME_WITHDRAWN" "REVIEW_POSTED \<noteq> GAME_WITHDRAWN" "REVIEW_POSTED \<noteq> PURCHASE_COMPLETED"
  by (simp_all add: GAME_PUBLISHED_def GAME_WITHDRAWN_def PURCHASE_COMPLETED_def REVIEW_POSTED_def)

lemma kafka_subscribe_lookup:
  "dget (dget (kafka_subscribe t e h subs) topic []) etype [] =
     (if topic = t \<and> etype = e then dget (dget subs topic []) etype [] @ [h] else dget (dget subs topic []) etype [])"
  by (simp add: kafka_subscribe_def Let_def dict_simps)

lemma registered_handlers:
  "dget (dget (register_consumers fs ops plog limit cid ts []) topic []) etype [] =
     (case decoder_of fs ts topic etype of
        None \<Rightarrow> []
      | Some decode \<Rightarrow> [idempotent fs (node_log plog) (consume ops limit cid decode)])"
  by (simp add: register_consumers_def subscriptions_def decoder_of_def kafka_subscribe_lookup)
     (simp add: dget_def)

text \<open>The id of a record read from an envelope is the one its consumers deduplicate on.\<close>

lemma record_from_envelope_id:
  "record_from_envelope fs fresh now envelope topic = Inr r \<Longrightarrow>
     event_id_of fs r = Inr (ob_id r) \<and> ob_payload r = envelope \<and> ob_topic r = topic"
  by (auto simp: record_from_envelope_def res_simps event_id_of_def split: if_splits option.splits)

lemma decoders_event:
  assumes "decoder_of fs ts topic etype = Some decode" "event_id_of fs r = Inr e"
  shows "(decode r = Inr None) \<or> (\<exists>c. decode r = Inr (Some c) \<and> cmd_event c = e)"
  using assms
  by (auto simp: decoder_of_def subscriptions_def published_command_def withdrawn_command_def purchase_command_def
      review_command_def Let_def split: if_splits option.splits)

end
