(* ===== verification/Streams.thy ===== *)
theory Streams
  imports Consumers
begin

text \<open>
  Streams of messages through the Kafka subscriber, the idempotency wrappers and the use cases, on the
  in-memory backend: what one message does to the store, that a stream never stops at a message a
  consumer rejects, and that every purchase in it is counted once.
\<close>

section \<open>One message\<close>

text \<open>A producer that is absent, or whose broker takes what it is given.\<close>

definition accepts :: "'b sender option \<Rightarrow> bool" where
  "accepts producer \<longleftrightarrow> (\<forall>send. producer = Some send \<longrightarrow> (\<forall>t v b. fst (send t v b) = Inr ()))"

lemma reroute_accepts:
  assumes "accepts producer"
  obtains b where "reroute (map_option node_sender producer) topic envelope error nd = (Inr (), nd\<lparr>node_broker := b\<rparr>)"
proof (cases producer)
  case None
  with that [of "node_broker nd"] show thesis by (simp add: reroute_def)
next
  case (Some send)
  obtain res b where "send (reroute_target topic) (AList.update ''error'' (JStr error) envelope) (node_broker nd) = (res, b)"
    by fastforce
  moreover have "fst (send (reroute_target topic) (AList.update ''error'' (JStr error) envelope) (node_broker nd)) = Inr ()"
    using assms Some by (simp add: accepts_def)
  ultimately show thesis using that [of b] Some by (simp add: reroute_def node_sender_def)
qed

lemma run_one: "run_handlers [h] r w = (case h r w of (Inl x, w) \<Rightarrow> (Inl x, w) | (Inr _, w) \<Rightarrow> (Inr (), w))"
  by (simp split: prod.splits sum.splits)

abbreviation wrapped ::
  "(real \<Rightarrow> string) \<Rightarrow> user_id set_order \<Rightarrow> game_id set_order \<Rightarrow> string \<Rightarrow> int \<Rightarrow> string option \<Rightarrow>
   decoder \<Rightarrow> (memory_store, 'b) node handler" where
  "wrapped fs iu ig reco limit cid decode \<equiv>
     idempotent fs (node_log mem_log) (consume (memory_ops iu ig reco) limit cid decode)"

text \<open>The wrapped consumer of a command: the wrapper changes nothing the use case would not.\<close>

lemma wrapped_command:
  fixes nd :: "(memory_store, 'b) node"
  assumes "store_ok (node_db nd)" "decode r = Inr (Some c)" "event_id_of fs r = Inr (cmd_event c)"
  shows "\<exists>now nd'. run_handlers [wrapped fs iu ig reco limit cid decode] r nd =
      (fst (ingest (memory_ops iu ig reco) now limit cid c (node_db nd)), nd') \<and>
    node_db nd' = snd (ingest (memory_ops iu ig reco) now limit cid c (node_db nd)) \<and>
    node_broker nd' = node_broker nd"
proof -
  let ?ops = "memory_ops iu ig reco" and ?db = "node_db nd"
  obtain now ss where now: "stamps_now (node_stamps nd) = (now, ss)" by fastforce
  show ?thesis
  proof (cases "cmd_event c \<in> ms_processed_events ?db")
    case True
    then have "ingest ?ops now limit cid c ?db = (Inr (), ?db)"
      using mem.marked_noop [OF assms(1)] by (simp add: store_view_def)
    then show ?thesis using True assms(3)
      by (intro exI [of _ now] exI [of _ nd]) (simp add: idempotent_def node_log_def mem_log_def)
  next
    case False
    obtain res db where i: "ingest ?ops now limit cid c ?db = (res, db)" by fastforce
    define nd' where "nd' = nd\<lparr>node_db := db, node_stamps := ss\<rparr>"
    have run: "consume ?ops limit cid decode r nd = (res, nd')"
      using assms(2) i now by (simp add: consume_def nd'_def)
    have marked: "insert (cmd_event c) (ms_processed_events db) = ms_processed_events db" if "res = Inr ()"
      using mem.handled_marked [OF assms(1), where c = c] i that by (fastforce simp: store_view_def)
    have "wrapped fs iu ig reco limit cid decode r nd = (res, nd')"
      using False assms(3) marked
      by (cases res) (simp_all add: idempotent_def run, simp_all add: node_log_def mem_log_def nd'_def)
    then show ?thesis using i
      by (intro exI [of _ now] exI [of _ nd']) (simp add: run_one nd'_def split: sum.splits)
  qed
qed

lemma raised_unchanged:
  assumes "store_ok st" "fst (ingest (memory_ops iu ig reco) now limit cid c st) = Inl x"
  shows "snd (ingest (memory_ops iu ig reco) now limit cid c st) = st"
  by (rule mem.ingest_cases [OF assms(1), where now = now and limit = limit and cid = cid and c = c
        and iu = iu and ig = ig and topic = reco])
    (use assms(2) in auto)

lemma attempts_command:
  fixes nd :: "(memory_store, 'b) node"
  assumes "store_ok (node_db nd)" "decode r = Inr (Some c)" "event_id_of fs r = Inr (cmd_event c)" "accepts producer"
  shows "\<exists>now nd'. deliver_attempts (Suc n) (reroute (map_option node_sender producer) t envelope)
      [wrapped fs iu ig reco limit cid decode] r nd = (Inr (), nd') \<and>
    node_db nd' = snd (ingest (memory_ops iu ig reco) now limit cid c (node_db nd))"
  using assms(1)
proof (induction n arbitrary: nd)
  case (0 nd)
  from wrapped_command [where r = r and decode = decode and c = c and iu = iu and ig = ig and reco = reco and limit = limit and cid = cid, OF 0 assms(2,3)] obtain now nd' where
    s: "run_handlers [wrapped fs iu ig reco limit cid decode] r nd =
      (fst (ingest (memory_ops iu ig reco) now limit cid c (node_db nd)), nd')"
    "node_db nd' = snd (ingest (memory_ops iu ig reco) now limit cid c (node_db nd))" by blast
  show ?case
  proof (cases "fst (ingest (memory_ops iu ig reco) now limit cid c (node_db nd))")
    case (Inl x)
    obtain b where "reroute (map_option node_sender producer) t envelope (exn_text x) nd' = (Inr (), nd'\<lparr>node_broker := b\<rparr>)"
      using reroute_accepts [OF assms(4)] by metis
    with s Inl show ?thesis by (intro exI [of _ now] exI [of _ "nd'\<lparr>node_broker := b\<rparr>"]) (simp del: run_handlers.simps)
  next
    case (Inr u)
    with s show ?thesis by (intro exI [of _ now] exI [of _ nd']) (simp del: run_handlers.simps)
  qed
next
  case (Suc n nd)
  from wrapped_command [where r = r and decode = decode and c = c and iu = iu and ig = ig and reco = reco and limit = limit and cid = cid, OF Suc.prems assms(2,3)] obtain now nd' where
    s: "run_handlers [wrapped fs iu ig reco limit cid decode] r nd =
      (fst (ingest (memory_ops iu ig reco) now limit cid c (node_db nd)), nd')"
    "node_db nd' = snd (ingest (memory_ops iu ig reco) now limit cid c (node_db nd))" by blast
  show ?case
  proof (cases "fst (ingest (memory_ops iu ig reco) now limit cid c (node_db nd))")
    case (Inl x)
    then have same: "node_db nd' = node_db nd" using s(2) raised_unchanged [OF Suc.prems] by simp
    have "deliver_attempts (Suc (Suc n)) (reroute (map_option node_sender producer) t envelope)
        [wrapped fs iu ig reco limit cid decode] r nd =
      deliver_attempts (Suc n) (reroute (map_option node_sender producer) t envelope)
        [wrapped fs iu ig reco limit cid decode] r nd'"
      using s(1) Inl by (subst deliver_attempts.simps) (simp del: run_handlers.simps deliver_attempts.simps)
    with Suc.IH [of nd'] Suc.prems same show ?thesis by (simp del: deliver_attempts.simps)
  next
    case (Inr u)
    with s show ?thesis by (intro exI [of _ now] exI [of _ nd']) (simp del: run_handlers.simps)
  qed
qed

lemma wrapped_ignored:
  fixes nd :: "(memory_store, 'b) node"
  assumes "decode r = Inr None" "event_id_of fs r = Inr e"
  shows "idempotent fs (node_log mem_log) (consume ops limit cid decode) r nd =
    (Inr (), nd\<lparr>node_db := (node_db nd)\<lparr>ms_processed_events := insert e (ms_processed_events (node_db nd))\<rparr>\<rparr>)"
  using assms by (simp add: idempotent_def node_log_def mem_log_def consume_def insert_absorb)

lemma attempts_ignored:
  fixes nd :: "(memory_store, 'b) node"
  assumes "decode r = Inr None" "event_id_of fs r = Inr e"
  shows "deliver_attempts (Suc n) give_up [idempotent fs (node_log mem_log) (consume ops limit cid decode)] r nd =
    (Inr (), nd\<lparr>node_db := (node_db nd)\<lparr>ms_processed_events := insert e (ms_processed_events (node_db nd))\<rparr>\<rparr>)"
  by (simp add: wrapped_ignored [of decode r fs e, OF assms])

section \<open>A stream\<close>

abbreviation message_record :: "(real \<Rightarrow> string) \<Rightarrow> string \<Rightarrow> uuid \<times> datetime \<times> (string, json) dict \<Rightarrow> exn + outbox_record" where
  "message_record fs topic m \<equiv> record_from_envelope fs (fst m) (fst (snd m)) (snd (snd m)) topic"

lemma handled_message:
  fixes nd :: "(memory_store, 'b) node"
  assumes "store_ok (node_db nd)" "1 \<le> retries" "accepts producer" "message_record fs topic m = Inr r"
  shows "\<exists>nd'. kafka_handle fs (map_option node_sender producer) retries
      (register_consumers fs (memory_ops iu ig reco) mem_log limit cid ts []) topic m nd = (Inr (), nd') \<and>
    (case command_of fs ts topic r of
       None \<Rightarrow> node_db nd' = node_db nd \<or>
         node_db nd' = (node_db nd)\<lparr>ms_processed_events := insert (ob_id r) (ms_processed_events (node_db nd))\<rparr>
     | Some c \<Rightarrow> cmd_event c = ob_id r \<and>
         (\<exists>now. node_db nd' = snd (ingest (memory_ops iu ig reco) now limit cid c (node_db nd))))"
proof -
  note e = record_from_envelope_id [OF assms(4), THEN conjunct1]
  obtain n where n: "nat retries = Suc n" using assms(2) by (cases "nat retries") auto
  obtain fresh now envelope where m: "m = (fresh, now, envelope)" by (cases m)
  show ?thesis
  proof (cases "decoder_of fs ts topic (ob_event_type r)")
    case None
    with assms(4) show ?thesis by (simp add: m kafka_handle_def registered_handlers command_of_def)
  next
    case (Some decode)
    then have k: "kafka_handle fs (map_option node_sender producer) retries
        (register_consumers fs (memory_ops iu ig reco) mem_log limit cid ts []) topic m nd =
      deliver_attempts (Suc n) (reroute (map_option node_sender producer) topic envelope)
        [idempotent fs (node_log mem_log) (consume (memory_ops iu ig reco) limit cid decode)] r nd"
      using assms(4) n by (simp add: m kafka_handle_def registered_handlers)
    from decoders_event [OF Some e] show ?thesis
    proof
      assume "decode r = Inr None"
      with Some show ?thesis unfolding k
        by (simp add: command_of_def attempts_ignored [of decode r fs "ob_id r", OF _ e] del: deliver_attempts.simps)
    next
      assume "\<exists>c. decode r = Inr (Some c) \<and> cmd_event c = ob_id r"
      then obtain c where c: "decode r = Inr (Some c)" "event_id_of fs r = Inr (cmd_event c)" "cmd_event c = ob_id r"
        using e by auto
      from attempts_command [where decode = decode and r = r and c = c, OF assms(1) c(1,2) assms(3), of n topic envelope iu ig reco limit cid] c Some
      show ?thesis unfolding k by (auto simp: command_of_def)
    qed
  qed
qed

text \<open>Counting over a sequence of ids, some of which count: \<open>P\<close> are the ids already seen.\<close>

inductive counting :: "uuid set \<Rightarrow> int \<Rightarrow> (uuid \<times> bool) list \<Rightarrow> uuid set \<Rightarrow> int \<Rightarrow> bool" where
  stop: "counting P n [] P n"
| step: "P1 = P \<or> P1 = insert e P \<Longrightarrow> (b \<longrightarrow> P1 = insert e P) \<Longrightarrow>
    counting P1 (n + (if b \<and> e \<notin> P then 1 else 0)) xs P' n' \<Longrightarrow> counting P n ((e, b) # xs) P' n'"

lemma counting_once:
  assumes "counting P n xs P' n'" "\<forall>x \<in> set xs. \<forall>y \<in> set xs. fst x = fst y \<longrightarrow> snd x = snd y"
  shows "n' = n + int (card (fst ` {x \<in> set xs. snd x} - P))"
  using assms
proof (induction rule: counting.induct)
  case (stop P n)
  then show ?case by simp
next
  case (step P1 P e b n xs P' n')
  let ?new = "fst ` {x \<in> set xs. snd x}"
  have IH: "n' = n + (if b \<and> e \<notin> P then 1 else 0) + int (card (?new - P1))" using step by simp
  show ?case
  proof (cases "b \<and> e \<notin> P")
    case True
    then have "fst ` {x \<in> set ((e, b) # xs). snd x} = insert e ?new" by force
    then have "fst ` {x \<in> set ((e, b) # xs). snd x} - P = insert e (?new - P1)" "e \<notin> ?new - P1"
      using True step.hyps(2) by auto
    with IH True show ?thesis by simp
  next
    case False
    have "e \<notin> ?new" if "\<not> b" using step.prems that by fastforce
    then have "fst ` {x \<in> set ((e, b) # xs). snd x} - P = ?new - P1"
      using False step.hyps(1,2) by (cases b) auto
    with IH False show ?thesis by simp
  qed
qed

definition message_keys ::
  "(real \<Rightarrow> string) \<Rightarrow> settings \<Rightarrow> string \<Rightarrow> uuid \<times> datetime \<times> (string, json) dict \<Rightarrow> uuid \<times> ingest_command option" where
  "message_keys fs ts topic m =
     (case message_record fs topic m of
        Inl x \<Rightarrow> (0, None)
      | Inr r \<Rightarrow> (ob_id r, command_of fs ts topic r))"

definition buys_key :: "game_id \<Rightarrow> uuid \<times> ingest_command option \<Rightarrow> uuid \<times> bool" where
  "buys_key g = (\<lambda>(e, c). (e, case c of None \<Rightarrow> False | Some c \<Rightarrow> buys g c))"

lemma processed_view: "w_processed (store_view st) = ms_processed_events st"
  by (simp add: store_view_def)

lemma marked_view:
  "store_view (st\<lparr>ms_processed_events := insert e (ms_processed_events st)\<rparr>) = put_mark e (store_view st)"
  by (simp add: store_view_def put_mark_def)

lemma store_sound_mark: "store_sound n (put_mark e w) = store_sound n w"
  by (simp add: store_sound_def wf_world_def one_width_def credited_def pref_of_def)

lemma store_ok_mark: "store_ok (st\<lparr>ms_processed_events := x\<rparr>) = store_ok st"
  by (simp add: store_ok_def)

lemma message_step:
  fixes nd :: "(memory_store, 'b) node" and ts :: settings
  assumes "store_ok (node_db nd)" "store_sound k (store_view (node_db nd))"
    and "w_games (store_view (node_db nd)) g = Some gm"
    and "1 \<le> retries" "accepts producer" "message_record fs topic m = Inr r"
  defines "P \<equiv> ms_processed_events (node_db nd)" and "key \<equiv> buys_key g (message_keys fs ts topic m)"
  shows "\<exists>nd' gm'. kafka_handle fs (map_option node_sender producer) retries
      (register_consumers fs (memory_ops iu ig reco) mem_log limit cid ts []) topic m nd = (Inr (), nd') \<and>
    store_ok (node_db nd') \<and> store_sound k (store_view (node_db nd')) \<and>
    w_games (store_view (node_db nd')) g = Some gm' \<and>
    purchase_count gm' = purchase_count gm + (if snd key \<and> fst key \<notin> P then 1 else 0) \<and>
    (ms_processed_events (node_db nd') = P \<or> ms_processed_events (node_db nd') = insert (fst key) P) \<and>
    (snd key \<longrightarrow> ms_processed_events (node_db nd') = insert (fst key) P)"
proof -
  from handled_message [OF assms(1,4-6), of iu ig reco limit cid ts] obtain nd' where
    h: "kafka_handle fs (map_option node_sender producer) retries
      (register_consumers fs (memory_ops iu ig reco) mem_log limit cid ts []) topic m nd = (Inr (), nd')"
    "case command_of fs ts topic r of
       None \<Rightarrow> node_db nd' = node_db nd \<or>
         node_db nd' = (node_db nd)\<lparr>ms_processed_events := insert (ob_id r) (ms_processed_events (node_db nd))\<rparr>
     | Some c \<Rightarrow> cmd_event c = ob_id r \<and>
         (\<exists>now. node_db nd' = snd (ingest (memory_ops iu ig reco) now limit cid c (node_db nd)))" by blast
  show ?thesis
  proof (cases "command_of fs ts topic r")
    case None
    then have key: "key = (ob_id r, False)" by (simp add: key_def buys_key_def message_keys_def assms(6))
    from h None assms(1-3) show ?thesis unfolding key
      by (intro exI [of _ nd'] exI [of _ gm])
        (auto simp: P_def marked_view store_sound_mark store_ok_mark)
  next
    case (Some c)
    then have key: "key = (ob_id r, buys g c)" by (simp add: key_def buys_key_def message_keys_def assms(6))
    obtain now where c: "cmd_event c = ob_id r"
      "node_db nd' = snd (ingest (memory_ops iu ig reco) now limit cid c (node_db nd))" using h(2) Some by auto
    note pop = mem.ingest_popularity [OF assms(1-3), where now = now and limit = limit and cid = cid and c = c
        and iu = iu and ig = ig and topic = reco, folded c(2)]
    have P: "w_processed (store_view st) = ms_processed_events st" for st by (simp add: store_view_def)
    have "\<not> is_undescribable c" if "buys g c" using that by (cases c) (simp_all add: buys_def is_undescribable_def)
    moreover obtain gm' where "w_games (store_view (node_db nd')) g = Some gm'"
      "purchase_count gm' = purchase_count gm + (if buys g c \<and> cmd_event c \<notin> P then 1 else 0)"
      using pop(1) by (auto simp: P P_def)
    ultimately show ?thesis unfolding key
      using h(1) mem.ingest_sound [OF assms(1,2), where now = now and limit = limit and cid = cid and c = c
        and iu = iu and ig = ig and topic = reco, folded c(2)] pop(2,3) c(1)
      by (intro exI [of _ nd'] exI [of _ gm']) (auto simp: P P_def)
  qed
qed

lemma stream_counting:
  fixes nd :: "(memory_store, 'b) node"
  assumes "store_ok (node_db nd)" "store_sound k (store_view (node_db nd))"
    and "w_games (store_view (node_db nd)) g = Some gm"
    and "1 \<le> retries" "accepts producer" "\<forall>m \<in> set ms. \<exists>r. message_record fs topic m = Inr r"
  shows "\<exists>nd' gm'. kafka_run fs (map_option node_sender producer) retries
      (register_consumers fs (memory_ops iu ig reco) mem_log limit cid ts []) topic ms i nd = (None, i + length ms, nd') \<and>
    store_ok (node_db nd') \<and> store_sound k (store_view (node_db nd')) \<and>
    w_games (store_view (node_db nd')) g = Some gm' \<and>
    counting (ms_processed_events (node_db nd)) (purchase_count gm) (map (buys_key g \<circ> message_keys fs ts topic) ms)
      (ms_processed_events (node_db nd')) (purchase_count gm')"
  using assms(1-3,6)
proof (induction ms arbitrary: nd gm i)
  case Nil
  then show ?case by (auto intro: counting.stop)
next
  case (Cons m ms)
  obtain r where r: "message_record fs topic m = Inr r" using Cons.prems(4) by auto
  define e b where "e = fst (buys_key g (message_keys fs ts topic m))" and "b = snd (buys_key g (message_keys fs ts topic m))"
  from message_step [OF Cons.prems(1-3) assms(4,5) r, of iu ig reco limit cid ts, folded e_def b_def]
  obtain nd1 gm1 where 1: "kafka_handle fs (map_option node_sender producer) retries
      (register_consumers fs (memory_ops iu ig reco) mem_log limit cid ts []) topic m nd = (Inr (), nd1)"
    "store_ok (node_db nd1)" "store_sound k (store_view (node_db nd1))" "w_games (store_view (node_db nd1)) g = Some gm1"
    "purchase_count gm1 = purchase_count gm + (if b \<and> e \<notin> ms_processed_events (node_db nd) then 1 else 0)"
    "ms_processed_events (node_db nd1) = ms_processed_events (node_db nd) \<or>
     ms_processed_events (node_db nd1) = insert e (ms_processed_events (node_db nd))"
    "b \<longrightarrow> ms_processed_events (node_db nd1) = insert e (ms_processed_events (node_db nd))" by blast
  have "\<forall>m \<in> set ms. \<exists>r. message_record fs topic m = Inr r" using Cons.prems(4) by simp
  from Cons.IH [OF 1(2-4) this, of "i + 1"] obtain nd' gm' where 2:
    "kafka_run fs (map_option node_sender producer) retries
      (register_consumers fs (memory_ops iu ig reco) mem_log limit cid ts []) topic ms (i + 1) nd1 = (None, i + 1 + length ms, nd')"
    "store_ok (node_db nd')" "store_sound k (store_view (node_db nd'))" "w_games (store_view (node_db nd')) g = Some gm'"
    "counting (ms_processed_events (node_db nd1)) (purchase_count gm1) (map (buys_key g \<circ> message_keys fs ts topic) ms)
      (ms_processed_events (node_db nd')) (purchase_count gm')" by blast
  have "buys_key g (message_keys fs ts topic m) = (e, b)" by (simp add: e_def b_def)
  with counting.step [OF 1(6,7) 2(5) [unfolded 1(5)]] 1(1) 2 show ?case by (auto simp: comp_def)
qed

section \<open>A small node\<close>

definition sample_node :: "(memory_store, (string \<times> (string, json) dict) list) node" where
  "sample_node = \<lparr>node_db = sample_store,
     node_stamps = \<lparr>clock = (\<lambda>n. utc (int n)), uuids = (\<lambda>n. of_nat n), readings = 0, drawn = 0\<rparr>, node_broker = []\<rparr>"

definition sample_envelope :: "uuid \<Rightarrow> string \<Rightarrow> (string, json) dict \<Rightarrow> (string, json) dict" where
  "sample_envelope e ty payload =
     [(''event_id'', JStr (uuid_str e)), (''event_type'', JStr ty), (''payload'', JDict payload)]"

definition sample_delivered :: "uuid \<Rightarrow> string \<Rightarrow> (string, json) dict \<Rightarrow> string \<Rightarrow> outbox_record" where
  "sample_delivered e ty payload topic =
     \<lparr>ob_id = e, ob_aggregate_id = e, ob_aggregate_type = ''Unknown'', ob_event_type = ty,
      ob_payload = sample_envelope e ty payload, ob_occurred_at = utc 0, ob_topic = topic, ob_partition_key = [],
      ob_correlation_id = None, ob_published_at = None, ob_attempts = 0, ob_last_error = None,
      ob_next_attempt_at = None, ob_dead_lettered = False, ob_headers = []\<rparr>"

definition gift_payload :: "(string, json) dict" where
  "gift_payload = [(''recipient_id'', JStr (user_str (UserId 7))), (''buyer_id'', JStr (user_str (UserId 8))),
     (''game_id'', JStr (game_str (GameId 1)))]"

definition unlabelled_payload :: "(string, json) dict" where
  "unlabelled_payload = [(''game_id'', JStr (game_str (GameId 2))), (''developer_id'', JStr (user_str (UserId 8))),
     (''title'', JStr ''Hades''), (''genres'', JList [JStr (replicate 65 (CHR ''x''))])]"

lemma sample_delivered_record:
  "record_from_envelope fs fresh (utc 0) (sample_envelope e ty payload) topic = Inr (sample_delivered e ty payload topic)"
  by (simp add: record_from_envelope_def sample_envelope_def sample_delivered_def json_get_def get_or_def dget_def
      uuid_of_def uuid_parse_str)

lemma sample_delivered_simps [simp]:
  "ob_id (sample_delivered e ty payload topic) = e" "ob_event_type (sample_delivered e ty payload topic) = ty"
  "payload_of (sample_delivered e ty payload topic) = payload"
  "event_id_of fs (sample_delivered e ty payload topic) = Inr e"
  by (simp_all add: sample_delivered_def payload_of_def sample_envelope_def json_get_def dget_def event_id_of_def
      uuid_of_def uuid_parse_str)

lemma gift_ids:
  "user_id_of fs gift_payload ''recipient_id'' = Some (UserId 7)"
  "user_id_of fs gift_payload ''buyer_id'' = Some (UserId 8)" "game_id_of fs gift_payload = Some (GameId 1)"
  by (simp_all add: gift_payload_def user_id_of_def game_id_of_def json_get_def dget_def user_id_roundtrip game_id_roundtrip)

lemma gift_command:
  "command_of fs default_settings ''purchase-events'' (sample_delivered e PURCHASE_COMPLETED gift_payload topic) =
     Some (PurchaseCompleted e (UserId 7) (GameId 1) None)"
  by (simp add: command_of_def decoder_of_def subscriptions_def default_settings_def purchase_command_def Let_def or_else_def
      gift_ids)
    (simp add: gift_payload_def json_get_def dget_def timestamp_of_def)

lemma unlabelled_command:
  "command_of fs default_settings ''game-events'' (sample_delivered e GAME_PUBLISHED unlabelled_payload topic) =
     Some (GamePublished e (GameId 2) (UserId 8) ''Hades'' [replicate 65 (CHR ''x'')] [] None [])"
proof -
  have ids: "game_id_of fs unlabelled_payload = Some (GameId 2)" "user_id_of fs unlabelled_payload ''developer_id'' = Some (UserId 8)"
    by (simp_all add: unlabelled_payload_def user_id_of_def game_id_of_def json_get_def dget_def user_id_roundtrip game_id_roundtrip)
  have strip: "py_strip ''Hades'' = ''Hades''" "py_strip (replicate 65 (CHR ''x'')) = replicate 65 (CHR ''x'')" by code_simp+
  show ?thesis
    by (simp add: command_of_def decoder_of_def subscriptions_def default_settings_def published_command_def Let_def ids)
      (simp add: unlabelled_payload_def text_of_def json_get_def dget_def strings_of_def timestamp_of_def strip)
qed

lemma sample_node_simps [simp]:
  "node_db sample_node = sample_store" "node_broker sample_node = []"
  by (simp_all add: sample_node_def)

lemma accepts_None [simp]: "accepts None"
  by (simp add: accepts_def)

section \<open>Streams on the in-memory backend\<close>

text \<open>C11: exactly-once counting from the broker's messages to the catalogue. A stream of messages of one
  topic, in any order, with any redeliveries, is consumed to its end when every envelope can be read and the
  broker accepts what is rerouted to it, messages that a consumer ignores or rejects included. A game that was
  known has then gained one purchase for each distinct event that asks for one and had not been seen before;
  messages with the same event id are taken to be the same message.\<close>

theorem stream_purchases_counted_once:
  fixes nd :: "(memory_store, 'b) node"
  assumes "store_ok (node_db nd)" "store_sound k (store_view (node_db nd))"
    and "w_games (store_view (node_db nd)) g = Some gm"
    and "1 \<le> retries" "accepts producer" "\<forall>m \<in> set ms. \<exists>r. message_record fs topic m = Inr r"
    and "\<forall>m \<in> set ms. \<forall>m' \<in> set ms. fst (message_keys fs ts topic m) = fst (message_keys fs ts topic m') \<longrightarrow>
      message_keys fs ts topic m = message_keys fs ts topic m'"
  shows "\<exists>nd' gm'. kafka_run fs (map_option node_sender producer) retries
      (register_consumers fs (memory_ops iu ig reco) mem_log limit cid ts []) topic ms 0 nd = (None, length ms, nd') \<and>
    w_games (store_view (node_db nd')) g = Some gm' \<and>
    purchase_count gm' = purchase_count gm +
      int (card ({e. \<exists>m \<in> set ms. \<exists>c. message_keys fs ts topic m = (e, Some c) \<and> buys g c} - ms_processed_events (node_db nd)))"
proof -
  let ?keys = "map (buys_key g \<circ> message_keys fs ts topic) ms"
  from stream_counting [OF assms(1-6), of iu ig reco limit cid ts 0] obtain nd' gm' where
    r: "kafka_run fs (map_option node_sender producer) retries
      (register_consumers fs (memory_ops iu ig reco) mem_log limit cid ts []) topic ms 0 nd = (None, length ms, nd')"
    "w_games (store_view (node_db nd')) g = Some gm'"
    "counting (ms_processed_events (node_db nd)) (purchase_count gm) ?keys (ms_processed_events (node_db nd')) (purchase_count gm')"
    by auto
  have "\<forall>x \<in> set ?keys. \<forall>y \<in> set ?keys. fst x = fst y \<longrightarrow> snd x = snd y"
    using assms(7) by (fastforce simp: buys_key_def split: prod.splits)
  note n = counting_once [OF r(3) this]
  have "fst ` {x \<in> set ?keys. snd x} = {e. \<exists>m \<in> set ms. \<exists>c. message_keys fs ts topic m = (e, Some c) \<and> buys g c}"
    by (force simp: buys_key_def split: prod.splits option.splits)
  with r n show ?thesis by (intro exI [of _ nd'] exI [of _ gm']) simp
qed

lemma stream_purchases_counted_once_witness:
  "\<exists>nd gm. kafka_run (\<lambda>x. []) None 3
      (register_consumers (\<lambda>x. []) (memory_ops ascending ascending ''reco'') mem_log 500 None default_settings [])
      ''purchase-events''
      [(0, utc 0, sample_envelope 10 PURCHASE_COMPLETED gift_payload),
       (0, utc 0, sample_envelope 10 PURCHASE_COMPLETED gift_payload)] 0 sample_node = (None, 2, nd) \<and>
    w_games (store_view (node_db nd)) (GameId 1) = Some gm \<and> purchase_count gm = 1"
proof -
  have key: "message_keys (\<lambda>x. []) default_settings ''purchase-events'' (0, utc 0, sample_envelope 10 PURCHASE_COMPLETED gift_payload) =
      (10, Some (PurchaseCompleted 10 (UserId 7) (GameId 1) None))"
    by (simp add: message_keys_def sample_delivered_record gift_command)
  show ?thesis
    using stream_purchases_counted_once [of sample_node 0 "GameId 1" sample_game 3 None
        "[(0, utc 0, sample_envelope 10 PURCHASE_COMPLETED gift_payload), (0, utc 0, sample_envelope 10 PURCHASE_COMPLETED gift_payload)]"
        "\<lambda>x. []" "''purchase-events''" default_settings ascending ascending "''reco''" 500 None]
    by (simp add: sample_views key sample_delivered_record buys_def numeral_2_eq_2 del: kafka_run.simps)
qed

text \<open>C22: from message to use case. A message that can be read never raises; its effect on the store is that of
  the use case on the command it asks for, run once, whether it succeeds at the first or at a later attempt, is
  rejected every time or was handled before: the wrapper around the consumer makes no difference. A message
  that asks for nothing changes nothing but the log of processed events.\<close>

theorem message_runs_its_command_once:
  fixes nd :: "(memory_store, 'b) node"
  assumes "store_ok (node_db nd)" "1 \<le> retries" "accepts producer" "message_record fs topic m = Inr r"
  shows "\<exists>nd'. kafka_handle fs (map_option node_sender producer) retries
      (register_consumers fs (memory_ops iu ig reco) mem_log limit cid ts []) topic m nd = (Inr (), nd') \<and>
    (case command_of fs ts topic r of
       None \<Rightarrow> node_db nd' = node_db nd \<or>
         node_db nd' = (node_db nd)\<lparr>ms_processed_events := insert (ob_id r) (ms_processed_events (node_db nd))\<rparr>
     | Some c \<Rightarrow> cmd_event c = ob_id r \<and>
         (\<exists>now. node_db nd' = snd (ingest (memory_ops iu ig reco) now limit cid c (node_db nd))))"
  by (rule handled_message [OF assms])

lemma message_runs_its_command_once_witness:
  "\<exists>nd now. kafka_handle (\<lambda>x. []) None 3
      (register_consumers (\<lambda>x. []) (memory_ops ascending ascending ''reco'') mem_log 500 None default_settings [])
      ''purchase-events'' (0, utc 0, sample_envelope 10 PURCHASE_COMPLETED gift_payload) sample_node = (Inr (), nd) \<and>
    node_db nd = snd (ingest (memory_ops ascending ascending ''reco'') now 500 None
      (PurchaseCompleted 10 (UserId 7) (GameId 1) None) sample_store)"
  using message_runs_its_command_once [where nd = sample_node and retries = 3 and producer = None and fs = "\<lambda>x. []" and
      topic = "''purchase-events''" and m = "(0, utc 0, sample_envelope 10 PURCHASE_COMPLETED gift_payload)" and
      r = "sample_delivered 10 PURCHASE_COMPLETED gift_payload ''purchase-events''" and iu = ascending and ig = ascending and
      reco = "''reco''" and limit = 500 and cid = None and ts = default_settings]
  by (auto simp: sample_delivered_record gift_command)

section \<open>Rejected messages\<close>

lemma undescribable_raises:
  assumes "store_ok st" "store_sound n (store_view st)" "cmd_event c \<notin> ms_processed_events st" "is_undescribable c"
  shows "\<exists>x. ingest (memory_ops iu ig reco) now limit cid c st = (Inl (InvariantViolation x), st)"
proof -
  obtain e g dev t gs tgs pa d where c: "c = GamePublished e g dev t gs tgs pa d" "\<not> describable t gs tgs"
    using assms(4) by (cases c) (auto simp: is_undescribable_def)
  show ?thesis
  proof (rule mem.ingest_cases [OF assms(1), where now = now and limit = limit and cid = cid and c = c
        and iu = iu and ig = ig and topic = reco])
    fix x us
    assume "ingest (memory_ops iu ig reco) now limit cid c st = (Inl x, st)"
      "effect now (py_take limit us) c (store_view st) = Inl x"
    with effect_sound [OF assms(2), where now = now and c = c and us = "py_take limit us"] show ?thesis by auto
  next
    fix st' us
    assume "effect now (py_take limit us) c (store_view st) = Inr (store_view st')"
    then obtain gm where "new_description (store_view st) g dev t gs tgs pa d = Inr gm"
      using assms(3) by (auto simp: effect_def c(1) res_simps news_published processed_view new_description_def split: if_splits)
    with new_description_Inr(4) [OF store_soundD(1) [OF assms(2)] this] c(2) show ?thesis by simp
  qed
qed

lemma rejected_attempts:
  fixes nd :: "(memory_store, 'b) node"
  assumes "store_ok (node_db nd)" "store_sound k (store_view (node_db nd))"
    and "decode r = Inr (Some c)" "event_id_of fs r = Inr (cmd_event c)"
    and "cmd_event c \<notin> ms_processed_events (node_db nd)" "is_undescribable c"
  shows "\<exists>x nd'. deliver_attempts (Suc n) give_up [wrapped fs iu ig reco limit cid decode] r nd = give_up x nd' \<and>
    node_db nd' = node_db nd \<and> node_broker nd' = node_broker nd"
  using assms(1,2,5)
proof (induction n arbitrary: nd)
  case (0 nd)
  from wrapped_command [where r = r and decode = decode and c = c and iu = iu and ig = ig and reco = reco and
      limit = limit and cid = cid, OF 0(1) assms(3,4)] obtain now nd' where
    s: "run_handlers [wrapped fs iu ig reco limit cid decode] r nd =
      (fst (ingest (memory_ops iu ig reco) now limit cid c (node_db nd)), nd')"
    "node_db nd' = snd (ingest (memory_ops iu ig reco) now limit cid c (node_db nd))" "node_broker nd' = node_broker nd"
    by blast
  obtain x where x: "ingest (memory_ops iu ig reco) now limit cid c (node_db nd) = (Inl (InvariantViolation x), node_db nd)"
    using undescribable_raises [OF 0 assms(6)] by blast
  have "deliver_attempts (Suc 0) give_up [wrapped fs iu ig reco limit cid decode] r nd = give_up x nd'"
    using s(1) x by (simp del: run_handlers.simps)
  with s x show ?case by (intro exI [of _ x] exI [of _ nd']) (simp del: deliver_attempts.simps)
next
  case (Suc n nd)
  from wrapped_command [where r = r and decode = decode and c = c and iu = iu and ig = ig and reco = reco and
      limit = limit and cid = cid, OF Suc.prems(1) assms(3,4)] obtain now nd' where
    s: "run_handlers [wrapped fs iu ig reco limit cid decode] r nd =
      (fst (ingest (memory_ops iu ig reco) now limit cid c (node_db nd)), nd')"
    "node_db nd' = snd (ingest (memory_ops iu ig reco) now limit cid c (node_db nd))" "node_broker nd' = node_broker nd"
    by blast
  obtain x where x: "ingest (memory_ops iu ig reco) now limit cid c (node_db nd) = (Inl (InvariantViolation x), node_db nd)"
    using undescribable_raises [OF Suc.prems assms(6)] by blast
  have "deliver_attempts (Suc (Suc n)) give_up [wrapped fs iu ig reco limit cid decode] r nd =
      deliver_attempts (Suc n) give_up [wrapped fs iu ig reco limit cid decode] r nd'"
    using s(1) x by (subst deliver_attempts.simps) (simp del: run_handlers.simps deliver_attempts.simps)
  with Suc.IH [of nd'] Suc.prems s x show ?case by (simp del: deliver_attempts.simps)
qed

text \<open>C23: a publication that cannot be described. When the title or the labels of a published game do not fit the
  catalogue's limits, the message is tried as often as configured, then sent on, with the error, to the retry
  topic of its topic; the store is untouched and the event is not marked as processed, so only a corrected
  message, under whatever id, describes the game. The consumer goes on to the next message.\<close>

theorem rejected_publication_is_rerouted:
  fixes nd :: "(memory_store, 'b) node"
  assumes "store_ok (node_db nd)" "store_sound k (store_view (node_db nd))" "1 \<le> retries"
    and "message_record fs topic (fresh, now, envelope) = Inr r" "command_of fs ts topic r = Some c"
    and "is_undescribable c" "ob_id r \<notin> ms_processed_events (node_db nd)"
    and "\<And>t v b. send t v b = (Inr (), sent t v b)" "\<not> ends_with RETRY_SUFFIX topic"
  shows "\<exists>nd' error. kafka_handle fs (Some (node_sender send)) retries
      (register_consumers fs (memory_ops iu ig reco) mem_log limit cid ts []) topic (fresh, now, envelope) nd = (Inr (), nd') \<and>
    node_db nd' = node_db nd \<and>
    node_broker nd' = sent (topic @ ''.retry'') (AList.update ''error'' (JStr error) envelope) (node_broker nd)"
proof -
  obtain decode where d: "decoder_of fs ts topic (ob_event_type r) = Some decode" "decode r = Inr (Some c)"
    using assms(5) by (auto simp: command_of_def split: option.splits sum.splits)
  note e = record_from_envelope_id [OF assms(4), THEN conjunct1]
  have c: "event_id_of fs r = Inr (cmd_event c)" "cmd_event c = ob_id r"
    using decoders_event [OF d(1) e] d(2) e by auto
  obtain n where n: "nat retries = Suc n" using assms(3) by (cases "nat retries") auto
  have "cmd_event c \<notin> ms_processed_events (node_db nd)" using assms(7) c(2) by simp
  from rejected_attempts [where decode = decode and r = r and c = c and n = n and iu = iu and ig = ig and reco = reco
      and limit = limit and cid = cid and give_up = "reroute (Some (node_sender send)) topic envelope",
      OF assms(1,2) d(2) c(1) this assms(6)]
  obtain x nd' where a: "deliver_attempts (Suc n) (reroute (Some (node_sender send)) topic envelope)
      [wrapped fs iu ig reco limit cid decode] r nd = reroute (Some (node_sender send)) topic envelope x nd'"
    "node_db nd' = node_db nd" "node_broker nd' = node_broker nd" by blast
  have "kafka_handle fs (Some (node_sender send)) retries
      (register_consumers fs (memory_ops iu ig reco) mem_log limit cid ts []) topic (fresh, now, envelope) nd =
    reroute (Some (node_sender send)) topic envelope x nd'"
    using assms(4) d(1) n a(1) by (simp add: kafka_handle_def registered_handlers del: deliver_attempts.simps)
  then show ?thesis using a(2,3) assms(8,9)
    by (intro exI [of _ "nd'\<lparr>node_broker := sent (topic @ ''.retry'')
        (AList.update ''error'' (JStr x) envelope) (node_broker nd)\<rparr>"] exI [of _ x])
      (simp add: reroute_def node_sender_def reroute_target_def RETRY_SUFFIX_def)
qed

lemma rejected_publication_is_rerouted_witness:
  "\<exists>nd error. kafka_handle (\<lambda>x. []) (Some (node_sender (\<lambda>t v b. (Inr (), (t, v) # b)))) 3
      (register_consumers (\<lambda>x. []) (memory_ops ascending ascending ''reco'') mem_log 500 None default_settings [])
      ''game-events'' (0, utc 0, sample_envelope 10 GAME_PUBLISHED unlabelled_payload) sample_node = (Inr (), nd) \<and>
    node_db nd = sample_store \<and>
    node_broker nd = [(''game-events.retry'', AList.update ''error'' (JStr error) (sample_envelope 10 GAME_PUBLISHED unlabelled_payload))]"
proof -
  have u: "is_undescribable (GamePublished 10 (GameId 2) (UserId 8) ''Hades'' [replicate 65 (CHR ''x'')] [] None [])"
    unfolding is_undescribable_def ingest_command.case describable_def labels_fit_def by code_simp
  show ?thesis
    using rejected_publication_is_rerouted [where nd = sample_node and k = 0 and retries = 3 and fs = "\<lambda>x. []" and
        topic = "''game-events''" and fresh = 0 and now = "utc 0" and envelope = "sample_envelope 10 GAME_PUBLISHED unlabelled_payload" and
        r = "sample_delivered 10 GAME_PUBLISHED unlabelled_payload ''game-events''" and ts = default_settings and
        send = "\<lambda>t v b. (Inr (), (t, v) # b)" and sent = "\<lambda>t v b. (t, v) # b" and iu = ascending and ig = ascending and
        reco = "''reco''" and limit = 500 and cid = None, OF _ _ _ _ unlabelled_command u]
    by (simp add: sample_delivered_record sample_views ends_with_def starts_with_def RETRY_SUFFIX_def)
qed

lemma hd_strip_take:
  assumes "py_strip s \<noteq> []" "0 < n"
  shows "py_strip (take n (py_strip s)) \<noteq> []"
proof -
  have "hd (py_strip s) \<in> set (take n (py_strip s))"
    using assms by (cases "py_strip s"; cases n) auto
  with py_strip_ends(1) [OF assms(1)] show ?thesis by (auto simp: py_strip_Nil_iff)
qed

text \<open>What a consumer lets through. The title of a game that a message publishes is never the reason to reject
  it, however long or blank it was; only labels that do not fit the limits of the catalogue are. No other
  message can be rejected.\<close>

lemma only_labels_are_rejected:
  assumes "command_of fs ts topic r = Some c"
  shows "is_undescribable c \<longleftrightarrow> (\<exists>e g dev t gs tgs pa d. c = GamePublished e g dev t gs tgs pa d \<and> \<not> labels_fit gs tgs)"
proof (cases c)
  case (GamePublished e g dev t gs tgs pa d)
  with assms have "\<exists>title. py_strip title \<noteq> [] \<and> t = take 200 (py_strip title)"
    by (auto simp: command_of_def decoder_of_def subscriptions_def published_command_def withdrawn_command_def
        purchase_command_def review_command_def Let_def res_simps split: option.splits sum.splits if_splits)
  then obtain title where t: "py_strip title \<noteq> []" "t = take 200 (py_strip title)" by blast
  have "length (py_strip t) \<le> 200" using length_py_strip [of t] t(2) by simp
  moreover have "py_strip t \<noteq> []" using hd_strip_take [OF t(1), of 200] t(2) by simp
  ultimately show ?thesis by (simp add: GamePublished is_undescribable_def describable_def MAX_TITLE_CHARS_def)
qed (simp_all add: is_undescribable_def)

lemma only_labels_are_rejected_witness:
  "is_undescribable (GamePublished 10 (GameId 2) (UserId 8) ''Hades'' [replicate 65 (CHR ''x'')] [] None []) \<longleftrightarrow>
     \<not> labels_fit [replicate 65 (CHR ''x'')] []"
  using only_labels_are_rejected [OF unlabelled_command] by simp

text \<open>Gifts. When the purchase of a known game names a recipient and somebody else as its buyer, the game goes
  to the library and the taste of the recipient; the buyer's profile is what it was. The game gains one purchase.\<close>

theorem gift_credits_the_recipient:
  fixes nd :: "(memory_store, 'b) node"
  assumes "store_ok (node_db nd)" "store_sound k (store_view (node_db nd))" "1 \<le> retries" "accepts producer"
    and "message_record fs (kafka_topic_purchase_events ts) m = Inr r" "ob_event_type r = PURCHASE_COMPLETED"
    and "user_id_of fs (payload_of r) ''recipient_id'' = Some u" "user_id_of fs (payload_of r) ''buyer_id'' = Some v" "u \<noteq> v"
    and "game_id_of fs (payload_of r) = Some g" "w_games (store_view (node_db nd)) g = Some gm"
    and "ob_id r \<notin> ms_processed_events (node_db nd)"
  shows "\<exists>nd'. kafka_handle fs (map_option node_sender producer) retries
      (register_consumers fs (memory_ops iu ig reco) mem_log limit cid ts []) (kafka_topic_purchase_events ts) m nd = (Inr (), nd') \<and>
    owned (pref_of (store_view (node_db nd')) u) = finsert g (owned (pref_of (store_view (node_db nd)) u)) \<and>
    pref_of (store_view (node_db nd')) v = pref_of (store_view (node_db nd)) v \<and>
    w_games (store_view (node_db nd')) g = Some (gm\<lparr>purchase_count := purchase_count gm + 1\<rparr>)"
proof -
  let ?w = "store_view (node_db nd)" and ?topic = "kafka_topic_purchase_events ts"
  note e = record_from_envelope_id [OF assms(5), THEN conjunct1]
  obtain occ where c: "command_of fs ts ?topic r = Some (PurchaseCompleted (ob_id r) u g occ)"
    using assms(6,7,10) e
    by (simp add: command_of_def decoder_of_def subscriptions_def purchase_command_def Let_def or_else_def)
  from handled_message [OF assms(1,3,4,5), of iu ig reco limit cid ts] obtain nd' now where
    h: "kafka_handle fs (map_option node_sender producer) retries
      (register_consumers fs (memory_ops iu ig reco) mem_log limit cid ts []) ?topic m nd = (Inr (), nd')"
    "node_db nd' = snd (ingest (memory_ops iu ig reco) now limit cid (PurchaseCompleted (ob_id r) u g occ) (node_db nd))"
    by (auto simp: c)
  obtain st' p where s: "ingest (memory_ops iu ig reco) now limit cid (PurchaseCompleted (ob_id r) u g occ) (node_db nd) = (Inr (), st')"
    "observe (pref_of ?w u) gm PURCHASE (moment occ now) = Inr p" "pref_user_id p = u"
    "store_view st' = put_mark (ob_id r) (put_game (gm\<lparr>purchase_count := purchase_count gm + 1\<rparr>)
       (put_owner u g True (put_pref p ?w)))"
    by (rule purchase_new [OF assms(1,2,12), where iu = iu and ig = ig and topic = reco and limit = limit and g = g
          and now = now and cid = cid and u = u and occ = occ]) (use assms(11) in auto)
  note gm = wf_worldD(1) [OF store_soundD(1) [OF assms(2)] assms(11)]
  have "owned p = finsert g (owned (pref_of ?w u))" using observe_Inr(3) [OF s(2)] gm by simp
  then show ?thesis using h s assms(9) gm by (intro exI [of _ nd']) (auto simp: pref_of_def)
qed

lemma gift_credits_the_recipient_witness:
  "\<exists>nd. kafka_handle (\<lambda>x. []) None 3
      (register_consumers (\<lambda>x. []) (memory_ops ascending ascending ''reco'') mem_log 500 None default_settings [])
      ''purchase-events'' (0, utc 0, sample_envelope 10 PURCHASE_COMPLETED gift_payload) sample_node = (Inr (), nd) \<and>
    owned (pref_of (store_view (node_db nd)) (UserId 7)) = {|GameId 1|} \<and>
    pref_of (store_view (node_db nd)) (UserId 8) = blank (UserId 8)"
  using gift_credits_the_recipient [where nd = sample_node and k = 0 and retries = 3 and producer = None and fs = "\<lambda>x. []" and
      ts = default_settings and m = "(0, utc 0, sample_envelope 10 PURCHASE_COMPLETED gift_payload)" and
      r = "sample_delivered 10 PURCHASE_COMPLETED gift_payload ''purchase-events''" and u = "UserId 7" and v = "UserId 8" and
      g = "GameId 1" and gm = sample_game and iu = ascending and ig = ascending and reco = "''reco''" and limit = 500 and cid = None]
  by (auto simp: sample_delivered_record sample_views gift_ids blank_def default_settings_def)

end
