(* ===== verification/Auth.thy ===== *)
theory Auth
  imports Config Outbox
begin

text \<open>
  Who is calling (\<open>infrastructure/security/jwt_verifier.py\<close>, \<open>presentation/http/deps/auth.py\<close>) and what
  a caller is told when something goes wrong (\<open>presentation/http/errors.py\<close>). Checking a token's
  signature, issuer, audience and expiry is PyJWT's: \<open>decode\<close> is a parameter. Reading the two headers is
  FastAPI's. The binding of the actor to the log context is left out.
\<close>

section \<open>Verifying a token\<close>

text \<open>\<open>jwt.decode\<close>: token, secret, algorithm, issuer and audience give the message of a \<open>PyJWTError\<close> or
  the claims.\<close>

type_synonym jwt_decode = "string \<Rightarrow> string \<Rightarrow> string \<Rightarrow> string \<Rightarrow> string \<Rightarrow> string + (string, json) dict"

record jwt_verifier =
  jv_secret :: string
  jv_algorithm :: string
  jv_issuer :: string
  jv_audience :: string

fun role_str :: "role \<Rightarrow> string" where
  "role_str BASIC_USER = ''BASIC_USER''"
| "role_str DEVELOPER = ''DEVELOPER''"
| "role_str SUPPORT = ''SUPPORT''"
| "role_str ADMIN = ''ADMIN''"

text \<open>\<open>Role(s)\<close>, \<open>None\<close> for its \<open>ValueError\<close>.\<close>

definition role_of :: "string \<Rightarrow> role option" where
  "role_of s = find (\<lambda>r. role_str r = s) [BASIC_USER, DEVELOPER, SUPPORT, ADMIN]"

definition ACCESS :: string where "ACCESS = ''access''"

definition decode_token :: "jwt_decode \<Rightarrow> jwt_verifier \<Rightarrow> string \<Rightarrow> exn + (string, json) dict" where
  "decode_token decode v token =
     (case decode token (jv_secret v) (jv_algorithm v) (jv_issuer v) (jv_audience v) of
        Inl m \<Rightarrow> Inl (AuthenticationError (''token is not valid: '' @ m))
      | Inr claims \<Rightarrow> Inr claims)"

definition verify :: "(real \<Rightarrow> string) \<Rightarrow> jwt_decode \<Rightarrow> jwt_verifier \<Rightarrow> string \<Rightarrow> exn + actor" where
  "verify fs decode v token = bindE (decode_token decode v token) (\<lambda>claims.
     if py_str fs (get_or claims ''typ'' ACCESS) \<noteq> ACCESS then
       Inl (AuthenticationError ''a refresh token is not accepted as an access token'')
     else let subject = json_get claims ''sub'' in
       if subject = JNull then Inl (AuthenticationError ''token carries no subject'')
       else case role_of (py_str fs (get_or claims ''role'' (role_str BASIC_USER))) of
           None \<Rightarrow> Inl (AuthenticationError (''token carries an unknown role '' @ json_repr fs (json_get claims ''role'')))
         | Some r \<Rightarrow> bindE (user_id_parse (py_str fs subject)) (\<lambda>u.
             Inr \<lparr>actor_user_id = u, actor_role = r,
                  is_banned = (py_upper (py_str fs (get_or claims ''state'' [])) = ''BANNED'')\<rparr>))"

section \<open>The caller\<close>

definition DEBUG_USER_HEADER :: string where "DEBUG_USER_HEADER = ''X-Debug-User''"

text \<open>The credentials FastAPI's \<open>HTTPBearer\<close> reads from the request: scheme and token.\<close>

type_synonym credentials = "(string \<times> string) option"

fun env_str :: "app_env \<Rightarrow> string" where
  "env_str LOCAL_ENV = ''local''"
| "env_str TEST_ENV = ''test''"
| "env_str STAGING_ENV = ''staging''"
| "env_str PROD_ENV = ''prod''"

fun identity_str :: "identity_backend \<Rightarrow> string" where
  "identity_str FAKE = ''fake''"
| "identity_str JWT = ''jwt''"

definition optional_actor ::
  "(real \<Rightarrow> string) \<Rightarrow> jwt_decode \<Rightarrow> settings \<Rightarrow> jwt_verifier option \<Rightarrow> credentials \<Rightarrow> string option \<Rightarrow>
   exn + actor option" where
  "optional_actor fs decode s tokens creds x_debug_user =
     (case (tokens, creds) of
        (Some v, Some (scheme, token)) \<Rightarrow>
          if py_lower scheme \<noteq> ''bearer'' \<or> token = [] then
            Inl (AuthenticationError ''Authorization must be a Bearer token'')
          else bindE (verify fs decode v token) (\<lambda>a. Inr (Some a))
      | _ \<Rightarrow>
          (case x_debug_user of
             None \<Rightarrow> Inr None
           | Some raw \<Rightarrow>
               if \<not> (is_local s \<and> identity_backend s = FAKE) then
                 Inl (DebugAuthDisabledError (DEBUG_USER_HEADER @ '' is a local-only development path; APP_ENV='' @
                   env_str (app_env s) @ '' and IDENTITY_BACKEND='' @ identity_str (identity_backend s)))
               else case uuid_parse raw of
                   None \<Rightarrow> Inl (AuthorizationError (DEBUG_USER_HEADER @ '' must be a UUID''))
                 | Some u \<Rightarrow> Inr (Some \<lparr>actor_user_id = UserId u, actor_role = BASIC_USER, is_banned = False\<rparr>)))"

definition current_actor :: "actor option \<Rightarrow> exn + actor" where
  "current_actor a =
     (case a of
        None \<Rightarrow> Inl (AuthorizationError ''this operation requires an authenticated caller'')
      | Some a \<Rightarrow> Inr a)"

definition require_roles :: "role list \<Rightarrow> actor \<Rightarrow> exn + actor" where
  "require_roles rs a =
     (if actor_role a \<notin> set rs then
        Inl (AuthorizationError (''this operation requires one of: '' @ py_join '', '' (map role_str rs)))
      else Inr a)"

text \<open>\<open>ModeratorDep\<close>\<close>

definition moderators :: "role list" where
  "moderators = [SUPPORT, ADMIN]"

section \<open>Problem documents\<close>

record problem =
  pb_status :: int
  pb_title :: string
  pb_detail :: string
  pb_reason :: string
  pb_trace_id :: string
  pb_authenticate :: bool

text \<open>\<open>_problem\<close>; \<open>pb_authenticate\<close> is the header \<open>WWW-Authenticate: Bearer\<close>.\<close>

definition problem_of :: "string option \<Rightarrow> int \<Rightarrow> string \<Rightarrow> string \<Rightarrow> string \<Rightarrow> problem" where
  "problem_of cid status heading detail reason =
     \<lparr>pb_status = status, pb_title = heading, pb_detail = detail,
      pb_reason = (if reason = [] then heading else reason),
      pb_trace_id = (case cid of None \<Rightarrow> [] | Some c \<Rightarrow> c), pb_authenticate = False\<rparr>"

fun status_map :: "exn \<Rightarrow> int option" where
  "status_map (InvariantViolation m) = Some 422"
| "status_map (NotFound m) = Some 404"
| "status_map (Forbidden m) = Some 403"
| "status_map (AuthenticationError m) = Some 401"
| "status_map (AuthorizationError m) = Some 403"
| "status_map (DebugAuthDisabledError m) = Some 403"
| "status_map _ = None"

fun title_map :: "exn \<Rightarrow> string option" where
  "title_map (InvariantViolation m) = Some ''INVALID_ARGUMENT''"
| "title_map (NotFound m) = Some ''NOT_FOUND''"
| "title_map (Forbidden m) = Some ''PERMISSION_DENIED''"
| "title_map (AuthenticationError m) = Some ''UNAUTHENTICATED''"
| "title_map (AuthorizationError m) = Some ''PERMISSION_DENIED''"
| "title_map (DebugAuthDisabledError m) = Some ''PERMISSION_DENIED''"
| "title_map _ = None"

definition handle_known_error :: "string option \<Rightarrow> exn \<Rightarrow> problem" where
  "handle_known_error cid x =
     (let status = (case status_map x of None \<Rightarrow> 400 | Some n \<Rightarrow> n);
          heading = (case title_map x of None \<Rightarrow> ''BAD_REQUEST'' | Some t \<Rightarrow> t);
          response = (case x of
              DebugAuthDisabledError m \<Rightarrow> problem_of cid status heading ''Debug authentication is not available.'' []
            | _ \<Rightarrow> problem_of cid status heading (exn_text x) [])
      in response\<lparr>pb_authenticate := (case x of AuthenticationError m \<Rightarrow> True | _ \<Rightarrow> False)\<rparr>)"

definition handle_validation_error :: "string option \<Rightarrow> string list \<Rightarrow> problem" where
  "handle_validation_error cid errors =
     problem_of cid 422 ''INVALID_ARGUMENT'' (py_join ''; '' errors) ''VALIDATION_FAILED''"

definition handle_unexpected_error :: "string option \<Rightarrow> problem" where
  "handle_unexpected_error cid = problem_of cid 500 ''INTERNAL'' ''Internal server error.'' ''INTERNAL''"

text \<open>\<open>register_exception_handlers\<close>: the classes of the status map have a handler, the rest is unexpected.\<close>

definition problem_for :: "string option \<Rightarrow> exn \<Rightarrow> problem" where
  "problem_for cid x = (if status_map x \<noteq> None then handle_known_error cid x else handle_unexpected_error cid)"

section \<open>What a verified caller presented\<close>

lemma role_of_iff: "role_of s = Some r \<longleftrightarrow> s = role_str r"
  by (cases r) (auto simp: role_of_def)

text \<open>The claims of a token that \<open>verify\<close> accepts, and the actor they make.\<close>

definition claims_of :: "(real \<Rightarrow> string) \<Rightarrow> jwt_decode \<Rightarrow> jwt_verifier \<Rightarrow> string \<Rightarrow> actor \<Rightarrow> (string, json) dict \<Rightarrow> bool" where
  "claims_of fs decode v token a claims \<longleftrightarrow>
     decode token (jv_secret v) (jv_algorithm v) (jv_issuer v) (jv_audience v) = Inr claims \<and>
     py_str fs (get_or claims ''typ'' ACCESS) = ACCESS \<and>
     user_id_parse (py_str fs (json_get claims ''sub'')) = Inr (actor_user_id a) \<and>
     py_str fs (get_or claims ''role'' (role_str BASIC_USER)) = role_str (actor_role a)"

lemma verify_claims: "verify fs decode v token = Inr a \<Longrightarrow> \<exists>claims. claims_of fs decode v token a claims"
  by (auto simp: verify_def decode_token_def claims_of_def res_simps Let_def role_of_iff split: sum.splits if_splits option.splits)

definition by_token ::
  "(real \<Rightarrow> string) \<Rightarrow> jwt_decode \<Rightarrow> jwt_verifier option \<Rightarrow> credentials \<Rightarrow> actor \<Rightarrow> bool" where
  "by_token fs decode tokens creds a \<longleftrightarrow>
     (\<exists>v scheme token claims. tokens = Some v \<and> creds = Some (scheme, token) \<and> py_lower scheme = ''bearer'' \<and>
        claims_of fs decode v token a claims)"

lemma optional_actor_Some:
  assumes "optional_actor fs decode s tokens creds dbg = Inr (Some a)"
  shows "by_token fs decode tokens creds a \<or>
    is_local s \<and> identity_backend s = FAKE \<and> actor_role a = BASIC_USER \<and>
    (\<exists>raw. dbg = Some raw \<and> uuid_parse raw = Some (user_uuid (actor_user_id a)))"
proof -
  consider v scheme token where "tokens = Some v" "creds = Some (scheme, token)" | "tokens = None \<or> creds = None"
    by (cases tokens; cases creds) auto
  then show ?thesis
  proof cases
    case 1
    with assms have "py_lower scheme = ''bearer''" "verify fs decode v token = Inr a"
      by (auto simp: optional_actor_def res_simps split: if_splits)
    with 1 verify_claims show ?thesis by (fastforce simp: by_token_def)
  next
    case 2
    then have "optional_actor fs decode s tokens creds dbg = optional_actor fs decode s None None dbg"
      by (cases tokens; cases creds) (auto simp: optional_actor_def)
    with assms show ?thesis by (auto simp: optional_actor_def split: option.splits if_splits)
  qed
qed

text \<open>A valid access token whose subject is no UUID: \<open>UserId.parse\<close> raises, and what it raises is not an
  authentication error.\<close>

lemma bad_subject:
  assumes "decode token (jv_secret v) (jv_algorithm v) (jv_issuer v) (jv_audience v) = Inr claims"
    and "map_of claims ''typ'' = None" "map_of claims ''role'' = None"
    and "map_of claims ''sub'' = Some (JStr s)" "uuid_parse s = None"
  shows "\<exists>m. verify fs decode v token = Inl (InvariantViolation m) \<and>
    pb_status (problem_for cid (InvariantViolation m)) = 422"
proof -
  have "\<exists>m. user_id_parse s = Inl (InvariantViolation m)" using assms(5) by (auto simp: user_id_parse_def)
  moreover have "role_of ''BASIC_USER'' = Some BASIC_USER" by (simp add: role_of_iff)
  ultimately show ?thesis using assms
    by (auto simp: verify_def decode_token_def get_or_def json_get_def dget_def problem_for_def handle_known_error_def problem_of_def Let_def)
qed

section \<open>Problem documents\<close>

lemma problem_statuses: "pb_status (problem_for cid x) \<in> {401, 403, 404, 422, 500}"
  by (cases x) (simp_all add: problem_for_def handle_known_error_def handle_unexpected_error_def problem_of_def Let_def)

lemma problem_internal: "status_map x = None \<Longrightarrow> problem_for cid x = handle_unexpected_error cid"
  by (simp add: problem_for_def)

lemma problem_authenticate: "pb_authenticate (problem_for cid x) \<longleftrightarrow> pb_status (problem_for cid x) = 401"
  by (cases x) (simp_all add: problem_for_def handle_known_error_def handle_unexpected_error_def problem_of_def Let_def)

end
