(* ===== verification/Api.thy ===== *)
theory Api
  imports Auth Serve
begin

text \<open>
  The HTTP API: the response cache (\<open>infrastructure/response_cache.py\<close>), the routes
  (\<open>presentation/http/routers/\<close>) and readiness (\<open>presentation/http/health.py\<close>,
  \<open>infrastructure/health.py\<close>). Parsing a request, the JSON form of the response models and Redis are
  parameters: a request arrives with its path and query parameters parsed, \<open>codec\<close> is pydantic's and
  \<open>json\<close>'s, \<open>cache_client\<close> is Redis. FastAPI resolves the caller before it validates the parameters.
\<close>

section \<open>The response cache\<close>

record 'c cache_client =
  cc_get :: "string \<Rightarrow> 'c \<Rightarrow> (exn + string option) \<times> 'c"
  cc_set :: "string \<Rightarrow> string \<Rightarrow> int \<Rightarrow> 'c \<Rightarrow> (exn + unit) \<times> 'c"

record response_cache =
  rc_prefix :: string
  rc_default_ttl :: int

record codec =
  dumps :: "json \<Rightarrow> string"
  loads :: "string \<Rightarrow> exn + json"
  rec_dump :: "recommendations_response \<Rightarrow> json"
  rec_validate :: "json \<Rightarrow> exn + recommendations_response"
  sim_dump :: "similar_games_response \<Rightarrow> json"
  sim_validate :: "json \<Rightarrow> exn + similar_games_response"

text \<open>\<open>ttl or self._default_ttl\<close>\<close>

definition expiry :: "response_cache \<Rightarrow> int option \<Rightarrow> int" where
  "expiry rc ttl = (case ttl of Some t \<Rightarrow> if t \<noteq> 0 then t else rc_default_ttl rc | None \<Rightarrow> rc_default_ttl rc)"

definition get_or_set ::
  "codec \<Rightarrow> 'c cache_client option \<Rightarrow> response_cache \<Rightarrow> string \<Rightarrow> (exn + json) \<Rightarrow> int option \<Rightarrow> 'c \<Rightarrow> (exn + json) \<times> 'c" where
  "get_or_set cd client rc key computed ttl c =
     (case client of
        None \<Rightarrow> (computed, c)
      | Some cl \<Rightarrow>
          let full_key = rc_prefix rc @ '':'' @ key in
          case cc_get cl full_key c of
            (Inl x, c) \<Rightarrow> (computed, c)
          | (Inr (Some cached), c) \<Rightarrow> (loads cd cached, c)
          | (Inr None, c) \<Rightarrow>
              (case computed of
                 Inl x \<Rightarrow> (Inl x, c)
               | Inr v \<Rightarrow> (Inr v, snd (cc_set cl full_key (dumps cd v) (expiry rc ttl) c))))"

section \<open>Routes\<close>

text \<open>The parts of a running service the routes use. \<open>sv_vmsg\<close> is pydantic's message for a limit out of
  range.\<close>

record ('db, 's, 'c) service =
  sv_settings :: settings
  sv_tokens :: "jwt_verifier option"
  sv_ops :: "('db, 's) uow_ops"
  sv_generator :: generator
  sv_embedding :: "(embedder \<times> int) option"
  sv_client :: "'c cache_client option"
  sv_cache :: response_cache
  sv_codec :: codec
  sv_decode :: jwt_decode
  sv_float_str :: "real \<Rightarrow> string"
  sv_vmsg :: "int \<Rightarrow> string"

datatype route =
    MyRecommendations int
  | RecommendationsFor user_id int
  | SimilarGames game_id int
  | RefreshAll
  | RefreshUser user_id

record request =
  rq_credentials :: credentials
  rq_debug_user :: "string option"
  rq_correlation_id :: "string option"
  rq_route :: route

datatype reply =
    Recommendations recommendations_response
  | Similar similar_games_response
  | Report refresh_report
  | Problem problem

definition user_key :: "user_id \<Rightarrow> int \<Rightarrow> string" where
  "user_key u limit = ''user:'' @ user_str u @ '':reco:'' @ int_str limit"

definition game_key :: "game_id \<Rightarrow> int \<Rightarrow> string" where
  "game_key g limit = ''game:'' @ game_str g @ '':similar:'' @ int_str limit"

definition caller :: "('db, 's, 'c) service \<Rightarrow> request \<Rightarrow> exn + actor" where
  "caller sv rq = bindE (optional_actor (sv_float_str sv) (sv_decode sv) (sv_settings sv) (sv_tokens sv)
     (rq_credentials rq) (rq_debug_user rq)) current_actor"

definition moderator :: "('db, 's, 'c) service \<Rightarrow> request \<Rightarrow> exn + actor" where
  "moderator sv rq = bindE (caller sv rq) (require_roles moderators)"

text \<open>\<open>compute\<close> reads the database only, so its value is taken before the cache is asked.\<close>

definition my_recommendations ::
  "('db, 's, 'c) service \<Rightarrow> string option \<Rightarrow> actor \<Rightarrow> int \<Rightarrow> 'db \<Rightarrow> 'c \<Rightarrow> (exn + recommendations_response) \<times> 'c" where
  "my_recommendations sv cid a limit db c =
     (let computed = bindE (fst (serve (sv_ops sv) cid (actor_user_id a) limit db)) (\<lambda>r. Inr (rec_dump (sv_codec sv) r));
          (payload, c) = get_or_set (sv_codec sv) (sv_client sv) (sv_cache sv) (user_key (actor_user_id a) limit) computed None c
      in (bindE payload (rec_validate (sv_codec sv)), c))"

definition recommendations_for ::
  "('db, 's, 'c) service \<Rightarrow> string option \<Rightarrow> actor \<Rightarrow> user_id \<Rightarrow> int \<Rightarrow> 'db \<Rightarrow> exn + recommendations_response" where
  "recommendations_for sv cid a target limit db =
     (if target \<noteq> actor_user_id a \<and> \<not> is_moderator a then
        Inl (AuthorizationError ''only Support or the user themselves may read these recommendations'')
      else fst (serve (sv_ops sv) cid target limit db))"

definition similar_games ::
  "('db, 's, 'c) service \<Rightarrow> string option \<Rightarrow> game_id \<Rightarrow> int \<Rightarrow> 'db \<Rightarrow> 'c \<Rightarrow> (exn + similar_games_response) \<times> 'c" where
  "similar_games sv cid g limit db c =
     (let computed = bindE (fst (list_similar (sv_ops sv) (catalogue_scan_limit (sv_settings sv))
            (ranks_in_dense_space (sv_settings sv)) cid g limit db)) (\<lambda>r. Inr (sim_dump (sv_codec sv) r));
          (payload, c) = get_or_set (sv_codec sv) (sv_client sv) (sv_cache sv) (game_key g limit) computed None c
      in (bindE payload (sim_validate (sv_codec sv)), c))"

definition in_range :: "int \<Rightarrow> bool" where
  "in_range limit \<longleftrightarrow> 1 \<le> limit \<and> limit \<le> MAX_RECOMMENDATION_COUNT"

definition reply_of :: "string option \<Rightarrow> ('r \<Rightarrow> reply) \<Rightarrow> exn + 'r \<Rightarrow> reply" where
  "reply_of cid wrap res = (case res of Inl x \<Rightarrow> Problem (problem_for cid x) | Inr r \<Rightarrow> wrap r)"

text \<open>A request to its reply, with the database, the clock and the cache it leaves.\<close>

definition respond ::
  "('db, 's, 'c) service \<Rightarrow> request \<Rightarrow> 'db \<times> stamps \<times> 'c \<Rightarrow> reply \<times> 'db \<times> stamps \<times> 'c" where
  "respond sv rq = (\<lambda>(db, ss, c).
     let cid = rq_correlation_id rq; invalid = (\<lambda>limit. Problem (handle_validation_error cid [''limit: '' @ sv_vmsg sv limit])) in
     case rq_route rq of
       MyRecommendations limit \<Rightarrow>
         (case caller sv rq of
            Inl x \<Rightarrow> (Problem (problem_for cid x), db, ss, c)
          | Inr a \<Rightarrow>
              if \<not> in_range limit then (invalid limit, db, ss, c)
              else let (res, c) = my_recommendations sv cid a limit db c in (reply_of cid Recommendations res, db, ss, c))
     | RecommendationsFor target limit \<Rightarrow>
         (case caller sv rq of
            Inl x \<Rightarrow> (Problem (problem_for cid x), db, ss, c)
          | Inr a \<Rightarrow>
              if \<not> in_range limit then (invalid limit, db, ss, c)
              else (reply_of cid Recommendations (recommendations_for sv cid a target limit db), db, ss, c))
     | SimilarGames g limit \<Rightarrow>
         if \<not> in_range limit then (invalid limit, db, ss, c)
         else let (res, c) = similar_games sv cid g limit db c in (reply_of cid Similar res, db, ss, c)
     | RefreshAll \<Rightarrow>
         (case moderator sv rq of
            Inl x \<Rightarrow> (Problem (problem_for cid x), db, ss, c)
          | Inr a \<Rightarrow>
              let (res, db, ss) = refresh_all (sv_ops sv) (sv_generator sv) (sv_embedding sv)
                    (generation_batch_size (sv_settings sv)) cid DEFAULT_RECOMMENDATION_COUNT (db, ss)
              in (reply_of cid Report res, db, ss, c))
     | RefreshUser u \<Rightarrow>
         (case moderator sv rq of
            Inl x \<Rightarrow> (Problem (problem_for cid x), db, ss, c)
          | Inr a \<Rightarrow>
              let (res, db, ss) = refresh_for (sv_ops sv) (sv_generator sv) (sv_embedding sv) cid u
                    DEFAULT_RECOMMENDATION_COUNT (db, ss)
              in (reply_of cid Report res, db, ss, c)))"

section \<open>Readiness\<close>

text \<open>A probe is what its \<open>ping\<close> does: return, or raise with a message.\<close>

type_synonym probe = "string option"

definition always_reachable :: probe where
  "always_reachable = None"

definition check :: "probe \<Rightarrow> bool \<Rightarrow> string \<times> string option" where
  "check ping critical =
     (case ping of
        Some m \<Rightarrow> (if critical then ''DOWN'' else ''DEGRADED'', Some (take 200 m))
      | None \<Rightarrow> (''UP'', None))"

text \<open>What \<open>readyz\<close> reads of the container.\<close>

record vitals =
  vt_persistence :: probe
  vt_dispatcher_running :: bool
  vt_cache :: "probe option"
  vt_scheduler_running :: bool

definition readyz_checks :: "settings \<Rightarrow> vitals \<Rightarrow> (string, string \<times> string option) dict" where
  "readyz_checks s v =
     [(''persistence'', check (vt_persistence v) True),
      (''outbox_dispatcher'', (if vt_dispatcher_running v then ''UP'' else ''DOWN'', None))]
     @ (case vt_cache v of None \<Rightarrow> [] | Some ping \<Rightarrow> [(''cache'', check ping False)])
     @ (if generation_enabled s
        then [(''generation_scheduler'', (if vt_scheduler_running v then ''UP'' else ''DEGRADED'', None))] else [])"

definition readyz :: "settings \<Rightarrow> vitals \<Rightarrow> int \<times> string \<times> (string, string \<times> string option) dict" where
  "readyz s v =
     (let checks = readyz_checks s v;
          healthy = list_all (\<lambda>(name, status, err). status \<noteq> ''DOWN'') checks
      in (if healthy then 200 else 503, if healthy then ''UP'' else ''DOWN'', checks))"

section \<open>Cache keys\<close>

lemma length_uuid_str [simp]: "length (uuid_str u) = 36"
  by (simp add: uuid_str_def dashed_def)

lemma user_key_inj [simp]: "user_key u m = user_key v n \<longleftrightarrow> u = v \<and> m = n"
  by (auto simp: user_key_def user_str_def user_id.expand)

lemma game_key_inj [simp]: "game_key g m = game_key h n \<longleftrightarrow> g = h \<and> m = n"
  by (auto simp: game_key_def game_str_def game_id.expand)

lemma keys_apart [simp]: "user_key u m \<noteq> game_key g n" "game_key g n \<noteq> user_key u m"
  by (simp_all add: user_key_def game_key_def)

section \<open>What a cache may answer\<close>

text \<open>\<open>written c\<close> is what was ever set and may still be there. A Redis client gives back only such values.\<close>

definition faithful_cache :: "'c cache_client \<Rightarrow> ('c \<Rightarrow> (string \<times> string) set) \<Rightarrow> bool" where
  "faithful_cache cl written \<longleftrightarrow>
     (\<forall>k c. written (snd (cc_get cl k c)) \<subseteq> written c \<and> (\<forall>v. fst (cc_get cl k c) = Inr (Some v) \<longrightarrow> (k, v) \<in> written c)) \<and>
     (\<forall>k v ttl c. written (snd (cc_set cl k v ttl c)) \<subseteq> insert (k, v) (written c))"

text \<open>The answers of the two read use cases on one of the databases \<open>D\<close>.\<close>

definition served_in :: "('db, 's, 'c) service \<Rightarrow> 'db set \<Rightarrow> user_id \<Rightarrow> int \<Rightarrow> recommendations_response \<Rightarrow> bool" where
  "served_in sv D u limit r \<longleftrightarrow> (\<exists>cid. \<exists>db \<in> D. fst (serve (sv_ops sv) cid u limit db) = Inr r)"

definition similar_in :: "('db, 's, 'c) service \<Rightarrow> 'db set \<Rightarrow> game_id \<Rightarrow> int \<Rightarrow> similar_games_response \<Rightarrow> bool" where
  "similar_in sv D g limit r \<longleftrightarrow> (\<exists>cid. \<exists>db \<in> D. fst (list_similar (sv_ops sv) (catalogue_scan_limit (sv_settings sv))
     (ranks_in_dense_space (sv_settings sv)) cid g limit db) = Inr r)"

lemma served_inI: "fst (serve (sv_ops sv) cid u limit db) = Inr r \<Longrightarrow> db \<in> D \<Longrightarrow> served_in sv D u limit r"
  unfolding served_in_def by blast

text \<open>The codec gives back the answers it was given.\<close>

definition codec_faithful :: "('db, 's, 'c) service \<Rightarrow> 'db set \<Rightarrow> bool" where
  "codec_faithful sv D \<longleftrightarrow>
     (\<forall>u n r. served_in sv D u n r \<longrightarrow> rec_validate (sv_codec sv) (rec_dump (sv_codec sv) r) = Inr r \<and>
        loads (sv_codec sv) (dumps (sv_codec sv) (rec_dump (sv_codec sv) r)) = Inr (rec_dump (sv_codec sv) r)) \<and>
     (\<forall>g n r. similar_in sv D g n r \<longrightarrow> sim_validate (sv_codec sv) (sim_dump (sv_codec sv) r) = Inr r \<and>
        loads (sv_codec sv) (dumps (sv_codec sv) (sim_dump (sv_codec sv) r)) = Inr (sim_dump (sv_codec sv) r))"

text \<open>Every entry under a user's or a game's key is an answer for that user or game and that limit.\<close>

definition full_key :: "('db, 's, 'c) service \<Rightarrow> string \<Rightarrow> string" where
  "full_key sv key = rc_prefix (sv_cache sv) @ '':'' @ key"

definition honest :: "('db, 's, 'c) service \<Rightarrow> 'db set \<Rightarrow> (string \<times> string) set \<Rightarrow> bool" where
  "honest sv D w \<longleftrightarrow>
     (\<forall>u n v. (full_key sv (user_key u n), v) \<in> w \<longrightarrow>
        (\<exists>r. v = dumps (sv_codec sv) (rec_dump (sv_codec sv) r) \<and> served_in sv D u n r)) \<and>
     (\<forall>g n v. (full_key sv (game_key g n), v) \<in> w \<longrightarrow>
        (\<exists>r. v = dumps (sv_codec sv) (sim_dump (sv_codec sv) r) \<and> similar_in sv D g n r))"

lemma full_key_inj [simp]: "full_key sv k = full_key sv l \<longleftrightarrow> k = l"
  by (simp add: full_key_def)

lemma honest_subset: "honest sv D w \<Longrightarrow> w' \<subseteq> w \<Longrightarrow> honest sv D w'"
  unfolding honest_def by blast

lemma served_in_mono: "served_in sv D u n r \<Longrightarrow> D \<subseteq> E \<Longrightarrow> served_in sv E u n r"
  "similar_in sv D g n s \<Longrightarrow> D \<subseteq> E \<Longrightarrow> similar_in sv E g n s"
  unfolding served_in_def similar_in_def by blast+

lemma honest_mono: "honest sv D w \<Longrightarrow> D \<subseteq> E \<Longrightarrow> honest sv E w"
  unfolding honest_def using served_in_mono by metis

text \<open>The cache in one step: what is returned was computed now or is an entry, what is written was computed.\<close>

lemma get_or_set_step:
  assumes "faithful_cache cl written" "get_or_set cd (Some cl) rc key computed ttl c = (res, c')"
  shows "(res = computed \<and> (written c' \<subseteq> written c \<or>
      (\<exists>v. computed = Inr v \<and> written c' \<subseteq> insert (rc_prefix rc @ '':'' @ key, dumps cd v) (written c)))) \<or>
    (\<exists>v. (rc_prefix rc @ '':'' @ key, v) \<in> written c \<and> res = loads cd v \<and> written c' \<subseteq> written c)"
proof -
  let ?k = "rc_prefix rc @ '':'' @ key"
  obtain got c1 where got: "cc_get cl ?k c = (got, c1)" by (cases "cc_get cl ?k c")
  have sub: "written c1 \<subseteq> written c" and hit: "\<And>v. got = Inr (Some v) \<Longrightarrow> (?k, v) \<in> written c"
    using assms(1) got unfolding faithful_cache_def by (metis fst_conv snd_conv)+
  have put: "written (snd (cc_set cl ?k v t c1)) \<subseteq> insert (?k, v) (written c)" for v t
    using assms(1) sub unfolding faithful_cache_def by blast
  show ?thesis
  proof (cases got)
    case (Inl x)
    then show ?thesis using assms(2) got sub by (simp add: get_or_set_def)
  next
    case (Inr entry)
    then show ?thesis using assms(2) got sub hit put
      by (cases entry; cases computed) (auto simp: get_or_set_def Let_def)
  qed
qed

text \<open>What the theorems below assume of Redis and of the codec, over the databases \<open>D\<close> of a run.\<close>

definition third_parties :: "('db, 's, 'c) service \<Rightarrow> ('c \<Rightarrow> (string \<times> string) set) \<Rightarrow> 'db set \<Rightarrow> bool" where
  "third_parties sv written D \<longleftrightarrow> codec_faithful sv D \<and>
     (case sv_client sv of None \<Rightarrow> True | Some cl \<Rightarrow> faithful_cache cl written)"

lemma cached_step:
  assumes client: "case client of None \<Rightarrow> True | Some cl \<Rightarrow> faithful_cache cl written"
    and step: "get_or_set cd client rc key computed ttl c = (payload, c')"
    and now: "\<And>v. computed = Inr v \<Longrightarrow> \<exists>r. v = dump r \<and> Q r"
    and stored: "\<And>v. (rc_prefix rc @ '':'' @ key, v) \<in> written c \<Longrightarrow> \<exists>r. v = dumps cd (dump r) \<and> Q r"
    and codec: "\<And>r. Q r \<Longrightarrow> loads cd (dumps cd (dump r)) = Inr (dump r)"
  shows "(\<forall>j. payload = Inr j \<longrightarrow> (\<exists>r. j = dump r \<and> Q r)) \<and>
    (written c' \<subseteq> written c \<or> (\<exists>r. Q r \<and> written c' \<subseteq> insert (rc_prefix rc @ '':'' @ key, dumps cd (dump r)) (written c)))"
proof (cases client)
  case None
  with step have "payload = computed" "c' = c" by (auto simp: get_or_set_def)
  with now show ?thesis by blast
next
  case (Some cl)
  with client have cl: "faithful_cache cl written" by simp
  from get_or_set_step [OF cl step [unfolded Some]]
  consider "payload = computed" "written c' \<subseteq> written c"
    | v where "payload = computed" "computed = Inr v" "written c' \<subseteq> insert (rc_prefix rc @ '':'' @ key, dumps cd v) (written c)"
    | v where "(rc_prefix rc @ '':'' @ key, v) \<in> written c" "payload = loads cd v" "written c' \<subseteq> written c"
    by blast
  then show ?thesis
  proof cases
    case 1
    with now show ?thesis by blast
  next
    case 2
    from now [OF 2(2)] obtain r where "v = dump r" "Q r" by blast
    with 2 show ?thesis by auto
  next
    case 3
    from stored [OF 3(1)] obtain r where r: "v = dumps cd (dump r)" "Q r" by blast
    with codec [OF r(2)] 3 show ?thesis by auto
  qed
qed

lemma honest_insert_user:
  assumes "honest sv D w" "w' \<subseteq> insert (full_key sv (user_key u n), dumps (sv_codec sv) (rec_dump (sv_codec sv) r)) w"
    "served_in sv D u n r"
  shows "honest sv D w'"
  unfolding honest_def
proof (intro conjI allI impI)
  fix v m t assume "(full_key sv (user_key v m), t) \<in> w'"
  with assms(2) have "(full_key sv (user_key v m), t) \<in> w \<or> v = u \<and> m = n \<and> t = dumps (sv_codec sv) (rec_dump (sv_codec sv) r)"
    by auto
  with assms(1,3) show "\<exists>r. t = dumps (sv_codec sv) (rec_dump (sv_codec sv) r) \<and> served_in sv D v m r"
    unfolding honest_def by blast
next
  fix g m t assume "(full_key sv (game_key g m), t) \<in> w'"
  with assms(2) have "(full_key sv (game_key g m), t) \<in> w" by auto
  with assms(1) show "\<exists>r. t = dumps (sv_codec sv) (sim_dump (sv_codec sv) r) \<and> similar_in sv D g m r"
    unfolding honest_def by blast
qed

lemma honest_insert_game:
  assumes "honest sv D w" "w' \<subseteq> insert (full_key sv (game_key g n), dumps (sv_codec sv) (sim_dump (sv_codec sv) r)) w"
    "similar_in sv D g n r"
  shows "honest sv D w'"
  unfolding honest_def
proof (intro conjI allI impI)
  fix h m t assume "(full_key sv (game_key h m), t) \<in> w'"
  with assms(2) have "(full_key sv (game_key h m), t) \<in> w \<or> h = g \<and> m = n \<and> t = dumps (sv_codec sv) (sim_dump (sv_codec sv) r)"
    by auto
  with assms(1,3) show "\<exists>r. t = dumps (sv_codec sv) (sim_dump (sv_codec sv) r) \<and> similar_in sv D h m r"
    unfolding honest_def by blast
next
  fix u m t assume "(full_key sv (user_key u m), t) \<in> w'"
  with assms(2) have "(full_key sv (user_key u m), t) \<in> w" by auto
  with assms(1) show "\<exists>r. t = dumps (sv_codec sv) (rec_dump (sv_codec sv) r) \<and> served_in sv D u m r"
    unfolding honest_def by blast
qed

lemma my_recommendations_step:
  assumes tp: "third_parties sv written D" and h: "honest sv D (written c)" and db: "db \<in> D"
    and step: "my_recommendations sv cid a n db c = (res, c')"
  shows "honest sv D (written c')" "res = Inr r \<Longrightarrow> served_in sv D (actor_user_id a) n r"
proof -
  let ?u = "actor_user_id a" and ?cd = "sv_codec sv"
  let ?computed = "bindE (fst (serve (sv_ops sv) cid ?u n db)) (\<lambda>r. Inr (rec_dump ?cd r))"
  obtain payload where p: "get_or_set ?cd (sv_client sv) (sv_cache sv) (user_key ?u n) ?computed None c = (payload, c')"
    "res = bindE payload (rec_validate ?cd)"
    using step by (auto simp: my_recommendations_def Let_def split: prod.splits)
  have codec: "served_in sv D ?u n r \<Longrightarrow> rec_validate ?cd (rec_dump ?cd r) = Inr r \<and>
      loads ?cd (dumps ?cd (rec_dump ?cd r)) = Inr (rec_dump ?cd r)" for r
    using tp unfolding third_parties_def codec_faithful_def by blast
  have *: "(\<forall>j. payload = Inr j \<longrightarrow> (\<exists>r. j = rec_dump ?cd r \<and> served_in sv D ?u n r)) \<and>
    (written c' \<subseteq> written c \<or> (\<exists>r. served_in sv D ?u n r \<and>
      written c' \<subseteq> insert (rc_prefix (sv_cache sv) @ '':'' @ user_key ?u n, dumps ?cd (rec_dump ?cd r)) (written c)))"
  proof (rule cached_step [OF _ p(1)])
    show "case sv_client sv of None \<Rightarrow> True | Some cl \<Rightarrow> faithful_cache cl written"
      using tp by (simp add: third_parties_def)
    show "\<exists>r. v = rec_dump ?cd r \<and> served_in sv D ?u n r" if "?computed = Inr v" for v
      using that db by (auto simp: res_simps served_in_def)
    show "\<exists>r. v = dumps ?cd (rec_dump ?cd r) \<and> served_in sv D ?u n r"
      if "(rc_prefix (sv_cache sv) @ '':'' @ user_key ?u n, v) \<in> written c" for v
      using h that by (simp add: honest_def full_key_def)
    show "loads ?cd (dumps ?cd (rec_dump ?cd r)) = Inr (rec_dump ?cd r)" if "served_in sv D ?u n r" for r
      using codec [OF that] ..
  qed
  show "honest sv D (written c')"
    using * honest_subset [OF h] honest_insert_user [OF h] unfolding full_key_def by blast
  show "served_in sv D ?u n r" if "res = Inr r"
  proof -
    have "bindE payload (rec_validate ?cd) = Inr r" using p(2) that by simp
    then obtain j where "payload = Inr j" "rec_validate ?cd j = Inr r" unfolding bindE_eq_Inr by blast
    with * codec show ?thesis by fastforce
  qed
qed

lemma similar_games_step:
  assumes tp: "third_parties sv written D" and h: "honest sv D (written c)" and db: "db \<in> D"
    and step: "similar_games sv cid g n db c = (res, c')"
  shows "honest sv D (written c')" "res = Inr r \<Longrightarrow> similar_in sv D g n r"
proof -
  let ?cd = "sv_codec sv"
  let ?computed = "bindE (fst (list_similar (sv_ops sv) (catalogue_scan_limit (sv_settings sv))
    (ranks_in_dense_space (sv_settings sv)) cid g n db)) (\<lambda>r. Inr (sim_dump ?cd r))"
  obtain payload where p: "get_or_set ?cd (sv_client sv) (sv_cache sv) (game_key g n) ?computed None c = (payload, c')"
    "res = bindE payload (sim_validate ?cd)"
    using step by (auto simp: similar_games_def Let_def split: prod.splits)
  have codec: "similar_in sv D g n r \<Longrightarrow> sim_validate ?cd (sim_dump ?cd r) = Inr r \<and>
      loads ?cd (dumps ?cd (sim_dump ?cd r)) = Inr (sim_dump ?cd r)" for r
    using tp unfolding third_parties_def codec_faithful_def by blast
  have *: "(\<forall>j. payload = Inr j \<longrightarrow> (\<exists>r. j = sim_dump ?cd r \<and> similar_in sv D g n r)) \<and>
    (written c' \<subseteq> written c \<or> (\<exists>r. similar_in sv D g n r \<and>
      written c' \<subseteq> insert (rc_prefix (sv_cache sv) @ '':'' @ game_key g n, dumps ?cd (sim_dump ?cd r)) (written c)))"
  proof (rule cached_step [OF _ p(1)])
    show "case sv_client sv of None \<Rightarrow> True | Some cl \<Rightarrow> faithful_cache cl written"
      using tp by (simp add: third_parties_def)
    show "\<exists>r. v = sim_dump ?cd r \<and> similar_in sv D g n r" if "?computed = Inr v" for v
      using that db by (auto simp: res_simps similar_in_def)
    show "\<exists>r. v = dumps ?cd (sim_dump ?cd r) \<and> similar_in sv D g n r"
      if "(rc_prefix (sv_cache sv) @ '':'' @ game_key g n, v) \<in> written c" for v
      using h that by (simp add: honest_def full_key_def)
    show "loads ?cd (dumps ?cd (sim_dump ?cd r)) = Inr (sim_dump ?cd r)" if "similar_in sv D g n r" for r
      using codec [OF that] ..
  qed
  show "honest sv D (written c')"
    using * honest_subset [OF h] honest_insert_game [OF h] unfolding full_key_def by blast
  show "similar_in sv D g n r" if "res = Inr r"
  proof -
    have "bindE payload (sim_validate ?cd) = Inr r" using p(2) that by simp
    then obtain j where "payload = Inr j" "sim_validate ?cd j = Inr r" unfolding bindE_eq_Inr by blast
    with * codec show ?thesis by fastforce
  qed
qed

section \<open>Sequences of requests\<close>

text \<open>Requests in turn, each on the database and the clock it finds; only the cache is handed on, so that
  anything may have happened to the database in between.\<close>

fun run_requests ::
  "('db, 's, 'c) service \<Rightarrow> (request \<times> 'db \<times> stamps) list \<Rightarrow> 'c \<Rightarrow> reply list \<times> 'c" where
  "run_requests sv [] c = ([], c)"
| "run_requests sv ((rq, db, ss) # xs) c =
     (let (rep, db', ss', c) = respond sv rq (db, ss, c); (reps, c) = run_requests sv xs c in (rep # reps, c))"

abbreviation dbs_of :: "(request \<times> 'db \<times> stamps) list \<Rightarrow> 'db set" where
  "dbs_of xs \<equiv> (\<lambda>(rq, db, ss). db) ` set xs"

text \<open>What a reply may be, given the databases seen so far.\<close>

definition entitled :: "('db, 's, 'c) service \<Rightarrow> 'db set \<Rightarrow> request \<Rightarrow> reply \<Rightarrow> bool" where
  "entitled sv D rq rep \<longleftrightarrow>
     (case rep of
        Problem p \<Rightarrow> True
      | Recommendations r \<Rightarrow>
          (\<exists>a u n. caller sv rq = Inr a \<and> in_range n \<and> served_in sv D u n r \<and>
             (rq_route rq = MyRecommendations n \<and> u = actor_user_id a \<or>
              rq_route rq = RecommendationsFor u n \<and> (u = actor_user_id a \<or> is_moderator a)))
      | Similar r \<Rightarrow> (\<exists>g n. rq_route rq = SimilarGames g n \<and> in_range n \<and> similar_in sv D g n r)
      | Report r \<Rightarrow> (\<exists>a. moderator sv rq = Inr a \<and> (rq_route rq = RefreshAll \<or> (\<exists>u. rq_route rq = RefreshUser u))))"

lemma respond_entitled:
  assumes tp: "third_parties sv written D" and h: "honest sv D (written c)" and db: "db \<in> D"
    and step: "respond sv rq (db, ss, c) = (rep, db', ss', c')"
  shows "honest sv D (written c') \<and> entitled sv D rq rep"
proof (cases "rq_route rq")
  case (MyRecommendations n)
  show ?thesis
  proof (cases "caller sv rq")
    case (Inl x)
    then show ?thesis using step h by (auto simp: respond_def Let_def MyRecommendations entitled_def)
  next
    case (Inr a)
    obtain res c1 where my: "my_recommendations sv (rq_correlation_id rq) a n db c = (res, c1)"
      by (cases "my_recommendations sv (rq_correlation_id rq) a n db c")
    note st = my_recommendations_step [OF tp h db my]
    show ?thesis using step Inr my st h
      by (cases res) (auto simp: respond_def Let_def MyRecommendations entitled_def reply_of_def split: if_splits)
  qed
next
  case (RecommendationsFor u n)
  then show ?thesis using step h db
    by (auto simp: respond_def Let_def entitled_def reply_of_def recommendations_for_def intro: served_inI split: sum.splits if_splits)
next
  case (SimilarGames g n)
  obtain res c1 where sim: "similar_games sv (rq_correlation_id rq) g n db c = (res, c1)"
    by (cases "similar_games sv (rq_correlation_id rq) g n db c")
  note st = similar_games_step [OF tp h db sim]
  show ?thesis using step sim st h
    by (cases res) (auto simp: respond_def Let_def SimilarGames entitled_def reply_of_def split: if_splits)
next
  case RefreshAll
  then show ?thesis using step h
    by (auto simp: respond_def Let_def entitled_def reply_of_def split: sum.splits prod.splits)
next
  case (RefreshUser u)
  then show ?thesis using step h
    by (auto simp: respond_def Let_def entitled_def reply_of_def split: sum.splits prod.splits)
qed

lemma run_requests_honest:
  assumes "third_parties sv written D" "dbs_of xs \<subseteq> D" "honest sv D (written c)" "run_requests sv xs c = (reps, c')"
  shows "honest sv D (written c')"
  using assms(2-)
proof (induction xs arbitrary: c reps)
  case Nil
  then show ?case by simp
next
  case (Cons x xs)
  obtain rq db ss where x: "x = (rq, db, ss)" by (cases x)
  obtain rep db' ss' c1 where r: "respond sv rq (db, ss, c) = (rep, db', ss', c1)" by (cases "respond sv rq (db, ss, c)")
  obtain reps' where run: "run_requests sv xs c1 = (reps', c')"
    using Cons.prems(3) by (cases "run_requests sv xs c1") (simp add: x r)
  have "honest sv D (written c1)"
    using respond_entitled [OF assms(1) Cons.prems(2) _ r] Cons.prems(1) by (auto simp: x)
  with Cons.IH [OF _ this run] Cons.prems(1) show ?case by auto
qed

lemma serve_names_the_user: "fst (serve ops cid u n db) = Inr r \<Longrightarrow> rs_user_id r = user_str u"
  by (auto simp: serve_def with_uow_def fallback_response_def Let_def split: if_splits prod.splits)

lemma served_in_user: "served_in sv D u n r \<Longrightarrow> rs_user_id r = user_str u"
  by (auto simp: served_in_def dest: serve_names_the_user)

section \<open>The API\<close>

text \<open>A service on the in-memory backend with a dictionary for Redis, and a codec for the empty catalogue.\<close>

definition dict_client :: "(string, string) dict cache_client" where
  "dict_client = \<lparr>cc_get = (\<lambda>k c. (Inr (map_of c k), c)), cc_set = (\<lambda>k v ttl c. (Inr (), (k, v) # c))\<rparr>"

definition empty_response :: "string \<Rightarrow> recommendations_response" where
  "empty_response u = \<lparr>rs_user_id = u, rs_source = FALLBACK, rs_generated_at = None, rs_items = []\<rparr>"

definition user_codec :: codec where
  "user_codec = \<lparr>dumps = (\<lambda>j. case j of JStr s \<Rightarrow> s | _ \<Rightarrow> []), loads = (\<lambda>s. Inr (JStr s)),
     rec_dump = (\<lambda>r. JStr (rs_user_id r)),
     rec_validate = (\<lambda>j. case j of JStr s \<Rightarrow> Inr (empty_response s) | _ \<Rightarrow> Inl (ValueError ''invalid'')),
     sim_dump = (\<lambda>r. JNull), sim_validate = (\<lambda>j. Inl (ValueError ''invalid''))\<rparr>"

definition sample_service :: "(memory_store, memory_uow, (string, string) dict) service" where
  "sample_service =
     \<lparr>sv_settings = default_settings, sv_tokens = None, sv_ops = memory_ops ascending ascending ''reco-events'',
      sv_generator = sample_generator, sv_embedding = None, sv_client = Some dict_client,
      sv_cache = \<lparr>rc_prefix = service_name default_settings, rc_default_ttl = recommendation_cache_ttl_seconds default_settings\<rparr>,
      sv_codec = user_codec, sv_decode = (\<lambda>token secret alg iss aud. Inl ''no tokens here''), sv_float_str = (\<lambda>x. []),
      sv_vmsg = (\<lambda>n. [])\<rparr>"

definition debug_request :: "route \<Rightarrow> request" where
  "debug_request rt = \<lparr>rq_credentials = None, rq_debug_user = Some (uuid_str 7), rq_correlation_id = None, rq_route = rt\<rparr>"

lemma sample_caller [simp]:
  "caller sample_service (debug_request rt) = Inr \<lparr>actor_user_id = UserId 7, actor_role = BASIC_USER, is_banned = False\<rparr>"
  by (simp add: caller_def optional_actor_def sample_service_def debug_request_def is_local_def default_settings_def
      uuid_parse_str current_actor_def)

lemma serve_empty: "fst (serve (sv_ops sample_service) cid u n empty_store) = Inr (empty_response (user_str u))"
  by (simp add: serve_def with_uow_def sample_service_def memory_ops_def mem_open_def mem_for_user_def empty_store_def
      fallback_response_def mem_recommendable_def merged_games_def top_sellers_def Let_def empty_response_def dget_def)

lemma similar_empty: "fst (list_similar (sv_ops sample_service) m b cid g n empty_store) = Inl (NotFound (''game '' @ game_str g @ '' is not known to this service''))"
  by (simp add: list_similar_def with_uow_def sample_service_def memory_ops_def mem_open_def mem_get_game_def empty_store_def)

lemma sample_third_parties: "third_parties sample_service set {empty_store}"
proof -
  have "sv_codec sample_service = user_codec" "sv_client sample_service = Some dict_client"
    by (simp_all add: sample_service_def)
  then show ?thesis
    by (auto simp: third_parties_def codec_faithful_def served_in_def similar_in_def serve_empty similar_empty user_codec_def
        empty_response_def faithful_cache_def dict_client_def dest: map_of_SomeD)
qed

text \<open>C6: what a reply may be. Take any sequence of requests, with anything happening to the database
  between them, on a cache that starts empty and only gives back what was set. A list of recommendations is
  only ever sent to an identified caller, is the answer of the read use case for one user on the database of
  this or of an earlier request, with the limit asked for, and names that user: the caller's own, or, on the
  other route, the user asked for, who is the caller unless the caller is a moderator. The cache never gives
  a user's list to another. Similar games are those of the game and limit asked for. A report goes to
  moderators only.\<close>

theorem replies_are_entitled:
  assumes "third_parties sv written (insert db (dbs_of xs))" "written c0 = {}"
    and "run_requests sv xs c0 = (reps, c)" "respond sv rq (db, ss, c) = (rep, db', ss', c')"
  shows "case rep of
      Problem p \<Rightarrow> True
    | Recommendations r \<Rightarrow>
        (\<exists>a u n. caller sv rq = Inr a \<and> in_range n \<and> rs_user_id r = user_str u \<and>
           served_in sv (insert db (dbs_of xs)) u n r \<and>
           (rq_route rq = MyRecommendations n \<and> u = actor_user_id a \<or>
            rq_route rq = RecommendationsFor u n \<and> (u = actor_user_id a \<or> is_moderator a)))
    | Similar r \<Rightarrow> (\<exists>g n. rq_route rq = SimilarGames g n \<and> in_range n \<and> similar_in sv (insert db (dbs_of xs)) g n r)
    | Report r \<Rightarrow> (\<exists>a. moderator sv rq = Inr a \<and> (rq_route rq = RefreshAll \<or> (\<exists>u. rq_route rq = RefreshUser u)))"
proof -
  let ?D = "insert db (dbs_of xs)"
  have "honest sv ?D (written c0)" by (simp add: honest_def assms(2))
  from run_requests_honest [OF assms(1) _ this assms(3)] have "honest sv ?D (written c)" by auto
  then have "entitled sv ?D rq rep" using respond_entitled [OF assms(1) _ _ assms(4)] by blast
  then show ?thesis unfolding entitled_def using served_in_user by (cases rep) (simp_all, blast)
qed

lemma replies_are_entitled_witness:
  "\<exists>r. fst (respond sample_service (debug_request (MyRecommendations 10)) (empty_store, sample_stamps,
       snd (run_requests sample_service [(debug_request (MyRecommendations 10), empty_store, sample_stamps)] []))) = Recommendations r \<and>
     rs_user_id r = user_str (UserId 7)"
proof -
  let ?rq = "debug_request (MyRecommendations 10)" and ?a = "\<lparr>actor_user_id = UserId 7, actor_role = BASIC_USER, is_banned = False\<rparr>"
  let ?entry = "(full_key sample_service (user_key (UserId 7) 10), user_str (UserId 7))"
  have parts: "sv_codec sample_service = user_codec" "sv_client sample_service = Some dict_client"
    "rq_route ?rq = MyRecommendations 10" "rq_correlation_id ?rq = None"
    by (simp_all add: sample_service_def debug_request_def)
  have my: "my_recommendations sample_service None ?a 10 empty_store c = (Inr (empty_response (user_str (UserId 7))), [?entry])"
    if "c = [] \<or> c = [?entry]" for c
    using that by (auto simp: my_recommendations_def get_or_set_def parts dict_client_def user_codec_def serve_empty
        full_key_def empty_response_def)
  have step: "respond sample_service ?rq (empty_store, sample_stamps, c) =
      (Recommendations (empty_response (user_str (UserId 7))), empty_store, sample_stamps, [?entry])" if "c = [] \<or> c = [?entry]" for c
    using my [OF that] by (simp add: respond_def parts reply_of_def in_range_def MAX_RECOMMENDATION_COUNT_def)
  have run: "run_requests sample_service [(?rq, empty_store, sample_stamps)] [] =
      ([Recommendations (empty_response (user_str (UserId 7)))], [?entry])"
    by (simp add: step)
  have "third_parties sample_service set (insert empty_store (dbs_of [(?rq, empty_store, sample_stamps)]))"
    using sample_third_parties by simp
  from replies_are_entitled [OF this _ run step] show ?thesis
    by (simp add: run step parts)
qed

text \<open>C40: a cache that answers nothing. With a Redis that is down, or that never has the key, and whatever its
  writes do, every request gets the reply and leaves the database it would without a cache.\<close>

theorem cache_outage_is_invisible:
  assumes "\<forall>k c. fst (cc_get cl k c) = Inr None \<or> (\<exists>x. fst (cc_get cl k c) = Inl x)"
  shows "\<exists>c'. respond (sv\<lparr>sv_client := Some cl\<rparr>) rq (db, ss, c) =
    (let (rep, db', ss', c0) = respond (sv\<lparr>sv_client := None\<rparr>) rq (db, ss, c) in (rep, db', ss', c'))"
proof -
  have miss: "\<exists>c'. get_or_set cd (Some cl) rc key computed ttl c = (computed, c')" for cd rc key computed ttl
  proof -
    obtain got c1 where got: "cc_get cl (rc_prefix rc @ '':'' @ key) c = (got, c1)" by (cases "cc_get cl (rc_prefix rc @ '':'' @ key) c")
    with assms have "got = Inr None \<or> (\<exists>x. got = Inl x)" by (metis fst_conv)
    with got show ?thesis by (cases computed) (auto simp: get_or_set_def)
  qed
  have caller: "caller (sv\<lparr>sv_client := x\<rparr>) rq = caller sv rq" "moderator (sv\<lparr>sv_client := x\<rparr>) rq = moderator sv rq" for x
    by (simp_all add: caller_def moderator_def)
  have my: "\<exists>c'. my_recommendations (sv\<lparr>sv_client := Some cl\<rparr>) cid a n db c =
      (fst (my_recommendations (sv\<lparr>sv_client := None\<rparr>) cid a n db c), c')" for cid a n
    using miss [of "sv_codec sv" "sv_cache sv" "user_key (actor_user_id a) n"
        "bindE (fst (serve (sv_ops sv) cid (actor_user_id a) n db)) (\<lambda>r. Inr (rec_dump (sv_codec sv) r))" None]
    by (auto simp: my_recommendations_def get_or_set_def [of _ None])
  have sim: "\<exists>c'. similar_games (sv\<lparr>sv_client := Some cl\<rparr>) cid g n db c =
      (fst (similar_games (sv\<lparr>sv_client := None\<rparr>) cid g n db c), c')" for cid g n
    using miss [of "sv_codec sv" "sv_cache sv" "game_key g n" "bindE (fst (list_similar (sv_ops sv)
        (catalogue_scan_limit (sv_settings sv)) (ranks_in_dense_space (sv_settings sv)) cid g n db)) (\<lambda>r. Inr (sim_dump (sv_codec sv) r))" None]
    by (auto simp: similar_games_def get_or_set_def [of _ None])
  show ?thesis
  proof (cases "rq_route rq")
    case (MyRecommendations n)
    show ?thesis
    proof (cases "caller sv rq")
      case (Inr a)
      then show ?thesis using my [of "rq_correlation_id rq" a n]
        by (auto simp: respond_def Let_def MyRecommendations caller split: prod.splits)
    qed (simp add: respond_def Let_def MyRecommendations caller)
  next
    case (SimilarGames g n)
    then show ?thesis using sim [of "rq_correlation_id rq" g n] by (auto simp: respond_def Let_def split: prod.splits)
  qed (auto simp: respond_def Let_def caller recommendations_for_def split: sum.splits prod.splits)
qed

lemma cache_outage_is_invisible_witness:
  "\<exists>c'. respond (sample_service\<lparr>sv_client := Some (dict_client\<lparr>cc_get := \<lambda>k c. (Inl (ConnectionError ''redis is down''), c)\<rparr>)\<rparr>)
      (debug_request (MyRecommendations 10)) (empty_store, sample_stamps, []) =
    (let (rep, db', ss', c0) = respond (sample_service\<lparr>sv_client := None\<rparr>) (debug_request (MyRecommendations 10))
       (empty_store, sample_stamps, []) in (rep, db', ss', c'))"
  by (rule cache_outage_is_invisible) simp

text \<open>An entry that is not JSON is read outside the handler of the outage: the request fails.\<close>

lemma unreadable_entry_is_an_internal_error:
  assumes "rq_route rq = MyRecommendations n" "in_range n" "caller sv rq = Inr a" "sv_client sv = Some cl"
    and "cc_get cl (full_key sv (user_key (actor_user_id a) n)) c = (Inr (Some entry), c')"
    and "loads (sv_codec sv) entry = Inl (ValueError m)"
  shows "fst (respond sv rq (db, ss, c)) = Problem (handle_unexpected_error (rq_correlation_id rq))"
  using assms
  by (simp add: respond_def Let_def my_recommendations_def get_or_set_def full_key_def reply_of_def problem_internal)

text \<open>C33: who changes anything. A request leaves the database as it was and gets no report unless it carries,
  as a bearer token, an access token that the verifier's secret, algorithm, issuer and audience confirm and
  whose role is support or administrator. The debug header never gets that far.\<close>

theorem only_moderators_change_anything:
  assumes "respond sv rq (db, ss, c) = (rep, db', ss', c')" "db' \<noteq> db \<or> ss' \<noteq> ss \<or> (\<exists>r. rep = Report r)"
  shows "\<exists>v token claims a. sv_tokens sv = Some v \<and> rq_credentials rq = Some token \<and> py_lower (fst token) = ''bearer'' \<and>
    claims_of (sv_float_str sv) (sv_decode sv) v (snd token) a claims \<and> actor_role a \<in> {SUPPORT, ADMIN} \<and>
    (rq_route rq = RefreshAll \<or> (\<exists>u. rq_route rq = RefreshUser u))"
proof -
  have "(\<exists>a. moderator sv rq = Inr a) \<and> (rq_route rq = RefreshAll \<or> (\<exists>u. rq_route rq = RefreshUser u))"
    using assms by (auto simp: respond_def Let_def reply_of_def split: route.splits sum.splits if_splits prod.splits)
  then obtain a where a: "moderator sv rq = Inr a" and route: "rq_route rq = RefreshAll \<or> (\<exists>u. rq_route rq = RefreshUser u)"
    by blast
  have role: "actor_role a \<in> {SUPPORT, ADMIN}"
    and opt: "optional_actor (sv_float_str sv) (sv_decode sv) (sv_settings sv) (sv_tokens sv) (rq_credentials rq) (rq_debug_user rq) = Inr (Some a)"
    using a by (auto simp: moderator_def caller_def res_simps require_roles_def current_actor_def moderators_def
        split: if_splits option.splits)
  from optional_actor_Some [OF opt] role have "by_token (sv_float_str sv) (sv_decode sv) (sv_tokens sv) (rq_credentials rq) a"
    by auto
  then show ?thesis using role route by (fastforce simp: by_token_def)
qed

definition admin_service :: "(memory_store, memory_uow, (string, string) dict) service" where
  "admin_service = sample_service
     \<lparr>sv_tokens := Some \<lparr>jv_secret = ''k'', jv_algorithm = ''HS256'', jv_issuer = ''i'', jv_audience = ''a''\<rparr>,
      sv_decode := (\<lambda>token secret alg iss aud. Inr [(''sub'', JStr (user_str (UserId 7))), (''role'', JStr token)])\<rparr>"

definition admin_request :: "route \<Rightarrow> request" where
  "admin_request rt = \<lparr>rq_credentials = Some (''Bearer'', ''ADMIN''), rq_debug_user = None, rq_correlation_id = None, rq_route = rt\<rparr>"

lemma admin_moderator:
  "moderator admin_service (admin_request rt) = Inr \<lparr>actor_user_id = UserId 7, actor_role = ADMIN, is_banned = False\<rparr>"
proof -
  have "role_of ''ADMIN'' = Some ADMIN" "py_lower ''Bearer'' = ''bearer''" "py_upper [] \<noteq> ''BANNED''" by code_simp+
  then show ?thesis
    by (simp add: moderator_def caller_def optional_actor_def admin_service_def sample_service_def admin_request_def
        verify_def decode_token_def get_or_def json_get_def dget_def ACCESS_def user_id_roundtrip current_actor_def
        require_roles_def moderators_def)
qed

lemma only_moderators_change_anything_witness:
  "\<exists>a claims. claims_of (\<lambda>x. []) (sv_decode admin_service) (the (sv_tokens admin_service)) ''ADMIN'' a claims \<and>
     actor_role a \<in> {SUPPORT, ADMIN}"
proof -
  obtain res db ss where res: "refresh_for (sv_ops admin_service) (sv_generator admin_service) (sv_embedding admin_service) None (UserId 7)
      DEFAULT_RECOMMENDATION_COUNT (empty_store, sample_stamps) = (res, db, ss)"
    by (cases "refresh_for (sv_ops admin_service) (sv_generator admin_service) (sv_embedding admin_service) None (UserId 7)
      DEFAULT_RECOMMENDATION_COUNT (empty_store, sample_stamps)")
  have ops: "sv_ops admin_service = memory_ops ascending ascending ''reco-events''" "sv_embedding admin_service = None"
    "sv_generator admin_service = sample_generator"
    by (simp_all add: admin_service_def sample_service_def)
  have "res = Inr \<lparr>users_processed = 1, recommendations_written = 0, rr_generated_at = clock sample_stamps 0\<rparr>"
  proof -
    have "store_ok empty_store" by (simp add: store_ok_def empty_store_def keyed_def owners_ok_def)
    moreover have "is_cold (pref_of (store_view empty_store) (UserId 7))"
      by (simp add: sample_views is_cold_def blank_def)
    ultimately obtain db' where "generate (memory_ops ascending ascending ''reco-events'') sample_generator None (UserId 7)
        DEFAULT_RECOMMENDATION_COUNT (empty_store, sample_stamps) = (Inr 0, db', sample_stamps)"
      using mem.generate_cold by blast
    then show ?thesis using res by (simp add: ops refresh_for_def embed_first_def stamps_now_def sample_stamps_def)
  qed
  moreover obtain rep db' ss' c' where rsp:
    "respond admin_service (admin_request (RefreshUser (UserId 7))) (empty_store, sample_stamps, []) = (rep, db', ss', c')"
    by (cases "respond admin_service (admin_request (RefreshUser (UserId 7))) (empty_store, sample_stamps, [])")
  ultimately have "\<exists>r. rep = Report r"
    using res admin_moderator [of "RefreshUser (UserId 7)"]
    by (auto simp: respond_def Let_def admin_request_def reply_of_def)
  with only_moderators_change_anything [OF rsp] obtain v token claims a where
    "sv_tokens admin_service = Some v" "rq_credentials (admin_request (RefreshUser (UserId 7))) = Some token"
    "claims_of (sv_float_str admin_service) (sv_decode admin_service) v (snd token) a claims" "actor_role a \<in> {SUPPORT, ADMIN}"
    by blast
  moreover have "sv_float_str admin_service = (\<lambda>x. [])" by (simp add: admin_service_def sample_service_def)
  ultimately show ?thesis by (intro exI [of _ a] exI [of _ claims]) (auto simp: admin_request_def)
qed

text \<open>Problem documents. Every request that fails gets a problem with one of five statuses; it asks for
  credentials exactly when the status is 401; and everything the code does not raise on purpose, whatever it
  is, gets the same document, which says nothing about it.\<close>

theorem problems_hide_internals:
  "(\<exists>p. problem_for cid x = p \<and> pb_status p \<in> {401, 403, 404, 422, 500} \<and> (pb_authenticate p \<longleftrightarrow> pb_status p = 401) \<and>
      (pb_status p = 500 \<longleftrightarrow> status_map x = None) \<and> pb_trace_id p = (case cid of None \<Rightarrow> [] | Some c \<Rightarrow> c)) \<and>
   (status_map x = None \<and> status_map y = None \<longrightarrow> problem_for cid x = problem_for cid y)"
  using problem_statuses [of cid x] problem_authenticate [of cid x] problem_internal [of x cid] problem_internal [of y cid]
  by (cases x) (auto simp: problem_for_def handle_known_error_def handle_unexpected_error_def problem_of_def Let_def)

lemma problems_hide_internals_witness:
  "problem_for None (ValueError ''secret'') = problem_for None (ConnectionError ''postgres://secret'')"
  using problems_hide_internals [of None "ValueError ''secret''" "ConnectionError ''postgres://secret''"] by simp

lemma check_down: "fst (check p True) = ''DOWN'' \<longleftrightarrow> p \<noteq> None"
  by (cases p) (simp_all add: check_def)

lemma check_degraded: "fst (check p False) \<noteq> ''DOWN''"
  by (cases p) (simp_all add: check_def)

text \<open>Readiness. \<open>/readyz\<close> answers 200 exactly when the database is reachable and the dispatcher runs;
  Redis and the scheduler show as degraded and never take a replica out. Its body names every check once.\<close>

lemma ready_iff_critical_parts:
  "fst (readyz s v) = (if vt_persistence v = None \<and> vt_dispatcher_running v then 200 else 503) \<and>
   fst (snd (readyz s v)) = (if fst (readyz s v) = 200 then ''UP'' else ''DOWN'') \<and>
   dict_ok (snd (snd (readyz s v))) \<and>
   fst (readyz s v) = fst (readyz s (v\<lparr>vt_cache := x, vt_scheduler_running := b\<rparr>))"
  by (cases "vt_persistence v"; cases "vt_cache v"; cases x)
    (simp_all add: readyz_def readyz_checks_def Let_def split_beta check_down check_degraded)

end
