(* ===== verification/Adapters.thy ===== *)
theory Adapters
  imports Refresh Wire Outbox
begin

text \<open>
  The embedding and explanation models (\<open>infrastructure/adapters/embedding.py\<close>, \<open>explanation.py\<close>)
  and the fixed clock (\<open>support.py\<close>). The requests to the third parties are the parameter \<open>post\<close>: what
  an HTTP POST of a JSON body to a URL with headers, \<open>raise_for_status\<close> and \<open>response.json()\<close> give. The
  hash function, \<open>float\<close> of a string and \<open>json.loads\<close> are parameters too.
\<close>

type_synonym http_post = "string \<Rightarrow> json \<Rightarrow> (string, string) dict \<Rightarrow> exn + json"

definition bearer :: "string \<Rightarrow> (string, string) dict" where
  "bearer api_key = (if api_key = [] then [] else [(''Authorization'', ''Bearer '' @ api_key)])"

section \<open>The hashing embedder\<close>

definition PUNCTUATION :: string where
  "PUNCTUATION = ''.,:;!?()[]'' @ [CHR 0x22, CHR 0x27]"

text \<open>The words of a text that are hashed: split on white space, stripped of punctuation, not empty.\<close>

definition hashed_words :: "string \<Rightarrow> string list" where
  "hashed_words text = filter (\<lambda>token. token \<noteq> [])
     (map (\<lambda>word. py_strip (strip_chars PUNCTUATION word)) (py_split (py_lower text)))"

text \<open>
  \<open>blake2b\<close> is the digest of 8 bytes of a token, the first byte the most significant: \<open>digest[:4]\<close> is
  its upper half and \<open>digest[4] & 1\<close> is bit 24. A negative or zero dimension raises as Python does.
\<close>

definition bucket_of :: "64 word \<Rightarrow> int \<Rightarrow> int" where
  "bucket_of digest dims = uint (drop_bit 32 digest) mod dims"

definition sign_of :: "64 word \<Rightarrow> real" where
  "sign_of digest = (if bit digest 24 then 1 else - 1)"

definition hash_token :: "(string \<Rightarrow> 64 word) \<Rightarrow> int \<Rightarrow> string \<Rightarrow> real list \<Rightarrow> exn + real list" where
  "hash_token blake2b dims token buckets =
     (if dims = 0 then Inl (ZeroDivisionError ''integer modulo by zero'')
      else if dims < 0 then Inl (IndexError ''list index out of range'')
      else let i = nat (bucket_of (blake2b token) dims) in
        Inr (buckets[i := buckets ! i + sign_of (blake2b token)]))"

fun hash_tokens :: "(string \<Rightarrow> 64 word) \<Rightarrow> int \<Rightarrow> string list \<Rightarrow> real list \<Rightarrow> exn + real list" where
  "hash_tokens blake2b dims [] buckets = Inr buckets"
| "hash_tokens blake2b dims (t # ts) buckets = bindE (hash_token blake2b dims t buckets) (hash_tokens blake2b dims ts)"

definition unit_length :: "real list \<Rightarrow> real list" where
  "unit_length buckets =
     (let magnitude = sqrt (sum_list (map (\<lambda>v. v * v) buckets)) in
      if magnitude = 0 then buckets else map (\<lambda>v. v / magnitude) buckets)"

definition hash_one :: "(string \<Rightarrow> 64 word) \<Rightarrow> int \<Rightarrow> string \<Rightarrow> exn + real list" where
  "hash_one blake2b dims text =
     bindE (hash_tokens blake2b dims (hashed_words text) (replicate (nat dims) 0)) (\<lambda>buckets. Inr (unit_length buckets))"

definition hashing_embedder :: "(string \<Rightarrow> 64 word) \<Rightarrow> int \<Rightarrow> embedder" where
  "hashing_embedder blake2b dims texts = mapE (hash_one blake2b dims) texts"

section \<open>The HuggingFace embedder\<close>

fun is_number :: "json \<Rightarrow> bool" where
  "is_number (JBool b) = True"
| "is_number (JInt i) = True"
| "is_number (JFloat x) = True"
| "is_number _ = False"

definition row_at :: "(string \<Rightarrow> real option) \<Rightarrow> nat \<Rightarrow> json list \<Rightarrow> exn + real" where
  "row_at rf i row = (if i < length row then py_float rf (row ! i) else Inl (IndexError ''list index out of range''))"

definition pooled :: "(string \<Rightarrow> real option) \<Rightarrow> json \<Rightarrow> exn + real list" where
  "pooled rf item =
     (case item of
        JList values \<Rightarrow>
          if values = [] then Inl (ProviderUnavailableError ''embedding provider returned an empty or non-list vector'')
          else if list_all is_number values then mapE (py_float rf) values
          else
            let rows = List.map_filter (\<lambda>row. case row of JList r \<Rightarrow> if r \<noteq> [] then Some r else None | _ \<Rightarrow> None) values in
            if rows = [] then Inl (ProviderUnavailableError ''embedding provider returned an unrecognised vector shape'')
            else mapE (\<lambda>i. bindE (mapE (row_at rf i) rows) (\<lambda>xs. Inr (sum_list xs / real (length rows))))
              [0..<length (hd rows)]
      | _ \<Rightarrow> Inl (ProviderUnavailableError ''embedding provider returned an empty or non-list vector''))"

definition as_list :: "json \<Rightarrow> exn + json list" where
  "as_list body =
     (case body of
        JList items \<Rightarrow> Inr items
      | _ \<Rightarrow> Inl (ProviderUnavailableError (''embedding provider returned '' @ json_type body @ '', expected a list'')))"

fun hf_caught :: "exn \<Rightarrow> bool" where
  "hf_caught (HTTPError m) = True"
| "hf_caught (ValueError m) = True"
| "hf_caught _ = False"

definition hugging_face_embedder ::
  "(string \<Rightarrow> real option) \<Rightarrow> http_post \<Rightarrow> string \<Rightarrow> string \<Rightarrow> int \<Rightarrow> string \<Rightarrow> embedder" where
  "hugging_face_embedder rf post endpoint api_key dims prefix texts =
     (if texts = [] then Inr []
      else case post endpoint
          (JDict [(''inputs'', JList (map (\<lambda>text. JStr (prefix @ text)) texts)),
                  (''options'', JDict [(''wait_for_model'', JBool True)])]) (bearer api_key) of
        Inl x \<Rightarrow> Inl (if hf_caught x then ProviderUnavailableError (''embedding provider failed: '' @ exn_text x) else x)
      | Inr body \<Rightarrow> bindE (as_list body) (\<lambda>items. bindE (mapE (pooled rf) items) (\<lambda>vectors.
          if length vectors \<noteq> length texts then
            Inl (ProviderUnavailableError (''embedding provider returned '' @ nat_str (length vectors) @ '' vectors for ''
              @ nat_str (length texts) @ '' inputs''))
          else case find (\<lambda>v. int (length v) \<noteq> dims) vectors of
              Some v \<Rightarrow> Inl (ProviderUnavailableError (''embedding provider returned '' @ nat_str (length v)
                @ '' dimensions, but this deployment stores '' @ int_str dims))
            | None \<Rightarrow> Inr vectors)))"

section \<open>Explanations\<close>

definition no_explanations :: explainer where
  "no_explanations request = Inr []"

definition describe :: "explained_game \<Rightarrow> string" where
  "describe game =
     (let labels = py_join '', '' (eg_genres game @ eg_tags game) in
      if labels \<noteq> [] then eg_title game @ '' ('' @ labels @ '')'' else eg_title game)"

definition prompt_of :: "explanation_request \<Rightarrow> string" where
  "prompt_of request =
     (let played = py_join '', '' (map describe (er_liked request));
          played = (if played = [] then ''nothing yet'' else played);
          candidates = py_join [CHR 0x0A] (map (\<lambda>game. ''- id='' @ game_str (eg_game_id game) @ '' '' @ describe game)
            (er_candidates request))
      in ''The player already plays: '' @ played @ ''.'' @ [CHR 0x0A, CHR 0x0A] @ ''Candidates:'' @ [CHR 0x0A] @ candidates)"

definition SYSTEM_PROMPT :: string where
  "SYSTEM_PROMPT =
     ''You explain game recommendations for a digital game store. '' @
     ''For each candidate game, give one short reason it suits this player, based only on the games they '' @
     ''already play and the candidate'' @ [CHR 0x27] @ ''s own genres and tags. '' @
     ''Write plainly, at most twelve words, no marketing language, no invented facts about the game. '' @
     ''Answer with JSON only: {'' @ [CHR 0x22] @ ''reasons'' @ [CHR 0x22] @ '': [{'' @ [CHR 0x22] @ ''id'' @ [CHR 0x22] @
     '': '' @ [CHR 0x22] @ ''<game id>'' @ [CHR 0x22] @ '', '' @ [CHR 0x22] @ ''reason'' @ [CHR 0x22] @ '': '' @ [CHR 0x22] @
     ''<text>'' @ [CHR 0x22] @ ''}]}. '' @
     ''Omit any game you cannot justify from what you were given.''"

text \<open>Subscripts \<open>j[key]\<close> and \<open>j[0]\<close> of a decoded value.\<close>

fun at_key :: "json \<Rightarrow> string \<Rightarrow> exn + json" where
  "at_key (JDict d) k = (case map_of d k of None \<Rightarrow> Inl (KeyError (py_repr k)) | Some j \<Rightarrow> Inr j)"
| "at_key (JList xs) k = Inl (TypeError ''list indices must be integers or slices, not str'')"
| "at_key (JStr s) k = Inl (TypeError ''string indices must be integers, not str'')"
| "at_key j k = Inl (TypeError (py_repr (json_type j) @ '' object is not subscriptable''))"

fun at_zero :: "json \<Rightarrow> exn + json" where
  "at_zero (JDict d) = Inl (KeyError ''0'')"
| "at_zero (JList xs) = (case xs of [] \<Rightarrow> Inl (IndexError ''list index out of range'') | x # _ \<Rightarrow> Inr x)"
| "at_zero (JStr s) = (case s of [] \<Rightarrow> Inl (IndexError ''string index out of range'') | c # _ \<Rightarrow> Inr (JStr [c]))"
| "at_zero j = Inl (TypeError (py_repr (json_type j) @ '' object is not subscriptable''))"

text \<open>\<open>except (httpx.HTTPError, LookupError, TypeError, ValueError)\<close>\<close>

fun explain_caught :: "exn \<Rightarrow> bool" where
  "explain_caught (HTTPError m) = True"
| "explain_caught (IndexError m) = True"
| "explain_caught (KeyError m) = True"
| "explain_caught (TypeError m) = True"
| "explain_caught (ValueError m) = True"
| "explain_caught _ = False"

definition first_message :: "json \<Rightarrow> exn + json" where
  "first_message body =
     bindE (at_key body ''choices'') (\<lambda>j. bindE (at_zero j) (\<lambda>j. bindE (at_key j ''message'') (\<lambda>j. at_key j ''content'')))"

text \<open>The loop over the entries of the answer; a later entry for the same game wins.\<close>

definition read_entry ::
  "(real \<Rightarrow> string) \<Rightarrow> (string, game_id) dict \<Rightarrow> json \<Rightarrow> (game_id, string list) dict \<Rightarrow> (game_id, string list) dict" where
  "read_entry fs wanted entry acc =
     (case entry of
        JDict d \<Rightarrow>
          (let reason = py_strip (py_str fs (get_or d ''reason'' [])) in
           case map_of wanted (py_str fs (get_or d ''id'' [])) of
             Some g \<Rightarrow> if reason \<noteq> [] then AList.update g [reason] acc else acc
           | None \<Rightarrow> acc)
      | _ \<Rightarrow> acc)"

definition wanted_ids :: "explained_game list \<Rightarrow> (string, game_id) dict" where
  "wanted_ids candidates = fold (\<lambda>game d. AList.update (game_str (eg_game_id game)) (eg_game_id game) d) candidates []"

definition entries_of :: "json \<Rightarrow> json list" where
  "entries_of body =
     (case body of
        JDict d \<Rightarrow> (case json_get d ''reasons'' of JList entries \<Rightarrow> entries | _ \<Rightarrow> [])
      | _ \<Rightarrow> [])"

text \<open>\<open>json.loads\<close> of text raises \<open>ValueError\<close> only, which is caught; of anything else than text it raises
  \<open>TypeError\<close>, which is not.\<close>

definition parse_reasons ::
  "(real \<Rightarrow> string) \<Rightarrow> (string \<Rightarrow> json option) \<Rightarrow> json \<Rightarrow> explained_game list \<Rightarrow> exn + (game_id, string list) dict" where
  "parse_reasons fs loads content candidates =
     (case content of
        JStr s \<Rightarrow>
          (case loads s of
             None \<Rightarrow> Inr []
           | Some body \<Rightarrow> Inr (fold (read_entry fs (wanted_ids candidates)) (entries_of body) []))
      | _ \<Rightarrow> Inl (TypeError (''the JSON object must be str, bytes or bytearray, not '' @ json_type content)))"

text \<open>\<open>base_url.rstrip('/')\<close>\<close>

definition rstrip_slash :: "string \<Rightarrow> string" where
  "rstrip_slash url = rev (dropWhile (\<lambda>c. c = CHR ''/'') (rev url))"

definition chat_request :: "string \<Rightarrow> int \<Rightarrow> explanation_request \<Rightarrow> json" where
  "chat_request model max_tokens request =
     JDict [(''model'', JStr model), (''max_tokens'', JInt max_tokens),
       (''messages'', JList
          [JDict [(''role'', JStr ''system''), (''content'', JStr SYSTEM_PROMPT)],
           JDict [(''role'', JStr ''user''), (''content'', JStr (prompt_of request))]]),
       (''response_format'', JDict [(''type'', JStr ''json_object'')])]"

definition open_ai_explainer ::
  "(real \<Rightarrow> string) \<Rightarrow> (string \<Rightarrow> json option) \<Rightarrow> http_post \<Rightarrow> string \<Rightarrow> string \<Rightarrow> string \<Rightarrow> int \<Rightarrow> explainer" where
  "open_ai_explainer fs loads post base_url api_key model max_tokens request =
     (if er_candidates request = [] then Inr []
      else case bindE (post (rstrip_slash base_url @ ''/chat/completions'') (chat_request model max_tokens request)
          (bearer api_key)) first_message of
        Inl x \<Rightarrow> if explain_caught x then Inr [] else Inl x
      | Inr content \<Rightarrow> parse_reasons fs loads content (er_candidates request))"

section \<open>The fixed clock\<close>

text \<open>\<open>FixedClock.now\<close> on its state: the last instant and the step, in microseconds.\<close>

record fixed_clock =
  fc_instant :: datetime
  fc_step :: int

definition fixed_now :: "fixed_clock \<Rightarrow> datetime \<times> fixed_clock" where
  "fixed_now c = (let t = DateTime (wall (fc_instant c) + fc_step c) (offset (fc_instant c)) in (t, c\<lparr>fc_instant := t\<rparr>))"

section \<open>What an embedder answers\<close>

text \<open>The contract of \<open>EmbeddingPort\<close>: an answer has one vector of the deployment's width for each text.\<close>

locale embedding_port =
  fixes provider :: embedder and width :: nat
  assumes one_vector_each: "provider texts = Inr vs \<Longrightarrow> length vs = length texts"
    and of_the_width: "provider texts = Inr vs \<Longrightarrow> v \<in> set vs \<Longrightarrow> length v = width"

lemma with_vectors_sound:
  assumes "store_sound n w" "\<forall>g \<in> set gs. wf_game g" "\<forall>v \<in> set vs. length v = n"
  shows "store_sound n (with_vectors gs vs w)"
proof -
  have put: "store_sound n (put_game (g\<lparr>dense := dense_of v\<rparr>) w)" if "store_sound n w" "wf_game g" "length v = n" for g v w
    using that by (auto simp: store_sound_def wf_put_game width_put_game credited_def at_width_def dimensions_def dense_of_def)
  from assms show ?thesis
  proof (induction gs arbitrary: vs w)
    case Nil
    then show ?case by (simp add: with_vectors_def)
  next
    case (Cons g gs)
    then show ?case using put [of w g] by (cases vs) (auto simp: with_vectors_def)
  qed
qed

context embedding_port
begin

lemma stage_sound:
  assumes "store_ok st" "store_sound width (store_view st)"
  shows "\<exists>gs vs st'. embed_pending (memory_ops iu ig topic) provider batch cid st = (Inr (int (length gs)), st') \<and>
    store_ok st' \<and> store_sound width (store_view st') \<and> length vs = length gs \<and>
    (\<forall>g \<in> set gs. needs_embedding g \<and> w_games (store_view st) (game_id g) = Some g) \<and>
    store_view st' = with_vectors gs vs (store_view st)"
proof -
  from mem.embed_pending_spec [OF assms, of batch iu ig topic provider cid]
  obtain pending where bf: "best_first (w_games (store_view st)) needs_embedding popularity_key batch pending"
    and stage: "if pending = [] then embed_pending (memory_ops iu ig topic) provider batch cid st = (Inr 0, st)
     else case provider (map embedding_text pending) of
         Inl x \<Rightarrow> embed_pending (memory_ops iu ig topic) provider batch cid st = (Inr 0, st)
       | Inr vs \<Rightarrow>
           if length vs = length pending
           then \<exists>st'. embed_pending (memory_ops iu ig topic) provider batch cid st = (Inr (int (length pending)), st') \<and>
             store_ok st' \<and> store_view st' = with_vectors pending vs (store_view st)
           else \<exists>m. embed_pending (memory_ops iu ig topic) provider batch cid st = (Inl (ValueError m), st)"
    by blast
  have wf: "\<forall>g \<in> set pending. wf_game g"
    using best_first_set [OF bf] wf_worldD(1) [OF store_soundD(1) [OF assms(2)]] by (fastforce simp: ran_def)
  have waiting: "needs_embedding g \<and> w_games (store_view st) (game_id g) = Some g" if "g \<in> set pending" for g
    using best_first_set [OF bf] that wf_worldD(1) [OF store_soundD(1) [OF assms(2)]] by (fastforce simp: ran_def)
  show ?thesis
  proof (cases "pending = [] \<or> (\<exists>x. provider (map embedding_text pending) = Inl x)")
    case True
    with stage have "embed_pending (memory_ops iu ig topic) provider batch cid st = (Inr 0, st)"
      by (auto split: if_splits)
    with assms show ?thesis by (intro exI [of _ "[]"] exI [of _ st]) (simp add: with_vectors_def)
  next
    case False
    then obtain vs where vs: "provider (map embedding_text pending) = Inr vs"
      by (cases "provider (map embedding_text pending)") auto
    have "store_sound width (with_vectors pending vs (store_view st))"
      using with_vectors_sound [OF assms(2) wf] of_the_width [OF vs] by blast
    moreover obtain st' where "embed_pending (memory_ops iu ig topic) provider batch cid st = (Inr (int (length pending)), st')"
      "store_ok st'" "store_view st' = with_vectors pending vs (store_view st)"
      using stage False vs one_vector_each [OF vs] by auto
    ultimately show ?thesis
      using one_vector_each [OF vs] waiting by (intro exI [of _ pending] exI [of _ vs] exI [of _ st']) simp
  qed
qed

end

lemma mapE_lengths:
  assumes "mapE f xs = Inr ys" "\<And>x y. f x = Inr y \<Longrightarrow> P y"
  shows "length ys = length xs" "\<forall>y \<in> set ys. P y"
  using assms by (induction xs arbitrary: ys) (auto simp: res_simps)

lemma length_hash_tokens: "hash_tokens b dims ts bs = Inr cs \<Longrightarrow> length cs = length bs"
  by (induction ts arbitrary: bs) (auto simp: res_simps hash_token_def Let_def split: if_splits)

lemma length_unit_length [simp]: "length (unit_length bs) = length bs"
  by (simp add: unit_length_def Let_def)

lemma hash_one_length: "hash_one b (int n) text = Inr v \<Longrightarrow> length v = n"
  by (auto simp: hash_one_def res_simps dest: length_hash_tokens)

interpretation hashing: embedding_port "hashing_embedder blake2b (int n)" n
  by unfold_locales (auto simp: hashing_embedder_def dest: mapE_lengths(1) mapE_lengths(2) [where P = "\<lambda>v. length v = n"] hash_one_length)

lemma hugging_face_answer:
  assumes "hugging_face_embedder rf post e k dims p texts = Inr vs"
  shows "length vs = length texts" "v \<in> set vs \<Longrightarrow> int (length v) = dims"
  using assms
  by (auto simp: hugging_face_embedder_def res_simps find_None_iff split: if_splits sum.splits option.splits)

interpretation hugging_face: embedding_port "hugging_face_embedder rf post e k (int n) p" n
  by unfold_locales (auto dest: hugging_face_answer)

section \<open>The vector of a text\<close>

definition bucket_sum :: "(string \<Rightarrow> 64 word) \<Rightarrow> nat \<Rightarrow> string list \<Rightarrow> nat \<Rightarrow> real" where
  "bucket_sum b n ts i = (\<Sum>t \<leftarrow> ts. if bucket_of (b t) (int n) = int i then sign_of (b t) else 0)"

lemma hash_tokens_sum:
  assumes "0 < n"
  shows "length bs = n \<Longrightarrow> hash_tokens b (int n) ts bs = Inr (map (\<lambda>i. bs ! i + bucket_sum b n ts i) [0..<n])"
proof (induction ts arbitrary: bs)
  case Nil
  then show ?case using map_nth [of bs] by (simp add: bucket_sum_def)
next
  case (Cons t ts)
  define k where "k = nat (bucket_of (b t) (int n))"
  have "0 \<le> bucket_of (b t) (int n)" "bucket_of (b t) (int n) < int n" using assms by (simp_all add: bucket_of_def)
  then have k: "k < n" "bucket_of (b t) (int n) = int k" by (simp_all add: k_def nat_less_iff)
  have "hash_tokens b (int n) (t # ts) bs = hash_tokens b (int n) ts (bs[k := bs ! k + sign_of (b t)])"
    using assms by (simp add: hash_token_def Let_def k(2))
  also have "\<dots> = Inr (map (\<lambda>i. bs[k := bs ! k + sign_of (b t)] ! i + bucket_sum b n ts i) [0..<n])"
    by (rule Cons.IH) (simp add: Cons.prems)
  also have "\<dots> = Inr (map (\<lambda>i. bs ! i + bucket_sum b n (t # ts) i) [0..<n])"
    using Cons.prems k by (simp add: bucket_sum_def nth_list_update)
  finally show ?case .
qed

lemma bucket_sum_perm: "mset ts = mset us \<Longrightarrow> bucket_sum b n ts = bucket_sum b n us"
  unfolding bucket_sum_def by (rule ext) (simp only: sum_mset_sum_list [symmetric] mset_map)

lemma hash_one_closed:
  assumes "0 < n"
  shows "hash_one b (int n) text = Inr (unit_length (map (bucket_sum b n (hashed_words text)) [0..<n]))"
proof -
  have eq: "map (\<lambda>i. replicate n 0 ! i + bucket_sum b n ts i) [0..<n] = map (bucket_sum b n ts) [0..<n]" for ts
    by (rule map_cong) auto
  show ?thesis by (simp add: hash_one_def hash_tokens_sum [OF assms] eq)
qed

lemma unit_length_unit: "sum_list (map (\<lambda>v. v * v) (unit_length bs)) \<in> {0, 1}"
proof -
  let ?m = "sum_list (map (\<lambda>v. v * v) bs)"
  have m: "0 \<le> ?m" by (intro sum_list_nonneg) auto
  show ?thesis
  proof (cases "?m = 0")
    case True
    then show ?thesis by (simp add: unit_length_def)
  next
    case False
    have "sum_list (map (\<lambda>v. v / sqrt ?m * (v / sqrt ?m)) bs) = sum_list (map (\<lambda>v. v * v * inverse ?m) bs)"
      using m by (intro arg_cong [of _ _ sum_list] map_cong refl) (simp add: field_simps)
    also have "\<dots> = ?m * inverse ?m" by (rule sum_list_mult_const)
    finally show ?thesis using False by (simp add: unit_length_def Let_def comp_def)
  qed
qed

section \<open>The reasons of an answer\<close>

text \<open>The reasons an answer gives for a game: not blank, under the very id of the game.\<close>

definition reason_for :: "(real \<Rightarrow> string) \<Rightarrow> game_id \<Rightarrow> json \<Rightarrow> string option" where
  "reason_for fs g entry =
     (case entry of
        JDict d \<Rightarrow>
          (let reason = py_strip (py_str fs (get_or d ''reason'' [])) in
           if py_str fs (get_or d ''id'' []) = game_str g \<and> reason \<noteq> [] then Some reason else None)
      | _ \<Rightarrow> None)"

definition reasons_for :: "(real \<Rightarrow> string) \<Rightarrow> game_id \<Rightarrow> json list \<Rightarrow> string list" where
  "reasons_for fs g entries = List.map_filter (reason_for fs g) entries"

lemma game_str_inj [simp]: "game_str g = game_str h \<longleftrightarrow> g = h"
  by (metis game_id_roundtrip sum.inject(2))

lemma map_of_wanted_ids:
  "map_of (wanted_ids cs) s = Some g \<longleftrightarrow> s = game_str g \<and> g \<in> eg_game_id ` set cs"
proof -
  have "map_of (fold (\<lambda>game d. AList.update (game_str (eg_game_id game)) (eg_game_id game) d) cs d) s = Some g \<longleftrightarrow>
      (s = game_str g \<and> g \<in> eg_game_id ` set cs) \<or> (\<not> (\<exists>c \<in> set cs. s = game_str (eg_game_id c)) \<and> map_of d s = Some g)" for d
    by (induction cs arbitrary: d) (auto simp: dict_simps)
  from this [of "[]"] show ?thesis by (simp add: wanted_ids_def)
qed

lemma read_entry_lookup:
  "map_of (read_entry fs (wanted_ids cs) entry acc) g =
     (if g \<in> eg_game_id ` set cs
      then (case reason_for fs g entry of None \<Rightarrow> map_of acc g | Some r \<Rightarrow> Some [r]) else map_of acc g)"
proof (cases entry)
  case (JDict d)
  define s r where "s = py_str fs (get_or d ''id'' [])" and "r = py_strip (py_str fs (get_or d ''reason'' []))"
  have entry: "read_entry fs (wanted_ids cs) entry acc =
      (case map_of (wanted_ids cs) s of Some h \<Rightarrow> if r \<noteq> [] then AList.update h [r] acc else acc | None \<Rightarrow> acc)"
    and reason: "reason_for fs g entry = (if s = game_str g \<and> r \<noteq> [] then Some r else None)"
    unfolding read_entry_def reason_for_def JDict s_def r_def Let_def by simp_all
  show ?thesis
  proof (cases "map_of (wanted_ids cs) s")
    case None
    then have "g \<in> eg_game_id ` set cs \<Longrightarrow> s \<noteq> game_str g" using map_of_wanted_ids [of cs s g] by auto
    with None show ?thesis by (simp add: entry reason)
  next
    case (Some h)
    then have "s = game_str h" "h \<in> eg_game_id ` set cs" using map_of_wanted_ids [of cs s h] by auto
    with Some show ?thesis by (auto simp: entry reason dict_simps)
  qed
qed (simp_all add: read_entry_def reason_for_def)

lemma read_entries_lookup:
  "map_of (fold (read_entry fs (wanted_ids cs)) entries acc) g =
     (if g \<in> eg_game_id ` set cs \<and> reasons_for fs g entries \<noteq> []
      then Some [last (reasons_for fs g entries)] else map_of acc g)"
  by (induction entries arbitrary: acc)
    (auto simp: reasons_for_def List.map_filter_simps read_entry_lookup split: option.splits)

definition answer_of :: "http_post \<Rightarrow> string \<Rightarrow> string \<Rightarrow> string \<Rightarrow> int \<Rightarrow> explanation_request \<Rightarrow> exn + json" where
  "answer_of post base_url api_key model max_tokens request =
     bindE (post (rstrip_slash base_url @ ''/chat/completions'') (chat_request model max_tokens request)
       (bearer api_key)) first_message"

lemma explainer_on_failure:
  "answer_of post base_url api_key model max_tokens request = Inl x \<Longrightarrow> explain_caught x \<Longrightarrow>
     open_ai_explainer fs loads post base_url api_key model max_tokens request = Inr []"
  by (simp add: open_ai_explainer_def answer_of_def)

lemma explainer_on_text:
  assumes "answer_of post base_url api_key model max_tokens request = Inr (JStr s)" "er_candidates request \<noteq> []"
  shows "open_ai_explainer fs loads post base_url api_key model max_tokens request =
    (case loads s of None \<Rightarrow> Inr []
     | Some body \<Rightarrow> Inr (fold (read_entry fs (wanted_ids (er_candidates request))) (entries_of body) []))"
  using assms by (simp add: open_ai_explainer_def answer_of_def parse_reasons_def split: option.split)

lemma explainer_on_other:
  assumes "answer_of post base_url api_key model max_tokens request = Inr content" "\<nexists>s. content = JStr s"
    "er_candidates request \<noteq> []"
  shows "open_ai_explainer fs loads post base_url api_key model max_tokens request =
    Inl (TypeError (''the JSON object must be str, bytes or bytearray, not '' @ json_type content))"
  using assms by (cases content) (simp_all add: open_ai_explainer_def answer_of_def parse_reasons_def)

text \<open>A provider that fails in a way the code expects, or answers with text, never stops a generation.\<close>

lemma open_ai_safe:
  assumes "\<And>request. case answer_of post base_url api_key model max_tokens request of
      Inl x \<Rightarrow> explain_caught x | Inr content \<Rightarrow> \<exists>s. content = JStr s"
  shows "explains_safely (Some (open_ai_explainer fs loads post base_url api_key model max_tokens))"
  unfolding explains_safely_def option.case
proof
  fix request
  let ?e = "open_ai_explainer fs loads post base_url api_key model max_tokens request"
  show "\<exists>d. ?e = Inr d"
  proof (cases "er_candidates request = []")
    case True
    then show ?thesis by (simp add: open_ai_explainer_def)
  next
    case False
    show ?thesis
    proof (cases "answer_of post base_url api_key model max_tokens request")
      case (Inl x)
      then show ?thesis using assms [of request] explainer_on_failure by auto
    next
      case (Inr content)
      then obtain s where "content = JStr s" using assms [of request] by auto
      then show ?thesis using explainer_on_text [of post base_url api_key model max_tokens request s fs loads] Inr False
        by (auto split: option.split)
    qed
  qed
qed

section \<open>Generating with an explanation model\<close>

lemma build_recommendations_length:
  "build_recommendations u tm k is ss = (Inr rs, ss') \<Longrightarrow> length rs = length is"
  by (induction u tm k "is" ss arbitrary: rs ss' rule: build_recommendations.induct)
    (auto simp: Let_def split: prod.splits sum.splits)

text \<open>A user who gets a list without explanations, and an explainer that raises on every request.\<close>

lemma generate_body_raises:
  assumes "generate_body ops (gen\<lparr>gen_explain := None\<rparr>) u limit s ss = (Inr k, s', ss')" "k \<noteq> 0"
    and "\<And>request. er_candidates request \<noteq> [] \<Longrightarrow> f request = Inl x"
  obtains s1 where "generate_body ops (gen\<lparr>gen_explain := Some f\<rparr>) u limit s ss = (Inl x, s1, ss)"
    "s1 = s \<or> (\<exists>q. s1 = prefs_upsert ops s q)"
proof -
  let ?p = "preference_or_blank ops s u"
  let ?played = "games_by_ids ops s (remembered_games ?p)"
  let ?tasted = "if gen_dense_space gen
    then bindE (rebuilt_in ?p (space_of ?played)) (\<lambda>q. Inr (q, prefs_upsert ops s q)) else Inr (?p, s)"
  have warm: "\<not> is_cold ?p" using assms(1,2) by (auto simp: generate_body_def Let_def)
  show thesis
  proof (cases ?tasted)
    case (Inl y)
    with assms(1) warm show thesis by (simp add: generate_body_def Let_def)
  next
    case (Inr qs)
    obtain q s1 where qs: "qs = (q, s1)" by (cases qs)
    let ?scored = "rank (gen_scorer gen) q (games_recommendable ops s1 (gen_catalogue_limit gen))
      (owners_co_purchases ops s1 u (library q) MAX_COLLABORATIVE_CANDIDATES) limit"
    have "?scored \<noteq> []"
    proof
      assume "?scored = []"
      with assms(1) warm Inr qs have "k = 0"
        by (auto simp: generate_body_def Let_def explained_def stamps_now_def)
      with assms(2) show False ..
    qed
    then have "explained (Some f) ?scored ?played = Inl x"
      by (simp add: explained_def assms(3) take_Suc_conv_app_nth MAX_EXPLAINED_CANDIDATES_def)
    with warm Inr qs have "generate_body ops (gen\<lparr>gen_explain := Some f\<rparr>) u limit s ss = (Inl x, s1, ss)"
      by (simp add: generate_body_def Let_def)
    moreover have "s1 = s \<or> (\<exists>q. s1 = prefs_upsert ops s q)" using Inr qs by (auto simp: res_simps split: if_splits)
    ultimately show thesis by (rule that)
  qed
qed

context unit_of_work
begin

lemma generate_raises:
  assumes "db_ok db" "generate ops (gen\<lparr>gen_explain := None\<rparr>) cid u limit (db, ss) = (Inr k, db', ss')" "k \<noteq> 0"
    and "\<And>request. er_candidates request \<noteq> [] \<Longrightarrow> f request = Inl x"
  shows "generate ops (gen\<lparr>gen_explain := Some f\<rparr>) cid u limit (db, ss) = (Inl x, db, ss)"
proof -
  let ?s = "uow_open ops cid db"
  obtain s' where body: "generate_body ops (gen\<lparr>gen_explain := None\<rparr>) u limit ?s ss = (Inr k, s', ss')"
    using assms(2) by (auto simp: generate_def split: prod.splits sum.splits)
  obtain s1 where s1: "generate_body ops (gen\<lparr>gen_explain := Some f\<rparr>) u limit ?s ss = (Inl x, s1, ss)"
    "s1 = ?s \<or> (\<exists>q. s1 = prefs_upsert ops ?s q)"
    by (rule generate_body_raises [OF body assms(3,4)])
  have "txn db s1" using s1(2) open_txn [OF assms(1)] upsert_pref_txn by auto
  then show ?thesis using s1(1) by (simp add: generate_def exit_rollback)
qed

end

section \<open>The models in the service\<close>

text \<open>C36: the width of the dense space. With either embedder, whatever the third party answers, the embedding
  stage never raises, and keeps a sound store sound: every vector in it has the configured width, or is
  empty. It touches only games that were waiting for a vector and reports how many got one.\<close>

theorem embedding_keeps_one_width:
  assumes "store_ok st" "store_sound n (store_view st)"
    and "provider = hashing_embedder blake2b (int n) \<or> provider = hugging_face_embedder rf post endpoint key (int n) prefix"
  shows "\<exists>gs vs st'. embed_pending (memory_ops iu ig topic) provider batch cid st = (Inr (int (length gs)), st') \<and>
    store_ok st' \<and> store_sound n (store_view st') \<and> length vs = length gs \<and>
    (\<forall>g \<in> set gs. needs_embedding g \<and> w_games (store_view st) (game_id g) = Some g) \<and>
    store_view st' = with_vectors gs vs (store_view st)"
  using assms(3) hashing.stage_sound [OF assms(1,2)] hugging_face.stage_sound [OF assms(1,2)] by blast

lemma embedding_keeps_one_width_witness:
  "\<exists>m st'. embed_pending (memory_ops ascending ascending ''reco'')
     (hugging_face_embedder (\<lambda>s. None) (\<lambda>url body headers. Inr (JList [JList [JInt 1]])) ''http://model'' [] 0 []) 32 None
     sample_store = (Inr m, st') \<and> store_sound 0 (store_view st')"
  using embedding_keeps_one_width [OF sample_stores_ok(1) sample_store_sound,
      where provider = "hugging_face_embedder (\<lambda>s. None) (\<lambda>url body headers. Inr (JList [JList [JInt 1]])) ''http://model'' [] 0 []"
        and rf = "\<lambda>s. None" and post = "\<lambda>url body headers. Inr (JList [JList [JInt 1]])" and endpoint = "''http://model''"
        and key = "[]" and prefix = "[]" and iu = ascending and ig = ascending and topic = "''reco''" and batch = 32 and cid = None]
  by auto

text \<open>The hashing embedder. At a positive width it never fails; coordinate \<open>i\<close> of a vector is the sum of
  the signs of the words that fall into bucket \<open>i\<close>, divided by the magnitude of all of them; the vector
  has length one, or is zero; and the order of the words does not matter.\<close>

theorem hashing_embedding:
  assumes "0 < n"
  shows "\<exists>v. hash_one blake2b (int n) text = Inr v \<and> length v = n \<and>
    (let s = map (bucket_sum blake2b n (hashed_words text)) [0..<n]; m = sqrt (\<Sum>x \<leftarrow> s. x * x)
     in v = (if m = 0 then s else map (\<lambda>x. x / m) s)) \<and>
    (\<Sum>x \<leftarrow> v. x * x) \<in> {0, 1} \<and>
    (\<forall>text'. mset (hashed_words text') = mset (hashed_words text) \<longrightarrow> hash_one blake2b (int n) text' = Inr v)"
proof (intro exI conjI allI impI)
  let ?v = "unit_length (map (bucket_sum blake2b n (hashed_words text)) [0..<n])"
  show "hash_one blake2b (int n) text = Inr ?v" by (rule hash_one_closed [OF assms])
  show "length ?v = n" by simp
  show "let s = map (bucket_sum blake2b n (hashed_words text)) [0..<n]; m = sqrt (\<Sum>x \<leftarrow> s. x * x)
     in ?v = (if m = 0 then s else map (\<lambda>x. x / m) s)"
    unfolding unit_length_def Let_def ..
  show "(\<Sum>x \<leftarrow> ?v. x * x) \<in> {0, 1}" by (rule unit_length_unit)
  fix text' assume "mset (hashed_words text') = mset (hashed_words text)"
  then show "hash_one blake2b (int n) text' = Inr ?v"
    using hash_one_closed [OF assms, of blake2b text'] bucket_sum_perm [of "hashed_words text'" "hashed_words text" blake2b n]
    by (simp only:)
qed

lemma hashing_embedding_witness:
  "hash_one (\<lambda>t. of_nat (length t)) 2 ''rogue like'' = hash_one (\<lambda>t. of_nat (length t)) 2 ''Like, ROGUE!''"
proof -
  have "mset (hashed_words ''Like, ROGUE!'') = mset (hashed_words ''rogue like'')" by code_simp
  with hashing_embedding [of 2 "\<lambda>t. of_nat (length t)" "''rogue like''"] show ?thesis by auto
qed

text \<open>C37: reasons stay with their game. When an explained list is shown, every entry is the ranked one but for
  its reasons, and these are either the ranker's own or the last reason the model's answer gives under
  the id of that very game, stripped and not blank. A model that invents or transposes ids changes
  nothing it was not asked about.\<close>

theorem reasons_stay_with_their_game:
  assumes "explained (Some (open_ai_explainer fs loads post base_url key model max_tokens)) scored played = Inr out"
    and "i < length scored"
  shows "length out = length scored \<and> out ! i = (scored ! i)\<lparr>sg_reasons := sg_reasons (out ! i)\<rparr> \<and>
    (sg_reasons (out ! i) = sg_reasons (scored ! i) \<or>
     (\<exists>request s body. answer_of post base_url key model max_tokens request = Inr (JStr s) \<and> loads s = Some body \<and>
        er_candidates request = map (\<lambda>i. as_explained (sg_game i)) (take MAX_EXPLAINED_CANDIDATES scored) \<and>
        game_id (sg_game (scored ! i)) \<in> eg_game_id ` set (er_candidates request) \<and>
        reasons_for fs (game_id (sg_game (scored ! i))) (entries_of body) \<noteq> [] \<and>
        sg_reasons (out ! i) = [last (reasons_for fs (game_id (sg_game (scored ! i))) (entries_of body))]))"
proof -
  define request where "request = \<lparr>er_liked = map as_explained (take MAX_EXPLAINED_CANDIDATES played),
    er_candidates = map (\<lambda>i. as_explained (sg_game i)) (take MAX_EXPLAINED_CANDIDATES scored)\<rparr>"
  let ?explainer = "open_ai_explainer fs loads post base_url key model max_tokens"
  obtain d where d: "?explainer request = Inr d"
    and out: "out = (if d = [] then scored else map (\<lambda>i. i\<lparr>sg_reasons := dget d (game_id (sg_game i)) (sg_reasons i)\<rparr>) scored)"
    using assms by (auto simp: explained_def res_simps simp flip: request_def split: if_splits)
  have reasons: "sg_reasons (out ! i) = dget d (game_id (sg_game (scored ! i))) (sg_reasons (scored ! i))"
    using assms(2) by (auto simp: out dget_def)
  have shape: "length out = length scored \<and> out ! i = (scored ! i)\<lparr>sg_reasons := sg_reasons (out ! i)\<rparr>"
    using assms(2) by (simp add: out)
  show ?thesis
  proof (cases "map_of d (game_id (sg_game (scored ! i)))")
    case None
    with shape reasons show ?thesis by (simp add: dget_def)
  next
    case (Some rs)
    then have "d \<noteq> []" by auto
    with d have cands: "er_candidates request \<noteq> []"
      by (cases "er_candidates request = []") (simp_all add: open_ai_explainer_def)
    have "\<exists>s. answer_of post base_url key model max_tokens request = Inr (JStr s)"
    proof (cases "answer_of post base_url key model max_tokens request")
      case (Inl x)
      then show ?thesis using d \<open>d \<noteq> []\<close> cands
        by (auto simp: open_ai_explainer_def answer_of_def split: if_splits)
    next
      case (Inr content)
      show ?thesis
      proof (rule ccontr)
        assume "\<not> ?thesis"
        then have "\<nexists>s. content = JStr s" using Inr by simp
        from explainer_on_other [OF Inr this cands, of fs loads] d show False by simp
      qed
    qed
    then obtain s where s: "answer_of post base_url key model max_tokens request = Inr (JStr s)" ..
    obtain body where body: "loads s = Some body"
      and fold: "d = fold (read_entry fs (wanted_ids (er_candidates request))) (entries_of body) []"
    proof (cases "loads s")
      case None
      then show thesis using explainer_on_text [OF s cands, of fs loads] d \<open>d \<noteq> []\<close> by simp
    next
      case (Some body)
      then show thesis using explainer_on_text [OF s cands, of fs loads] d that [of body] by simp
    qed
    have "game_id (sg_game (scored ! i)) \<in> eg_game_id ` set (er_candidates request)"
      "reasons_for fs (game_id (sg_game (scored ! i))) (entries_of body) \<noteq> []"
      "rs = [last (reasons_for fs (game_id (sg_game (scored ! i))) (entries_of body))]"
      using Some unfolding fold read_entries_lookup by (simp_all split: if_splits)
    moreover have "sg_reasons (out ! i) = rs" using reasons Some by (simp add: dget_def)
    moreover have "er_candidates request = map (\<lambda>i. as_explained (sg_game i)) (take MAX_EXPLAINED_CANDIDATES scored)"
      by (simp add: request_def)
    ultimately show ?thesis using shape s body by blast
  qed
qed

definition sample_ranked :: scored_game where
  "sample_ranked = \<lparr>sg_game = sample_game, sg_content = 1, sg_collaborative = 0, sg_reasons = [''genre:rpg'']\<rparr>"

text \<open>A chat endpoint that answers every request with the content \<open>j\<close>.\<close>

definition chat_answer :: "json \<Rightarrow> http_post" where
  "chat_answer j = (\<lambda>url body headers.
     Inr (JDict [(''choices'', JList [JDict [(''message'', JDict [(''content'', j)])]])]))"

lemma first_message_chat [simp]: "bindE (chat_answer j url body headers) first_message = Inr j"
  by (simp add: chat_answer_def first_message_def)

definition sample_answer :: json where
  "sample_answer = JDict [(''reasons'', JList [JDict [(''id'', JStr (game_str (GameId 1))), (''reason'', JStr '' fits '')]])]"

lemma sample_explained:
  "explained (Some (open_ai_explainer (\<lambda>x. []) (\<lambda>s. Some sample_answer) (chat_answer (JStr ''{}'')) [] [] [] 800))
     [sample_ranked] [] = Inr [sample_ranked\<lparr>sg_reasons := [''fits'']\<rparr>]"
proof -
  have strip: "py_strip '' fits '' = ''fits''" by code_simp
  show ?thesis
    by (simp add: explained_def open_ai_explainer_def parse_reasons_def sample_answer_def entries_of_def json_get_def
        read_entry_def wanted_ids_def get_or_def dget_def strip as_explained_def sample_ranked_def MAX_EXPLAINED_CANDIDATES_def)
qed

lemma reasons_stay_with_their_game_witness:
  "[sample_ranked\<lparr>sg_reasons := [''fits'']\<rparr>] ! 0 =
     ([sample_ranked] ! 0)\<lparr>sg_reasons := sg_reasons ([sample_ranked\<lparr>sg_reasons := [''fits'']\<rparr>] ! 0)\<rparr>"
  using reasons_stay_with_their_game [OF sample_explained, of 0] by simp

text \<open>C38: an answer without text. If the model's answer has no text where its message should be (a null
  content, as an endpoint gives for a refusal or a tool call), every user who would have got a list without
  explanations gets an exception instead: the generation raises \<open>TypeError\<close> and the store is as it was.\<close>

theorem null_answer_stops_generation:
  assumes "store_ok st"
    and "fst (generate (memory_ops iu ig topic) (gen\<lparr>gen_explain := None\<rparr>) cid u limit (st, ss)) = Inr k" "k \<noteq> 0"
    and "\<forall>request. answer_of post base_url key model max_tokens request = Inr JNull"
  shows "generate (memory_ops iu ig topic)
      (gen\<lparr>gen_explain := Some (open_ai_explainer fs loads post base_url key model max_tokens)\<rparr>) cid u limit (st, ss) =
    (Inl (TypeError ''the JSON object must be str, bytes or bytearray, not NoneType''), st, ss)"
proof -
  obtain st' ss' where g: "generate (memory_ops iu ig topic) (gen\<lparr>gen_explain := None\<rparr>) cid u limit (st, ss) = (Inr k, st', ss')"
    using assms(2) by (metis prod.collapse)
  have "open_ai_explainer fs loads post base_url key model max_tokens request =
      Inl (TypeError ''the JSON object must be str, bytes or bytearray, not NoneType'')" if "er_candidates request \<noteq> []" for request
    using explainer_on_other [where request = request and content = JNull and fs = fs and loads = loads] assms(4) that by simp
  then show ?thesis by (rule mem.generate_raises [OF assms(1) g assms(3)])
qed

text \<open>A store with one game and one user who likes its genre.\<close>

definition sample_fan :: user_preference where
  "sample_fan = (blank (UserId 7))\<lparr>taste := emb_of [''genre:rpg''], signal_count := 1\<rparr>"

definition sample_warm :: memory_store where
  "sample_warm = sample_store\<lparr>ms_preferences := [(UserId 7, sample_fan)]\<rparr>"

lemma emb_of_one: "emb_of [x] = Embedding [(x, 1)]"
  by (simp add: emb_of_def dfromkeys_def mk_embedding_def)

lemma sample_fan_simps [simp]:
  "\<not> is_cold sample_fan" "library sample_fan = []" "remembered_games sample_fan = []"
  "\<not> owns sample_fan g" "taste sample_fan = Embedding [(''genre:rpg'', 1)]"
  by (simp_all add: sample_fan_def is_cold_def emb_is_empty_def emb_of_one blank_def library_def remembered_games_def
      owns_def)

lemma sample_game_simps [simp]:
  "is_published sample_game" "embedding sample_game = Embedding [(''genre:rpg'', 1)]" "is_recommendable sample_game"
  by (simp_all add: sample_game_def blank_game_def emb_of_one is_recommendable_def)

lemma sample_ranking: "rank content_based_scorer sample_fan [sample_game] [] 10 = [sample_ranked]"
  by (simp add: rank_def py_take_def score_candidate_def content_based_scorer_def emb_cosine_def emb_magnitude_def
      shared_names_def coord_def dget_def blend_def CONTENT_WEIGHT_def COLLABORATIVE_WEIGHT_def collaborative_scores_def
      List.map_filter_simps emb_overlap_def sample_ranked_def Let_def)

lemma sample_recommendation:
  "build_recommendations (UserId 7) tm 1 [sample_ranked] ss =
     (Inr (recs_from (UserId 7) tm (uuids ss) (drawn ss) 1 [sample_ranked]), ss\<lparr>drawn := drawn ss + 1\<rparr>)"
  by (simp add: Let_def stamps_new_uuid_def mk_recommendation_def rec_at_def sample_ranked_def blend_def
      CONTENT_WEIGHT_def COLLABORATIVE_WEIGHT_def)

lemma sample_warm_generates:
  "fst (generate (memory_ops ascending ascending ''reco'') (sample_generator\<lparr>gen_explain := None\<rparr>) None (UserId 7) 10
     (sample_warm, sample_stamps)) = Inr 1"
proof -
  let ?ops = "memory_ops ascending ascending ''reco''"
  let ?s = "mem_open ''reco'' None sample_warm"
  have ops: "uow_open ?ops = mem_open ''reco''" "games_by_ids ?ops = mem_by_ids" "prefs_get ?ops = mem_get_pref"
    "games_recommendable ?ops = mem_recommendable" "owners_co_purchases ?ops = mem_co_purchases ascending ascending"
    by (simp_all add: memory_ops_def)
  have p: "preference_or_blank ?ops ?s (UserId 7) = sample_fan"
    by (simp add: preference_or_blank_def ops mem_get_pref_def mem_open_def sample_warm_def)
  have games: "mem_recommendable ?s 500 = [sample_game]"
    by (simp add: mem_recommendable_def merged_games_def mem_open_def sample_warm_def sample_store_def py_take_def)
  have co: "mem_co_purchases ascending ascending ?s (UserId 7) [] n = []" for n by (simp add: mem_co_purchases_def)
  show ?thesis
    by (simp add: generate_def generate_body_def ops p games co sample_generator_def sample_ranking explained_def Let_def
        stamps_now_def sample_recommendation del: build_recommendations.simps split: prod.split)
qed

lemma null_answer_stops_generation_witness:
  "fst (generate (memory_ops ascending ascending ''reco'')
     (sample_generator\<lparr>gen_explain := Some (open_ai_explainer (\<lambda>x. []) (\<lambda>s. None) (chat_answer JNull) [] [] [] 800)\<rparr>) None
     (UserId 7) 10 (sample_warm, sample_stamps)) =
   Inl (TypeError ''the JSON object must be str, bytes or bytearray, not NoneType'')"
proof -
  have ok: "store_ok sample_warm"
    using sample_stores_ok(1)
    by (simp add: sample_warm_def sample_store_def store_ok_def empty_store_def keyed_def owners_ok_def sample_fan_def blank_def)
  have nulls: "\<forall>request. answer_of (chat_answer JNull) [] [] [] 800 request = Inr JNull" by (simp add: answer_of_def)
  have one: "(1 :: int) \<noteq> 0" by simp
  show ?thesis
    by (simp add: null_answer_stops_generation [OF ok sample_warm_generates one nulls])
qed

end
