(* ===== verification/Tasks.thy ===== *)
theory Tasks
  imports Adapters Outbox
begin

text \<open>
  The background tasks: the generation scheduler (\<open>infrastructure/scheduler.py\<close>), the loop of the outbox
  dispatcher (\<open>infrastructure/messaging/outbox/dispatcher.py\<close>) and the polled gauge
  (\<open>infrastructure/observability/gauge.py\<close>). An \<open>asyncio\<close> task is here what its owner can see of it; a loop is
  run over the list of its wake-ups, and a cancelled loop is one whose list has ended.
\<close>

section \<open>A task and its owner\<close>

datatype task = NoTask | Alive | Finished

record background =
  bg_task :: task
  bg_stopping :: bool

definition new_background :: background where
  "new_background = \<lparr>bg_task = NoTask, bg_stopping = False\<rparr>"

definition is_running :: "background \<Rightarrow> bool" where
  "is_running b \<longleftrightarrow> bg_task b = Alive"

text \<open>\<open>start\<close> of the dispatcher; \<open>stop\<close> is the same for all three: the task is cancelled and awaited.\<close>

definition start_task :: "background \<Rightarrow> background" where
  "start_task b = (if is_running b then b else b\<lparr>bg_stopping := False, bg_task := Alive\<rparr>)"

definition stop_task :: "background \<Rightarrow> background" where
  "stop_task b = b\<lparr>bg_stopping := True, bg_task := NoTask\<rparr>"

definition scheduler_start :: "bool \<Rightarrow> background \<Rightarrow> background" where
  "scheduler_start enabled b = (if \<not> enabled then b else start_task b)"

section \<open>The loops\<close>

text \<open>\<open>GenerationScheduler._run\<close>: each wake-up tells whether \<open>stop\<close> was called during the sleep.\<close>

fun scheduler_run ::
  "('db \<times> stamps \<Rightarrow> (exn + refresh_report) \<times> 'db \<times> stamps) \<Rightarrow> bool list \<Rightarrow> 'db \<times> stamps \<Rightarrow> 'db \<times> stamps" where
  "scheduler_run refresh [] dbs = dbs"
| "scheduler_run refresh (stopping # ws) dbs =
     (if stopping then dbs
      else case refresh dbs of
          (Inl x, dbs) \<Rightarrow> scheduler_run refresh ws dbs
        | (Inr report, dbs) \<Rightarrow> scheduler_run refresh ws dbs)"

text \<open>\<open>OutboxDispatcher._run\<close> over the in-memory store, whose operations do not raise: a drain at each time.\<close>

fun dispatcher_run ::
  "'st outbox_store_ops \<Rightarrow> 'e transport \<Rightarrow> int \<Rightarrow> datetime list \<Rightarrow> 'st \<times> 'e \<Rightarrow> 'st \<times> 'e" where
  "dispatcher_run so tr batch [] ste = ste"
| "dispatcher_run so tr batch (now # ts) ste = dispatcher_run so tr batch ts (snd (drain_once so tr batch now ste))"

section \<open>The gauge\<close>

record gauge =
  ga_value :: int
  ga_task :: background

definition new_gauge :: "int \<Rightarrow> gauge" where
  "new_gauge initial = \<lparr>ga_value = initial, ga_task = new_background\<rparr>"

definition gauge_refresh :: "exn + int \<Rightarrow> gauge \<Rightarrow> gauge" where
  "gauge_refresh answer g = (case answer of Inl x \<Rightarrow> g | Inr n \<Rightarrow> g\<lparr>ga_value := n\<rparr>)"

definition gauge_start :: "exn + int \<Rightarrow> gauge \<Rightarrow> gauge" where
  "gauge_start answer g =
     (if is_running (ga_task g) then g
      else let g = gauge_refresh answer (g\<lparr>ga_task := (ga_task g)\<lparr>bg_stopping := False\<rparr>\<rparr>)
        in g\<lparr>ga_task := (ga_task g)\<lparr>bg_task := Alive\<rparr>\<rparr>)"

definition gauge_stop :: "gauge \<Rightarrow> gauge" where
  "gauge_stop g = g\<lparr>ga_task := stop_task (ga_task g)\<rparr>"

text \<open>The loop reads the provider at each wake-up, even one that finds it stopping.\<close>

fun gauge_run :: "(exn + int) list \<Rightarrow> gauge \<Rightarrow> gauge" where
  "gauge_run [] g = g"
| "gauge_run (answer # as) g = (if bg_stopping (ga_task g) then g else gauge_run as (gauge_refresh answer g))"

section \<open>Lemmas\<close>

lemma start_task_running [simp]: "is_running (start_task b)" "is_running b \<Longrightarrow> start_task b = b"
  by (simp_all add: start_task_def is_running_def)

lemma stop_task_running [simp]: "\<not> is_running (stop_task b)" "is_running (start_task (stop_task b))"
  by (simp_all add: stop_task_def is_running_def start_task_def)

lemma new_background_idle [simp]: "\<not> is_running new_background"
  by (simp add: new_background_def is_running_def)

lemma scheduler_start_running:
  "is_running (scheduler_start enabled b) \<longleftrightarrow> enabled \<or> is_running b"
  by (simp add: scheduler_start_def)

lemma gauge_start_value:
  "\<not> is_running (ga_task g) \<Longrightarrow> ga_value (gauge_start answer g) = (case answer of Inl x \<Rightarrow> ga_value g | Inr n \<Rightarrow> n)"
  by (simp add: gauge_start_def gauge_refresh_def split: sum.split)

lemma gauge_start_running [simp]: "is_running (ga_task (gauge_start answer g))"
  by (simp add: gauge_start_def is_running_def Let_def)

lemma gauge_stop_running [simp]: "\<not> is_running (ga_task (gauge_stop g))"
  by (simp add: gauge_stop_def)

lemma scheduler_run_awake: "scheduler_run refresh (False # ws) dbs = scheduler_run refresh ws (snd (refresh dbs))"
  by (cases "refresh dbs"; cases "fst (refresh dbs)") auto

lemma scheduler_run_stopped:
  "scheduler_run refresh (replicate k False @ True # ws) dbs = ((snd \<circ> refresh) ^^ k) dbs"
proof (induction k arbitrary: dbs)
  case 0
  then show ?case by simp
next
  case (Suc k)
  have "scheduler_run refresh (replicate (Suc k) False @ True # ws) dbs = ((snd \<circ> refresh) ^^ k) ((snd \<circ> refresh) dbs)"
    using Suc by (simp add: scheduler_run_awake comp_def del: scheduler_run.simps(2))
  then show ?case by (simp only: funpow_Suc_right comp_apply [of "(snd \<circ> refresh) ^^ k"])
qed

text \<open>A property that every sweep keeps, whether it returns or raises, holds whenever the loop ends.\<close>

lemma scheduler_run_invariant:
  assumes "\<And>dbs. P dbs \<Longrightarrow> P (snd (refresh dbs))" "P dbs"
  shows "P (scheduler_run refresh ws dbs)"
  using assms(2)
proof (induction ws arbitrary: dbs)
  case Nil
  then show ?case by simp
next
  case (Cons w ws)
  have "P (snd (refresh dbs))" using Cons.prems by (rule assms(1))
  with Cons show ?case by (cases "refresh dbs") (auto split: sum.split)
qed

lemma dispatcher_run_invariant:
  assumes "\<And>now ste. P ste \<Longrightarrow> P (snd (drain_once so tr batch now ste))" "P ste"
  shows "P (dispatcher_run so tr batch ts ste)"
  using assms(2)
proof (induction ts arbitrary: ste)
  case Nil
  then show ?case by simp
next
  case (Cons now ts)
  then show ?case using assms(1) [OF Cons.prems, of now] by simp
qed

section \<open>Sweeps on the in-memory backend\<close>

text \<open>Giving games their vectors changes nothing a list depends on.\<close>

lemma with_vectors_frame:
  assumes "\<forall>g \<in> set gs. w_games w (game_id g) = Some g"
  shows "map_option is_published (w_games (with_vectors gs vs w) k) = map_option is_published (w_games w k)"
    "w_recs (with_vectors gs vs w) = w_recs w" "w_prefs (with_vectors gs vs w) = w_prefs w"
    "w_owners (with_vectors gs vs w) = w_owners w"
proof -
  have "(\<forall>g \<in> set gs. map_option is_published (w_games w (game_id g)) = Some (is_published g)) \<Longrightarrow>
      map_option is_published (w_games (with_vectors gs vs w) k) = map_option is_published (w_games w k) \<and>
      w_recs (with_vectors gs vs w) = w_recs w \<and> w_prefs (with_vectors gs vs w) = w_prefs w \<and>
      w_owners (with_vectors gs vs w) = w_owners w"
  proof (induction gs arbitrary: vs w)
    case Nil
    then show ?case by (simp add: with_vectors_def)
  next
    case (Cons g gs)
    show ?case
    proof (cases vs)
      case Nil
      then show ?thesis by (simp add: with_vectors_def)
    next
      case (Cons v vs')
      let ?w = "put_game (g\<lparr>dense := dense_of v\<rparr>) w"
      have pub: "map_option is_published (w_games ?w k) = map_option is_published (w_games w k)" for k
        using Cons.prems by (auto simp: put_game_def)
      have "with_vectors (g # gs) vs w = with_vectors gs vs' ?w" by (simp add: with_vectors_def Cons)
      moreover have "\<forall>g \<in> set gs. map_option is_published (w_games ?w (game_id g)) = Some (is_published g)"
        using Cons.prems pub by simp
      ultimately show ?thesis using Cons.IH [of ?w vs'] pub by (simp add: put_game_def)
    qed
  qed
  then show "map_option is_published (w_games (with_vectors gs vs w) k) = map_option is_published (w_games w k)"
    "w_recs (with_vectors gs vs w) = w_recs w" "w_prefs (with_vectors gs vs w) = w_prefs w"
    "w_owners (with_vectors gs vs w) = w_owners w"
    using assms by auto
qed

lemma list_ok_published:
  assumes "\<And>k. map_option is_published (w_games v k) = map_option is_published (w_games w k)"
    "\<And>x. owns (pref_of v x) = owns (pref_of w x)"
  shows "list_ok v u limit recs = list_ok w u limit recs"
proof -
  have "(\<exists>gm. w_games v k = Some gm \<and> is_published gm) \<longleftrightarrow> (\<exists>gm. w_games w k = Some gm \<and> is_published gm)" for k
    using assms(1) [of k] by (auto simp: map_option_case split: option.splits)
  then show ?thesis by (simp add: list_ok_def assms(2))
qed

text \<open>What a sweep leaves to a reader: \<open>old\<close> are the lists before it.\<close>

definition swept_lists :: "int \<Rightarrow> (user_id \<Rightarrow> recommendation list) \<Rightarrow> world \<Rightarrow> bool" where
  "swept_lists limit old w \<longleftrightarrow> (\<forall>u. w_recs w u = old u \<or> list_ok w u limit (w_recs w u))"

lemma refresh_all_sound:
  assumes st: "store_ok st" "store_sound n (store_view st)" and port: "embedding_port provider n"
    and gen: "sound_scorer (gen_scorer gen)" "0 \<le> limit"
  obtains us report st' ss' where
    "refresh_all (memory_ops iu ig topic) gen (Some (provider, chunk)) batch cid limit (st, ss) = (Inr report, st', ss')"
    "store_ok st'" "store_sound n (store_view st')"
    "distinct us" "\<forall>u \<in> set us. \<exists>p. w_prefs (store_view st) u = Some p \<and> 0 < signal_count p"
    "0 \<le> users_processed report" "users_processed report \<le> int (length us)"
    "explains_safely (gen_explain gen) \<longrightarrow> users_processed report = int (length us) \<and>
      (\<forall>u \<in> set us. list_ok (store_view st') u limit (w_recs (store_view st') u))"
    "\<forall>u. u \<notin> set us \<longrightarrow> w_recs (store_view st') u = w_recs (store_view st) u"
    "\<And>old. swept_lists limit old (store_view st) \<Longrightarrow> swept_lists limit old (store_view st')"
proof -
  let ?ops = "memory_ops iu ig topic"
  from embedding_port.stage_sound [OF port st, of iu ig topic chunk cid] obtain gs vs st1 where
    stage: "embed_pending ?ops provider chunk cid st = (Inr (int (length gs)), st1)" "store_ok st1"
      "store_sound n (store_view st1)" "\<forall>g \<in> set gs. w_games (store_view st) (game_id g) = Some g"
      "store_view st1 = with_vectors gs vs (store_view st)"
    by auto
  note frame = with_vectors_frame [OF stage(4), of vs, folded stage(5)]
  have prefs: "pref_of (store_view st1) u = pref_of (store_view st) u" for u by (simp add: pref_of_def frame(3))
  let ?s = "uow_open ?ops cid st1"
  define us where "us = prefs_with_signals ?ops ?s batch"
  note opened = mem.open_txn [OF stage(2), of iu ig topic cid] mem.open_view [OF stage(2), of iu ig topic cid]
  have us: "distinct us" "\<forall>u \<in> set us. \<exists>p. w_prefs (store_view st) u = Some p \<and> 0 < signal_count p"
    using mem.with_signals [OF opened(1), of iu ig topic batch] unfolding us_def [symmetric] opened(2) frame(3) by blast+
  have exit: "uow_exit ?ops ?s = st1" by (rule mem.exit_rollback [OF opened(1)])
  obtain k m st' ss' where sweep: "sweep ?ops gen cid limit us (0, 0) (st1, ss) = ((int k, m), st', ss')" "store_ok st'"
    "k \<le> length us" "explains_safely (gen_explain gen) \<longrightarrow> k = length us"
    "swept n us limit (explains_safely (gen_explain gen)) (store_view st1) (store_view st')"
    using mem.sweep_sound [OF stage(2,3) gen us(1), of iu ig topic cid 0 0 ss] by auto
  let ?w = "store_view st" and ?w1 = "store_view st1" and ?w' = "store_view st'"
  have lists: "list_ok ?w1 u limit recs = list_ok ?w u limit recs" "list_ok ?w' u limit recs = list_ok ?w1 u limit recs" for u recs
  proof -
    show "list_ok ?w1 u limit recs = list_ok ?w u limit recs" by (rule list_ok_published) (simp_all add: frame prefs)
    show "list_ok ?w' u limit recs = list_ok ?w1 u limit recs"
      using sweep(5) unfolding swept_def by (intro list_ok_published) simp_all
  qed
  have each: "list_ok ?w' u limit (w_recs ?w' u) \<or> \<not> explains_safely (gen_explain gen) \<and> w_recs ?w' u = w_recs ?w u" if "u \<in> set us" for u
    using sweep(5) that unfolding swept_def lists frame(2) by blast
  have others: "\<forall>u. u \<notin> set us \<longrightarrow> w_recs ?w' u = w_recs ?w u"
    using sweep(5) unfolding swept_def frame(2) by blast
  let ?report = "\<lparr>users_processed = int k, recommendations_written = m, rr_generated_at = clock ss' (readings ss')\<rparr>"
  have report: "refresh_all ?ops gen (Some (provider, chunk)) batch cid limit (st, ss) =
      (Inr ?report, st', ss'\<lparr>readings := readings ss' + 1\<rparr>)"
    by (simp only: refresh_all_def embed_first_def option.case prod.case stage(1) sum.case Let_def exit us_def [symmetric]
        sweep(1) stamps_now_def)
  show thesis
  proof (rule that [OF report sweep(2) _ us])
    show "store_sound n ?w'" using sweep(5) by (simp add: swept_def)
    show "swept_lists limit old ?w'" if "swept_lists limit old ?w" for old
      using that each others unfolding swept_lists_def lists by metis
  qed (use sweep(3,4) each others in auto)
qed

end
