(* ===== verification/Composition.thy ===== *)
theory Composition
  imports Api Tasks Consumers
begin

text \<open>
  The composition root (\<open>composition.py\<close>), the checks before the application starts and its lifespan
  (\<open>presentation/http/app.py\<close>, \<open>main.py\<close>): which adapters the settings select, how they are wired into
  the use cases, and the order in which the parts are started and stopped. What the third parties do is a
  \<open>third_party\<close>; the state of the database and of the cache is the argument of the operations.
\<close>

section \<open>The container\<close>

text \<open>The parts with a lifecycle.\<close>

datatype part = MIGRATOR | PUBLISHER | SUBSCRIBER | DISPATCHER | SCHEDULER | GAUGE

record third_party =
  tp_blake2b :: "string \<Rightarrow> 64 word"
  tp_read_float :: "string \<Rightarrow> real option"
  tp_float_str :: "real \<Rightarrow> string"
  tp_loads :: "string \<Rightarrow> json option"
  tp_post :: http_post

definition content_scorer_of :: "settings \<Rightarrow> scorer" where
  "content_scorer_of s = (if ranks_in_dense_space s then dense_content_scorer else content_based_scorer)"

definition embedder_of :: "third_party \<Rightarrow> settings \<Rightarrow> embedder" where
  "embedder_of tp s =
     (if embedding_backend s = HUGGINGFACE then
        hugging_face_embedder (tp_read_float tp) (tp_post tp) (embedding_endpoint s) (embedding_api_key s)
          (embedding_dimensions s) (embedding_prefix s)
      else hashing_embedder (tp_blake2b tp) (embedding_dimensions s))"

definition explanations_of :: "third_party \<Rightarrow> settings \<Rightarrow> explainer" where
  "explanations_of tp s =
     (if explanation_backend s = OPENAI then
        open_ai_explainer (tp_float_str tp) (tp_loads tp) (tp_post tp) (explanation_base_url s) (explanation_api_key s)
          (explanation_model s) (explanation_max_tokens s)
      else no_explanations)"

text \<open>The adapters and use cases of a running service. \<open>con_sql\<close> tells whether there is a session factory,
  \<open>con_redis\<close> is the address of the cache's client, the numbers are the arguments the constructors get.\<close>

record container =
  con_settings :: settings
  con_lifecycle :: "part list"
  con_sql :: bool
  con_in_process :: bool
  con_poll_ms :: int
  con_outbox_batch :: int
  con_tokens :: "jwt_verifier option"
  con_redis :: "string option"
  con_cache :: response_cache
  con_topic :: string
  con_generator :: generator
  con_embedding :: "embedder \<times> int"
  con_sweep_batch :: int
  con_interval_seconds :: int
  con_generation_enabled :: bool
  con_gauge_seconds :: real

definition messaging :: "settings \<Rightarrow> part list \<times> bool" where
  "messaging s = (if \<not> uses_kafka s then ([], True) else ([PUBLISHER, SUBSCRIBER], False))"

definition build_container :: "third_party \<Rightarrow> settings \<Rightarrow> container" where
  "build_container tp s =
     (let (clients, in_process) = messaging s in
      \<lparr>con_settings = s,
       con_lifecycle = (if uses_postgres s \<and> run_migrations s then [MIGRATOR] else []) @ clients
         @ [DISPATCHER] @ [SCHEDULER] @ [GAUGE],
       con_sql = uses_postgres s, con_in_process = in_process,
       con_poll_ms = outbox_poll_interval_ms s, con_outbox_batch = outbox_batch_size s,
       con_tokens = (if identity_backend s = JWT
         then Some \<lparr>jv_secret = jwt_secret s, jv_algorithm = jwt_algorithm s, jv_issuer = jwt_issuer s,
           jv_audience = jwt_audience s\<rparr> else None),
       con_redis = (if uses_redis s then Some (redis_url s) else None),
       con_cache = \<lparr>rc_prefix = service_name s, rc_default_ttl = recommendation_cache_ttl_seconds s\<rparr>,
       con_topic = kafka_topic_reco_events s,
       con_generator = \<lparr>gen_scorer = content_scorer_of s, gen_catalogue_limit = catalogue_scan_limit s,
         gen_explain = Some (explanations_of tp s), gen_dense_space = ranks_in_dense_space s\<rparr>,
       con_embedding = (embedder_of tp s, embedding_batch_size s),
       con_sweep_batch = generation_batch_size s, con_interval_seconds = generation_interval_seconds s,
       con_generation_enabled = generation_enabled s, con_gauge_seconds = gauge_refresh_seconds s\<rparr>)"

section \<open>Starting the application\<close>

definition assert_debug_auth_is_local_only :: "container \<Rightarrow> exn + unit" where
  "assert_debug_auth_is_local_only c =
     (if app_env (con_settings c) \<noteq> LOCAL_ENV \<and> identity_backend (con_settings c) = FAKE then
        Inl (RuntimeError (''IDENTITY_BACKEND=fake exposes the debug auth header; refusing to start with APP_ENV='' @
          env_str (app_env (con_settings c))))
      else Inr ())"

text \<open>\<open>create_app(build_container(get_settings()))\<close>\<close>

definition boot :: "third_party \<Rightarrow> settings \<Rightarrow> exn + container" where
  "boot tp s = bindE (validated s) (\<lambda>s. let c = build_container tp s in
     bindE (assert_debug_auth_is_local_only c) (\<lambda>_. Inr c))"

text \<open>The service that \<open>create_app\<close> mounts the routes on.\<close>

definition service_of ::
  "third_party \<Rightarrow> container \<Rightarrow> ('db, 's) uow_ops \<Rightarrow> (string \<Rightarrow> 'c cache_client) \<Rightarrow> codec \<Rightarrow> jwt_decode \<Rightarrow> (int \<Rightarrow> string) \<Rightarrow>
   ('db, 's, 'c) service" where
  "service_of tp c ops redis cd decode vmsg =
     \<lparr>sv_settings = con_settings c, sv_tokens = con_tokens c, sv_ops = ops, sv_generator = con_generator c,
      sv_embedding = Some (con_embedding c), sv_client = map_option redis (con_redis c), sv_cache = con_cache c,
      sv_codec = cd, sv_decode = decode, sv_float_str = tp_float_str tp, sv_vmsg = vmsg\<rparr>"

section \<open>The lifespan\<close>

text \<open>The state of the parts that run in this process, and the parts started and stopped so far.\<close>

record runtime =
  rt_dispatcher :: background
  rt_scheduler :: background
  rt_gauge :: gauge
  rt_started :: "part list"
  rt_stopped :: "part list"

definition idle :: runtime where
  "idle = \<lparr>rt_dispatcher = new_background, rt_scheduler = new_background, rt_gauge = new_gauge 0,
     rt_started = [], rt_stopped = []\<rparr>"

text \<open>\<open>io p\<close> is the exception that connecting (or closing) the part \<open>p\<close> raises, if it does; \<open>known\<close> is what
  counting the games gives.\<close>

definition start_part :: "settings \<Rightarrow> (part \<Rightarrow> exn option) \<Rightarrow> exn + int \<Rightarrow> part \<Rightarrow> runtime \<Rightarrow> exn + runtime" where
  "start_part s io known p rt =
     (let rt' = rt\<lparr>rt_started := rt_started rt @ [p]\<rparr> in
      case p of
        DISPATCHER \<Rightarrow> Inr (rt'\<lparr>rt_dispatcher := start_task (rt_dispatcher rt)\<rparr>)
      | SCHEDULER \<Rightarrow> Inr (rt'\<lparr>rt_scheduler := scheduler_start (generation_enabled s) (rt_scheduler rt)\<rparr>)
      | GAUGE \<Rightarrow> Inr (rt'\<lparr>rt_gauge := gauge_start known (rt_gauge rt)\<rparr>)
      | _ \<Rightarrow> (case io p of None \<Rightarrow> Inr rt' | Some x \<Rightarrow> Inl x))"

definition stop_part :: "(part \<Rightarrow> exn option) \<Rightarrow> part \<Rightarrow> runtime \<Rightarrow> exn + runtime" where
  "stop_part io p rt =
     (let rt' = rt\<lparr>rt_stopped := rt_stopped rt @ [p]\<rparr> in
      case p of
        DISPATCHER \<Rightarrow> Inr (rt'\<lparr>rt_dispatcher := stop_task (rt_dispatcher rt)\<rparr>)
      | SCHEDULER \<Rightarrow> Inr (rt'\<lparr>rt_scheduler := stop_task (rt_scheduler rt)\<rparr>)
      | GAUGE \<Rightarrow> Inr (rt'\<lparr>rt_gauge := gauge_stop (rt_gauge rt)\<rparr>)
      | _ \<Rightarrow> (case io p of None \<Rightarrow> Inr rt' | Some x \<Rightarrow> Inl x))"

text \<open>A loop over the parts; the first exception ends it. The runtime it leaves is returned with it.\<close>

fun each_part :: "(part \<Rightarrow> runtime \<Rightarrow> exn + runtime) \<Rightarrow> part list \<Rightarrow> runtime \<Rightarrow> exn option \<times> runtime" where
  "each_part f [] rt = (None, rt)"
| "each_part f (p # ps) rt = (case f p rt of Inl x \<Rightarrow> (Some x, rt) | Inr rt \<Rightarrow> each_part f ps rt)"

definition startup :: "container \<Rightarrow> (part \<Rightarrow> exn option) \<Rightarrow> exn + int \<Rightarrow> runtime \<Rightarrow> exn option \<times> runtime" where
  "startup c io known rt = each_part (start_part (con_settings c) io known) (con_lifecycle c) rt"

definition shutdown :: "container \<Rightarrow> (part \<Rightarrow> exn option) \<Rightarrow> runtime \<Rightarrow> exn option \<times> runtime" where
  "shutdown c io rt = each_part (stop_part io) (rev (con_lifecycle c)) rt"

text \<open>\<open>_known_game_provider\<close>\<close>

definition known_games :: "('db, 's) uow_ops \<Rightarrow> string option \<Rightarrow> 'db \<Rightarrow> int" where
  "known_games ops cid db = games_count_recommendable ops (uow_open ops cid db)"

text \<open>What the scheduler of a container runs at each wake-up; it has no request, so no correlation id.\<close>

definition scheduled_refresh ::
  "container \<Rightarrow> ('db, 's) uow_ops \<Rightarrow> 'db \<times> stamps \<Rightarrow> (exn + refresh_report) \<times> 'db \<times> stamps" where
  "scheduled_refresh c ops = refresh_all ops (con_generator c) (Some (con_embedding c)) (con_sweep_batch c) None
     DEFAULT_RECOMMENDATION_COUNT"

text \<open>What \<open>readyz\<close> reads of a container and its runtime.\<close>

definition vitals_of :: "container \<Rightarrow> probe \<Rightarrow> probe \<Rightarrow> runtime \<Rightarrow> vitals" where
  "vitals_of c postgres redis rt =
     \<lparr>vt_persistence = (if con_sql c then postgres else always_reachable),
      vt_dispatcher_running = is_running (rt_dispatcher rt),
      vt_cache = (if con_redis c = None then None else Some redis),
      vt_scheduler_running = is_running (rt_scheduler rt)\<rparr>"

section \<open>What the settings that boot guarantee\<close>

lemma boot_Inr:
  assumes "boot tp s = Inr c"
  shows "reject_placeholder_secrets s = Inr s" "reject_unreachable_providers s = Inr s" "c = build_container tp s"
    "is_local s \<or> identity_backend s = JWT"
proof -
  obtain s1 s2 where b: "reject_placeholder_secrets s = Inr s1" "reject_unreachable_providers s1 = Inr s2"
    "assert_debug_auth_is_local_only (build_container tp s2) = Inr ()" "c = build_container tp s2"
    using assms unfolding boot_def validated_def Let_def by (auto simp: res_simps)
  have "s1 = s" "s2 = s1" using placeholder_free [OF b(1)] providers_reachable [OF b(2)] by auto
  moreover have "con_settings (build_container tp s2) = s2" by (simp add: build_container_def messaging_def)
  ultimately show "reject_placeholder_secrets s = Inr s" "reject_unreachable_providers s = Inr s"
    "c = build_container tp s" "is_local s \<or> identity_backend s = JWT"
    using b identity_backend.exhaust [of "identity_backend s"]
    by (auto simp: assert_debug_auth_is_local_only_def is_local_def split: if_splits)
qed

lemma build_container_simps [simp]:
  "con_settings (build_container tp s) = s" "con_sql (build_container tp s) = uses_postgres s"
  "con_tokens (build_container tp s) = (if identity_backend s = JWT
     then Some \<lparr>jv_secret = jwt_secret s, jv_algorithm = jwt_algorithm s, jv_issuer = jwt_issuer s,
       jv_audience = jwt_audience s\<rparr> else None)"
  "con_redis (build_container tp s) = (if uses_redis s then Some (redis_url s) else None)"
  "con_lifecycle (build_container tp s) = (if uses_postgres s \<and> run_migrations s then [MIGRATOR] else []) @
     (if uses_kafka s then [PUBLISHER, SUBSCRIBER] else []) @ [DISPATCHER, SCHEDULER, GAUGE]"
  "con_embedding (build_container tp s) = (embedder_of tp s, embedding_batch_size s)"
  "con_sweep_batch (build_container tp s) = generation_batch_size s"
  "con_topic (build_container tp s) = kafka_topic_reco_events s"
  "con_generator (build_container tp s) = \<lparr>gen_scorer = content_scorer_of s, gen_catalogue_limit = catalogue_scan_limit s,
     gen_explain = Some (explanations_of tp s), gen_dense_space = ranks_in_dense_space s\<rparr>"
  by (simp_all add: build_container_def messaging_def)

text \<open>What a deployment that starts guarantees. Outside a local run the application starts only with a token
  verifier, holding the configured secret, issuer and audience; in staging and production, only with a
  secret of at least 32 characters that does not contain the word \<open>change\<close> in any case, an issuer and an
  audience, and, on Postgres, a database that is not on localhost. A configured third-party model has an
  address. The parts with a lifecycle are the migration, on Postgres, then the broker's clients, on Kafka,
  then the dispatcher that publishes through them, the scheduler and the gauge, each once.\<close>

theorem boot_guarantees:
  assumes "boot tp s = Inr c"
  shows "c = build_container tp s \<and>
    (\<not> is_local s \<longrightarrow> con_tokens c = Some \<lparr>jv_secret = jwt_secret s, jv_algorithm = jwt_algorithm s,
       jv_issuer = jwt_issuer s, jv_audience = jwt_audience s\<rparr>) \<and>
    (is_production s \<longrightarrow> 32 \<le> length (jwt_secret s) \<and> (\<nexists>us vs. py_lower (jwt_secret s) = us @ ''change'' @ vs) \<and>
       jwt_issuer s \<noteq> [] \<and> jwt_audience s \<noteq> [] \<and>
       (con_sql c \<longrightarrow> (\<nexists>us vs. database_url s = us @ ''localhost'' @ vs))) \<and>
    (embedding_backend s = HUGGINGFACE \<longrightarrow> embedding_endpoint s \<noteq> []) \<and>
    (explanation_backend s = OPENAI \<longrightarrow> explanation_base_url s \<noteq> []) \<and> 0 < embedding_dimensions s \<and>
    distinct (con_lifecycle c) \<and>
    filter (\<lambda>p. p \<in> set (con_lifecycle c)) [MIGRATOR, PUBLISHER, SUBSCRIBER, DISPATCHER, SCHEDULER, GAUGE] = con_lifecycle c"
  using boot_Inr [OF assms] placeholder_free [of s s] providers_reachable [of s s]
  unfolding py_in_iff [symmetric] by auto

definition quiet_parties :: third_party where
  "quiet_parties = \<lparr>tp_blake2b = (\<lambda>t. of_nat (length t)), tp_read_float = (\<lambda>s. None), tp_float_str = (\<lambda>x. []),
     tp_loads = (\<lambda>s. None), tp_post = (\<lambda>url body headers. Inl (HTTPError ''unreachable''))\<rparr>"

definition production_settings :: settings where
  "production_settings = default_settings\<lparr>app_env := PROD_ENV, identity_backend := JWT, jwt_secret := replicate 32 (CHR ''k'')\<rparr>"

lemma production_boots: "boot quiet_parties production_settings = Inr (build_container quiet_parties production_settings)"
proof -
  have "\<not> py_in ''change'' (py_lower (replicate 32 (CHR ''k'')))" by code_simp
  then show ?thesis
    by (simp add: boot_def validated_def reject_placeholder_secrets_def reject_unreachable_providers_def
        assert_debug_auth_is_local_only_def is_production_def production_settings_def default_settings_def uses_postgres_def)
qed

lemma boot_guarantees_witness:
  "con_tokens (build_container quiet_parties production_settings) = Some \<lparr>jv_secret = replicate 32 (CHR ''k''),
     jv_algorithm = ''HS256'', jv_issuer = ''arcadia-auth'', jv_audience = ''arcadia''\<rparr>"
  using boot_guarantees [OF production_boots] by (simp add: is_local_def production_settings_def default_settings_def)

section \<open>The lifespan\<close>

lemma each_part_prefix:
  assumes "each_part f ps rt = (err, rt')" "\<And>p rt rt'. f p rt = Inr rt' \<Longrightarrow> sel rt' = sel rt @ [p]"
  shows "\<exists>i \<le> length ps. sel rt' = sel rt @ take i ps \<and> (err = None \<longleftrightarrow> i = length ps) \<and>
    (\<forall>x. err = Some x \<longrightarrow> f (ps ! i) rt' = Inl x)"
  using assms(1)
proof (induction ps arbitrary: rt)
  case Nil
  then show ?case by simp
next
  case (Cons p ps)
  show ?case
  proof (cases "f p rt")
    case (Inl x)
    with Cons.prems show ?thesis by (intro exI [of _ 0]) auto
  next
    case (Inr rt1)
    with Cons.prems Cons.IH [of rt1] obtain i where "i \<le> length ps" "sel rt' = sel rt1 @ take i ps"
      "err = None \<longleftrightarrow> i = length ps" "\<forall>x. err = Some x \<longrightarrow> f (ps ! i) rt' = Inl x"
      by auto
    then show ?thesis using assms(2) [OF Inr] by (intro exI [of _ "Suc i"]) simp
  qed
qed

lemma each_part_keeps:
  assumes "each_part f ps rt = (err, rt')" "\<And>p rt rt'. f p rt = Inr rt' \<Longrightarrow> sel rt' = sel rt"
  shows "sel rt' = sel rt"
  using assms(1)
proof (induction ps arbitrary: rt)
  case Nil
  then show ?case by simp
next
  case (Cons p ps)
  then show ?case using assms(2) by (fastforce split: sum.splits)
qed

lemma start_part_sel: "start_part s io known p rt = Inr rt' \<Longrightarrow> rt_started rt' = rt_started rt @ [p] \<and> rt_stopped rt' = rt_stopped rt"
  by (cases p) (auto simp: start_part_def Let_def split: option.splits)

lemma stop_part_sel: "stop_part io p rt = Inr rt' \<Longrightarrow> rt_stopped rt' = rt_stopped rt @ [p] \<and> rt_started rt' = rt_started rt"
  by (cases p) (auto simp: stop_part_def Let_def split: option.splits)

lemma startup_runs:
  assumes "startup (build_container tp s) io known idle = (None, rt)"
  shows "is_running (rt_dispatcher rt)" "is_running (rt_scheduler rt) = generation_enabled s" "is_running (ga_task (rt_gauge rt))"
    "ga_value (rt_gauge rt) = (case known of Inl x \<Rightarrow> 0 | Inr n \<Rightarrow> n)"
  using assms
  by (auto simp: startup_def start_part_def Let_def idle_def scheduler_start_running gauge_start_value new_gauge_def
      split: option.splits if_splits sum.splits)

lemma startup_fails:
  assumes "startup (build_container tp s) io known idle = (Some x, rt)"
  shows "\<not> is_running (rt_dispatcher rt)" "\<not> is_running (rt_scheduler rt)" "\<not> is_running (ga_task (rt_gauge rt))"
  using assms by (auto simp: startup_def start_part_def Let_def idle_def new_gauge_def split: option.splits if_splits)

lemma shutdown_stops:
  assumes "shutdown (build_container tp s) io rt = (None, rt')"
  shows "\<not> is_running (rt_dispatcher rt')" "\<not> is_running (rt_scheduler rt')" "\<not> is_running (ga_task (rt_gauge rt'))"
  using assms by (auto simp: shutdown_def stop_part_def Let_def split: option.splits if_splits)

text \<open>C35: the lifespan. If no part raises, startup starts every part once in the order of the container, leaves
  the dispatcher polling, the scheduler running exactly when generation is enabled and the gauge at the
  number of known games; the service is then ready as soon as its database answers. A part that raises stops
  the startup there: the parts before it have been started and none is stopped, and no task of this process
  polls, so the service is not ready. Shutdown stops the parts once in the reverse order and leaves nothing
  running.\<close>

theorem lifespan_order:
  assumes "boot tp s = Inr c" "startup c io known idle = (err, rt)" "shutdown c io' rt = (err', rt')"
  shows "rt_stopped rt = [] \<and>
    (if err = None
     then rt_started rt = con_lifecycle c \<and> is_running (rt_dispatcher rt) \<and>
       is_running (rt_scheduler rt) = generation_enabled s \<and>
       ga_value (rt_gauge rt) = (case known of Inl x \<Rightarrow> 0 | Inr n \<Rightarrow> n) \<and>
       (fst (readyz s (vitals_of c postgres redis rt)) = 200 \<longleftrightarrow> \<not> con_sql c \<or> postgres = None)
     else (\<exists>i < length (con_lifecycle c). rt_started rt = take i (con_lifecycle c) \<and> io (con_lifecycle c ! i) = err) \<and>
       \<not> is_running (rt_dispatcher rt) \<and> \<not> is_running (rt_scheduler rt) \<and>
       fst (readyz s (vitals_of c postgres redis rt)) = 503) \<and>
    (err' = None \<longrightarrow> rt_stopped rt' = rt_stopped rt @ rev (con_lifecycle c) \<and> \<not> is_running (rt_dispatcher rt') \<and>
       \<not> is_running (rt_scheduler rt') \<and> \<not> is_running (ga_task (rt_gauge rt')))"
proof -
  note c = boot_Inr(3) [OF assms(1)]
  have ready: "fst (readyz s (vitals_of c postgres redis r)) =
      (if (\<not> con_sql c \<or> postgres = None) \<and> is_running (rt_dispatcher r) then 200 else 503)" for r
    using ready_iff_critical_parts [of s "vitals_of c postgres redis r"] by (auto simp: vitals_of_def always_reachable_def)
  have started: "start_part (con_settings c) io known p r = Inr r' \<Longrightarrow> rt_started r' = rt_started r @ [p]" for p r r'
    using start_part_sel by blast
  obtain i where i: "i \<le> length (con_lifecycle c)" "rt_started rt = take i (con_lifecycle c)"
    "err = None \<longleftrightarrow> i = length (con_lifecycle c)"
    "\<forall>x. err = Some x \<longrightarrow> start_part (con_settings c) io known (con_lifecycle c ! i) rt = Inl x"
    using each_part_prefix [OF assms(2) [unfolded startup_def], of rt_started, OF started] by (auto simp: idle_def)
  have kept: "start_part (con_settings c) io known p r = Inr r' \<Longrightarrow> rt_stopped r' = rt_stopped r" for p r r'
    using start_part_sel by blast
  have none_stopped: "rt_stopped rt = []"
    using each_part_keeps [OF assms(2) [unfolded startup_def], of rt_stopped, OF kept] by (simp add: idle_def)
  have stopped: "stop_part io' p r = Inr r' \<Longrightarrow> rt_stopped r' = rt_stopped r @ [p]" for p r r'
    using stop_part_sel by blast
  obtain j where j: "rt_stopped rt' = rt_stopped rt @ take j (rev (con_lifecycle c))"
    "err' = None \<longleftrightarrow> j = length (rev (con_lifecycle c))"
    using each_part_prefix [OF assms(3) [unfolded shutdown_def], of rt_stopped, OF stopped] by blast
  have down: "err' = None \<longrightarrow> rt_stopped rt' = rt_stopped rt @ rev (con_lifecycle c) \<and> \<not> is_running (rt_dispatcher rt') \<and>
       \<not> is_running (rt_scheduler rt') \<and> \<not> is_running (ga_task (rt_gauge rt'))"
    using j shutdown_stops [of tp s io' rt rt'] assms(3) c by (auto simp del: build_container_simps)
  show ?thesis
  proof (cases err)
    case None
    with assms(2) c have up: "startup (build_container tp s) io known idle = (None, rt)" by simp
    show ?thesis using startup_runs [OF up] down i(2,3) None none_stopped ready [of rt] by simp
  next
    case (Some x)
    with assms(2) c have "startup (build_container tp s) io known idle = (Some x, rt)" by simp
    note off = startup_fails [OF this]
    have "start_part (con_settings c) io known (con_lifecycle c ! i) rt = Inl x" using i(4) Some by simp
    then have "io (con_lifecycle c ! i) = err"
      using Some by (cases "con_lifecycle c ! i") (auto simp: start_part_def Let_def split: option.splits)
    then show ?thesis using off down i(1-3) Some none_stopped ready [of rt] by (auto intro!: exI [of _ i])
  qed
qed

definition connected :: "part \<Rightarrow> exn option" where
  "connected p = None"

lemma lifespan_order_witness:
  "rt_stopped (snd (shutdown (build_container quiet_parties production_settings) connected
     (snd (startup (build_container quiet_parties production_settings) connected (Inr 3) idle)))) = [GAUGE, SCHEDULER, DISPATCHER]"
proof -
  let ?c = "build_container quiet_parties production_settings"
  have flags: "\<not> uses_postgres production_settings" "\<not> uses_kafka production_settings"
    by (simp_all add: production_settings_def default_settings_def uses_postgres_def uses_kafka_def)
  have lc: "con_lifecycle ?c = [DISPATCHER, SCHEDULER, GAUGE]" by (simp add: flags)
  obtain rt where up: "startup ?c connected (Inr 3) idle = (None, rt)"
    by (simp add: startup_def flags start_part_def Let_def)
  obtain rt' where down: "shutdown ?c connected rt = (None, rt')"
    by (simp add: shutdown_def flags stop_part_def Let_def)
  from lifespan_order [OF production_boots up down, of None None] show ?thesis
    by (simp add: up down flags)
qed

section \<open>The deployed service\<close>

text \<open>C32: callers outside a local run. In a deployment that boots with \<open>APP_ENV\<close> other than local, whoever a route
  takes for an identified caller presented, as a bearer token, an access token confirmed with the configured
  secret, algorithm, issuer and audience, whose subject is the caller and whose role is the caller's role. In
  a local run without a token the caller is a basic user named by the debug header.\<close>

theorem callers_are_vouched_for:
  assumes "boot tp s = Inr c" "caller (service_of tp c ops redis cd decode vmsg) rq = Inr a"
  shows "(\<exists>token claims. rq_credentials rq = Some token \<and> py_lower (fst token) = ''bearer'' \<and>
      decode (snd token) (jwt_secret s) (jwt_algorithm s) (jwt_issuer s) (jwt_audience s) = Inr claims \<and>
      py_str (tp_float_str tp) (get_or claims ''typ'' ACCESS) = ACCESS \<and>
      user_id_parse (py_str (tp_float_str tp) (json_get claims ''sub'')) = Inr (actor_user_id a) \<and>
      py_str (tp_float_str tp) (get_or claims ''role'' (role_str BASIC_USER)) = role_str (actor_role a)) \<or>
    is_local s \<and> identity_backend s = FAKE \<and> actor_role a = BASIC_USER \<and>
      (\<exists>raw. rq_debug_user rq = Some raw \<and> uuid_parse raw = Some (user_uuid (actor_user_id a)))"
proof -
  note c = boot_Inr(3) [OF assms(1)]
  have "optional_actor (tp_float_str tp) decode s (con_tokens c) (rq_credentials rq) (rq_debug_user rq) = Inr (Some a)"
  proof -
    have "con_settings c = s" by (simp add: c)
    then show ?thesis using assms(2)
      by (simp add: caller_def service_of_def bindE_eq_Inr current_actor_def split: option.splits) blast
  qed
  from optional_actor_Some [OF this] show ?thesis
  proof (elim disjE)
    assume "by_token (tp_float_str tp) decode (con_tokens c) (rq_credentials rq) a"
    then obtain v scheme token claims where "con_tokens c = Some v" "rq_credentials rq = Some (scheme, token)"
      "py_lower scheme = ''bearer''" "claims_of (tp_float_str tp) decode v token a claims"
      unfolding by_token_def by blast
    moreover from this have "v = \<lparr>jv_secret = jwt_secret s, jv_algorithm = jwt_algorithm s, jv_issuer = jwt_issuer s,
        jv_audience = jwt_audience s\<rparr>"
      by (simp add: c split: if_splits)
    ultimately show ?thesis by (intro disjI1 exI [of _ "(scheme, token)"] exI [of _ claims]) (simp add: claims_of_def)
  qed blast
qed

definition local_service :: "(memory_store, memory_uow, unit) service" where
  "local_service = service_of quiet_parties (build_container quiet_parties default_settings)
     (memory_ops ascending ascending ''reco-events'') (\<lambda>url. undefined) user_codec (\<lambda>token secret alg iss aud. Inl []) (\<lambda>n. [])"

lemma local_boots: "boot quiet_parties default_settings = Inr (build_container quiet_parties default_settings)"
  by (simp add: boot_def validated_def reject_placeholder_secrets_def reject_unreachable_providers_def
      assert_debug_auth_is_local_only_def is_production_def default_settings_def)

lemma callers_are_vouched_for_witness:
  "\<exists>raw. rq_debug_user (debug_request RefreshAll) = Some raw \<and> uuid_parse raw = Some (user_uuid (UserId 7))"
proof -
  have c: "caller local_service (debug_request RefreshAll) = Inr \<lparr>actor_user_id = UserId 7, actor_role = BASIC_USER, is_banned = False\<rparr>"
    by (simp add: local_service_def service_of_def caller_def debug_request_def optional_actor_def is_local_def
        default_settings_def uuid_parse_str current_actor_def)
  from callers_are_vouched_for [OF local_boots c [unfolded local_service_def]] show ?thesis
    by (auto simp: debug_request_def)
qed

lemma embedder_port:
  assumes "0 < embedding_dimensions s"
  shows "embedding_port (embedder_of tp s) (nat (embedding_dimensions s))"
  using hashing.embedding_port_axioms [of "tp_blake2b tp" "nat (embedding_dimensions s)"]
    hugging_face.embedding_port_axioms [of "tp_read_float tp" "tp_post tp" "embedding_endpoint s" "embedding_api_key s"
      "nat (embedding_dimensions s)" "embedding_prefix s"] assms
  by (simp add: embedder_of_def)

lemma generator_sound: "sound_scorer (gen_scorer (con_generator (build_container tp s)))"
  by (simp add: content_scorer_of_def sound_scorer_def)

lemma no_explanations_safe: "explains_safely (Some no_explanations)"
  by (simp add: explains_safely_def no_explanations_def)

lemma deployed_refresh:
  assumes "boot tp s = Inr c" "store_ok st" "store_sound (nat (embedding_dimensions s)) (store_view st)"
  shows "\<exists>us report st' ss'. refresh_all (memory_ops iu ig (con_topic c)) (con_generator c) (Some (con_embedding c))
      (con_sweep_batch c) cid DEFAULT_RECOMMENDATION_COUNT (st, ss) = (Inr report, st', ss') \<and>
    store_ok st' \<and> store_sound (nat (embedding_dimensions s)) (store_view st') \<and>
    distinct us \<and> (\<forall>u \<in> set us. \<exists>p. w_prefs (store_view st) u = Some p \<and> 0 < signal_count p) \<and>
    users_processed report \<le> int (length us) \<and>
    (explanation_backend s = NONE \<longrightarrow> users_processed report = int (length us) \<and>
       (\<forall>u \<in> set us. list_ok (store_view st') u DEFAULT_RECOMMENDATION_COUNT (w_recs (store_view st') u))) \<and>
    (\<forall>u. u \<notin> set us \<longrightarrow> w_recs (store_view st') u = w_recs (store_view st) u) \<and>
    (\<forall>old. swept_lists DEFAULT_RECOMMENDATION_COUNT old (store_view st) \<longrightarrow>
       swept_lists DEFAULT_RECOMMENDATION_COUNT old (store_view st'))"
proof -
  note c = boot_Inr(3) [OF assms(1)]
  have dims: "0 < embedding_dimensions s" using providers_reachable [OF boot_Inr(2) [OF assms(1)]] by blast
  have safe: "explains_safely (gen_explain (con_generator c))" if "explanation_backend s = NONE"
    using that no_explanations_safe by (simp add: c explanations_of_def)
  have gen: "sound_scorer (gen_scorer (con_generator c))" unfolding c by (rule generator_sound)
  have "(0 :: int) \<le> DEFAULT_RECOMMENDATION_COUNT" by (simp add: DEFAULT_RECOMMENDATION_COUNT_def)
  from refresh_all_sound [OF assms(2,3) embedder_port [OF dims, of tp] gen this, where chunk = "embedding_batch_size s" and
      batch = "con_sweep_batch c" and cid = cid and ss = ss and iu = iu and ig = ig and topic = "con_topic c"]
  obtain us report st' ss' where r:
    "refresh_all (memory_ops iu ig (con_topic c)) (con_generator c) (Some (embedder_of tp s, embedding_batch_size s))
      (con_sweep_batch c) cid DEFAULT_RECOMMENDATION_COUNT (st, ss) = (Inr report, st', ss')"
    "store_ok st'" "store_sound (nat (embedding_dimensions s)) (store_view st')"
    "distinct us" "\<forall>u \<in> set us. \<exists>p. w_prefs (store_view st) u = Some p \<and> 0 < signal_count p"
    "users_processed report \<le> int (length us)"
    "explains_safely (gen_explain (con_generator c)) \<longrightarrow> users_processed report = int (length us) \<and>
      (\<forall>u \<in> set us. list_ok (store_view st') u DEFAULT_RECOMMENDATION_COUNT (w_recs (store_view st') u))"
    "\<forall>u. u \<notin> set us \<longrightarrow> w_recs (store_view st') u = w_recs (store_view st) u"
    "\<forall>old. swept_lists DEFAULT_RECOMMENDATION_COUNT old (store_view st) \<longrightarrow>
       swept_lists DEFAULT_RECOMMENDATION_COUNT old (store_view st')"
    by metis
  have emb: "con_embedding c = (embedder_of tp s, embedding_batch_size s)" by (simp add: c)
  show ?thesis
    unfolding emb using r safe by (intro exI [of _ us] exI [of _ report] exI [of _ st'] exI [of _ ss']) blast
qed

text \<open>C8: the scheduled sweep of a deployment. Whatever the third parties answer, and whichever backends the
  settings select for embedding, scoring and explanation, refreshing everybody on a sound store of the
  configured width returns a report and leaves a sound store of that width. The list of a user it does not
  process is untouched, a list that was well shaped stays so or is replaced by one that is, and without an
  explanation model every user it selects, up to the batch size, gets a new list.\<close>

theorem deployed_sweep:
  assumes "boot tp s = Inr c" "store_ok st" "store_sound (nat (embedding_dimensions s)) (store_view st)"
  shows "\<exists>us report st' ss'. refresh_all (memory_ops iu ig (con_topic c)) (con_generator c) (Some (con_embedding c))
      (con_sweep_batch c) cid DEFAULT_RECOMMENDATION_COUNT (st, ss) = (Inr report, st', ss') \<and>
    store_ok st' \<and> store_sound (nat (embedding_dimensions s)) (store_view st') \<and>
    distinct us \<and> (\<forall>u \<in> set us. \<exists>p. w_prefs (store_view st) u = Some p \<and> 0 < signal_count p) \<and>
    users_processed report \<le> int (length us) \<and>
    (explanation_backend s = NONE \<longrightarrow> users_processed report = int (length us) \<and>
       (\<forall>u \<in> set us. list_ok (store_view st') u DEFAULT_RECOMMENDATION_COUNT (w_recs (store_view st') u))) \<and>
    (\<forall>u. u \<notin> set us \<longrightarrow> w_recs (store_view st') u = w_recs (store_view st) u) \<and>
    (\<forall>old. swept_lists DEFAULT_RECOMMENDATION_COUNT old (store_view st) \<longrightarrow>
       swept_lists DEFAULT_RECOMMENDATION_COUNT old (store_view st'))"
  by (rule deployed_refresh [OF assms])

lemma deployed_sweep_witness:
  "\<exists>(us :: user_id list) report st' ss'. refresh_all (memory_ops ascending ascending ''reco-events'')
      (con_generator (build_container quiet_parties default_settings))
      (Some (con_embedding (build_container quiet_parties default_settings))) 500 None DEFAULT_RECOMMENDATION_COUNT
      (empty_store, sample_stamps) = (Inr report, st', ss') \<and> users_processed report = int (length us) \<and> distinct us"
proof -
  have topic: "con_topic (build_container quiet_parties default_settings) = ''reco-events''"
    "con_sweep_batch (build_container quiet_parties default_settings) = 500" "explanation_backend default_settings = NONE"
    by (simp_all add: default_settings_def)
  from deployed_sweep [OF local_boots store_ok_empty store_sound_empty, where iu = ascending and ig = ascending and cid = None
      and ss = sample_stamps, unfolded topic simp_thms]
  show ?thesis by blast
qed

text \<open>C34: the scheduler never gives up. However often the sweep of a deployment is woken, whatever the third
  parties answer each time, the loop runs on until it is stopped, and at its end the store is sound and
  every list is the one from before the loop or a well-shaped one. A disabled scheduler never starts.\<close>

theorem scheduler_survives:
  assumes "boot tp s = Inr c" "store_ok st" "store_sound (nat (embedding_dimensions s)) (store_view st)"
  shows "(\<exists>st' ss'. scheduler_run (scheduled_refresh c (memory_ops iu ig (con_topic c))) ws (st, ss) = (st', ss') \<and> store_ok st' \<and>
      store_sound (nat (embedding_dimensions s)) (store_view st') \<and>
      swept_lists DEFAULT_RECOMMENDATION_COUNT (w_recs (store_view st)) (store_view st')) \<and>
    scheduler_run (scheduled_refresh c (memory_ops iu ig (con_topic c))) (replicate k False @ True # vs) (st, ss) = ((snd \<circ> scheduled_refresh c (memory_ops iu ig (con_topic c))) ^^ k) (st, ss) \<and>
    (is_running (scheduler_start (con_generation_enabled c) new_background) \<longleftrightarrow> generation_enabled s)"
proof -
  let ?sweep = "scheduled_refresh c (memory_ops iu ig (con_topic c))"
  let ?P = "\<lambda>(st', ss'). store_ok st' \<and> store_sound (nat (embedding_dimensions s)) (store_view st') \<and>
    swept_lists DEFAULT_RECOMMENDATION_COUNT (w_recs (store_view st)) (store_view st')"
  have step: "?P (snd (?sweep dbs))" if P: "?P dbs" for dbs
  proof -
    obtain st1 ss1 where dbs: "dbs = (st1, ss1)" by (cases dbs)
    then have P1: "store_ok st1" "store_sound (nat (embedding_dimensions s)) (store_view st1)"
      "swept_lists DEFAULT_RECOMMENDATION_COUNT (w_recs (store_view st)) (store_view st1)"
      using P by auto
    from deployed_refresh [OF assms(1) P1(1,2), of iu ig None ss1] P1(3) show ?thesis
      unfolding dbs scheduled_refresh_def by auto
  qed
  have "?P (st, ss)" using assms(2,3) by (simp add: swept_lists_def)
  with step have "?P (scheduler_run ?sweep ws (st, ss))" by (rule scheduler_run_invariant [where P = ?P])
  moreover note scheduler_run_stopped [of ?sweep k vs "(st, ss)"]
  moreover have "con_generation_enabled c = generation_enabled s"
    using boot_Inr(3) [OF assms(1)] by (simp add: build_container_def messaging_def)
  ultimately show ?thesis by (auto simp: scheduler_start_running)
qed

lemma scheduler_survives_witness:
  "store_ok (fst (scheduler_run (scheduled_refresh (build_container quiet_parties default_settings)
     (memory_ops ascending ascending ''reco-events'')) [False, False, True] (empty_store, sample_stamps)))"
proof -
  have topic: "con_topic (build_container quiet_parties default_settings) = ''reco-events''" by (simp add: default_settings_def)
  show ?thesis
    using scheduler_survives [OF local_boots store_ok_empty store_sound_empty, where iu = ascending and ig = ascending
      and ss = sample_stamps and ws = "[False, False, True]", unfolded topic, THEN conjunct1]
    by (elim exE conjE) (simp only: fst_conv)
qed

end
