(* ===== verification/Rows.thy ===== *)
theory Rows
  imports Scoring Wire
begin

text \<open>
  The tables of the SQL backend (\<open>infrastructure/persistence/sql/models.py\<close>) and the mapping between
  their rows and the domain (\<open>sql/mapping.py\<close>). A row is a record of Python values; what the columns
  make of them on the way to PostgreSQL and back is \<open>columns\<close>, three parameters with the laws that
  JSONB, \<open>vector\<close> and \<open>timestamptz\<close> document. The lemmas at the end show that a game, a profile
  and a recommendation come back as they were written, up to what those columns change.
\<close>

section \<open>Rows\<close>

record game_row =
  gr_game_id :: uuid
  gr_developer_id :: uuid
  gr_title :: string
  gr_genres :: "string list"
  gr_tags :: "string list"
  gr_description :: string
  gr_embedding :: "(string, json) dict"
  gr_dense :: "real list option"
  gr_is_published :: bool
  gr_purchase_count :: int
  gr_published_at :: "datetime option"

record preference_row =
  pr_user_id :: uuid
  pr_taste :: "(string, json) dict"
  pr_taste_dense :: "real list option"
  pr_owned :: "string list"
  pr_history :: "json list"
  pr_signal_count :: int
  pr_updated_at :: "datetime option"

record ownership_row =
  ow_user_id :: uuid
  ow_game_id :: uuid
  ow_acquired_at :: datetime
  ow_counted :: bool

record recommendation_row =
  rr_id :: uuid
  rr_user_id :: uuid
  rr_game_id :: uuid
  rr_score :: real
  rr_source :: string
  rr_rank :: int
  rr_reasons :: "string list"
  rr_generated_at :: datetime

record outbox_row =
  ox_id :: uuid
  ox_aggregate_type :: string
  ox_aggregate_id :: uuid
  ox_event_type :: string
  ox_topic :: string
  ox_partition_key :: string
  ox_payload :: "(string, json) dict"
  ox_headers :: "(string, string) dict"
  ox_correlation_id :: "string option"
  ox_occurred_at :: datetime
  ox_published_at :: "datetime option"
  ox_attempts :: int
  ox_last_error :: "string option"
  ox_next_attempt_at :: "datetime option"
  ox_dead_lettered :: bool

record processed_event_row =
  pe_event_id :: uuid
  pe_processed_at :: datetime

text \<open>A row object before any attribute is assigned: the key it was made with and the defaults of the table.\<close>

definition new_game_row :: "uuid \<Rightarrow> game_row" where
  "new_game_row k =
     \<lparr>gr_game_id = k, gr_developer_id = 0, gr_title = [], gr_genres = [], gr_tags = [], gr_description = [],
      gr_embedding = [], gr_dense = None, gr_is_published = True, gr_purchase_count = 0, gr_published_at = None\<rparr>"

definition new_preference_row :: "uuid \<Rightarrow> preference_row" where
  "new_preference_row k =
     \<lparr>pr_user_id = k, pr_taste = [], pr_taste_dense = None, pr_owned = [], pr_history = [],
      pr_signal_count = 0, pr_updated_at = None\<rparr>"

section \<open>The mapping\<close>

text \<open>A naive timestamp is read as UTC.\<close>

definition aware :: "datetime \<Rightarrow> datetime" where
  "aware moment = (if offset moment = None then DateTime (wall moment) (Some 0) else moment)"

definition dense_to_domain :: "real list option \<Rightarrow> dense_embedding" where
  "dense_to_domain values = (case values of None \<Rightarrow> dense_empty | Some vs \<Rightarrow> dense_of vs)"

definition dense_to_column :: "dense_embedding \<Rightarrow> real list option" where
  "dense_to_column d = (if dense_is_empty d then None else Some (dense_values d))"

text \<open>\<open>{name: float(value) for name, value in column.items()}\<close>\<close>

definition floats_of :: "(string \<Rightarrow> real option) \<Rightarrow> (string, json) dict \<Rightarrow> exn + (string, real) dict" where
  "floats_of rf d = mapE (\<lambda>(name, value). bindE (py_float rf value) (\<lambda>x. Inr (name, x))) d"

definition weights_column :: "embedding \<Rightarrow> (string, json) dict" where
  "weights_column e = map (\<lambda>(name, value). (name, JFloat value)) (weights e)"

definition game_to_domain :: "(string \<Rightarrow> real option) \<Rightarrow> game_row \<Rightarrow> exn + game_profile" where
  "game_to_domain rf row =
     bindE (floats_of rf (gr_embedding row)) (\<lambda>e. mk_game_profile
       \<lparr>game_id = GameId (gr_game_id row), developer_id = UserId (gr_developer_id row), title = gr_title row,
        genres = gr_genres row, tags = gr_tags row, description = gr_description row,
        published_at = map_option aware (gr_published_at row), is_published = gr_is_published row,
        purchase_count = gr_purchase_count row, embedding = mk_embedding e,
        dense = dense_to_domain (gr_dense row)\<rparr>)"

definition write_game :: "game_row \<Rightarrow> game_profile \<Rightarrow> game_row" where
  "write_game row game = row
     \<lparr>gr_game_id := game_uuid (game_id game), gr_developer_id := user_uuid (developer_id game),
      gr_title := title game, gr_genres := genres game, gr_tags := tags game,
      gr_description := description game, gr_embedding := weights_column (embedding game),
      gr_dense := dense_to_column (dense game), gr_is_published := is_published game,
      gr_purchase_count := purchase_count game, gr_published_at := published_at game\<rparr>"

definition is_record :: "json \<Rightarrow> bool" where
  "is_record entry =
     (case entry of JDict d \<Rightarrow> ''game_id'' \<in> fst ` set d \<and> ''weight'' \<in> fst ` set d | _ \<Rightarrow> False)"

definition record_of :: "(string \<Rightarrow> real option) \<Rightarrow> (real \<Rightarrow> string) \<Rightarrow> json \<Rightarrow> exn + signal_record" where
  "record_of rf fs entry =
     (case entry of
        JDict d \<Rightarrow>
          bindE (uuid_of (py_str fs (json_get d ''game_id''))) (\<lambda>u.
          bindE (py_float rf (json_get d ''weight'')) (\<lambda>w.
          Inr \<lparr>signal_game = GameId u, signal_weight = w\<rparr>))
      | _ \<Rightarrow> Inl (TypeError ''the entry is not a mapping''))"

definition preference_to_domain ::
  "(string \<Rightarrow> real option) \<Rightarrow> (real \<Rightarrow> string) \<Rightarrow> preference_row \<Rightarrow> exn + user_preference" where
  "preference_to_domain rf fs row =
     bindE (floats_of rf (pr_taste row)) (\<lambda>t.
     bindE (mapE uuid_of (pr_owned row)) (\<lambda>us.
     bindE (mapE (record_of rf fs) (filter is_record (pr_history row))) (\<lambda>h.
     Inr \<lparr>pref_user_id = UserId (pr_user_id row), taste = mk_embedding t,
          taste_dense = dense_to_domain (pr_taste_dense row), owned = fset_of_list (map GameId us),
          history = h, signal_count = pr_signal_count row,
          updated_at = map_option aware (pr_updated_at row)\<rparr>)))"

definition history_column :: "signal_record list \<Rightarrow> json list" where
  "history_column h =
     map (\<lambda>r. JDict [(''game_id'', JStr (game_str (signal_game r))), (''weight'', JFloat (signal_weight r))]) h"

definition write_preference :: "preference_row \<Rightarrow> user_preference \<Rightarrow> preference_row" where
  "write_preference row p = row
     \<lparr>pr_user_id := user_uuid (pref_user_id p), pr_taste := weights_column (taste p),
      pr_taste_dense := dense_to_column (taste_dense p),
      pr_owned := sorted_list_of_set (game_str ` fset (owned p)),
      pr_history := history_column (history p), pr_signal_count := signal_count p,
      pr_updated_at := updated_at p\<rparr>"

text \<open>\<open>RecommendationSource(raw)\<close>: an unknown value is a \<open>ValueError\<close>.\<close>

definition source_of :: "string \<Rightarrow> exn + recommendation_source" where
  "source_of raw =
     (if raw = ''CONTENT'' then Inr CONTENT else if raw = ''COLLAB'' then Inr COLLAB
      else if raw = ''HYBRID'' then Inr HYBRID else if raw = ''FALLBACK'' then Inr FALLBACK
      else Inl (ValueError (py_repr raw @ '' is not a valid RecommendationSource'')))"

definition recommendation_to_domain :: "recommendation_row \<Rightarrow> exn + recommendation" where
  "recommendation_to_domain row =
     bindE (source_of (rr_source row)) (\<lambda>s. mk_recommendation
       \<lparr>rec_id = RecommendationId (rr_id row), rec_user_id = UserId (rr_user_id row),
        rec_game_id = GameId (rr_game_id row), rec_score = rr_score row, rec_source = s,
        rec_rank = rr_rank row, rec_generated_at = aware (rr_generated_at row), rec_reasons = rr_reasons row\<rparr>)"

definition recommendation_row_of :: "recommendation \<Rightarrow> recommendation_row" where
  "recommendation_row_of r =
     \<lparr>rr_id = rec_uuid (rec_id r), rr_user_id = user_uuid (rec_user_id r), rr_game_id = game_uuid (rec_game_id r),
      rr_score = rec_score r, rr_source = source_str (rec_source r), rr_rank = rec_rank r,
      rr_reasons = rec_reasons r, rr_generated_at = rec_generated_at r\<rparr>"

section \<open>The columns\<close>

text \<open>
  What a JSONB, a \<open>vector\<close> and a \<open>timestamptz\<close> column give back for a value. JSONB keeps the pairs
  of an object in an order of its own and may read a float without fraction back as an integer; a
  \<open>vector\<close> has single precision; a timestamp comes back with another offset, or with none, in which
  case it is in UTC.
\<close>

record columns =
  col_json :: "json \<Rightarrow> json"
  col_vector :: "real list \<Rightarrow> real list"
  col_time :: "datetime \<Rightarrow> datetime"

definition faithful_columns :: "columns \<Rightarrow> bool" where
  "faithful_columns c \<longleftrightarrow>
     (\<forall>s. col_json c (JStr s) = JStr s) \<and>
     (\<forall>x. col_json c (JFloat x) = JFloat x \<or> (\<exists>i. of_int i = x \<and> col_json c (JFloat x) = JInt i)) \<and>
     (\<forall>d. dict_ok d \<longrightarrow> (\<exists>d'. col_json c (JDict d) = JDict d' \<and>
        mset d' = mset (map (\<lambda>(k, v). (k, col_json c v)) d))) \<and>
     (\<forall>v. length (col_vector c v) = length v) \<and>
     (\<forall>t. offset t \<noteq> None \<longrightarrow> instant (aware (col_time c t)) = instant t)"

definition json_dict :: "json \<Rightarrow> (string, json) dict" where
  "json_dict j = (case j of JDict d \<Rightarrow> d | _ \<Rightarrow> [])"

text \<open>The rows a later transaction reads.\<close>

definition stored_game :: "columns \<Rightarrow> game_row \<Rightarrow> game_row" where
  "stored_game c row = row
     \<lparr>gr_embedding := json_dict (col_json c (JDict (gr_embedding row))),
      gr_dense := map_option (col_vector c) (gr_dense row),
      gr_published_at := map_option (col_time c) (gr_published_at row)\<rparr>"

definition stored_preference :: "columns \<Rightarrow> preference_row \<Rightarrow> preference_row" where
  "stored_preference c row = row
     \<lparr>pr_taste := json_dict (col_json c (JDict (pr_taste row))),
      pr_taste_dense := map_option (col_vector c) (pr_taste_dense row),
      pr_history := map (col_json c) (pr_history row),
      pr_updated_at := map_option (col_time c) (pr_updated_at row)\<rparr>"

definition stored_recommendation :: "columns \<Rightarrow> recommendation_row \<Rightarrow> recommendation_row" where
  "stored_recommendation c row = row\<lparr>rr_generated_at := col_time c (rr_generated_at row)\<rparr>"

section \<open>What comes back\<close>

definition kept_embedding :: "columns \<Rightarrow> embedding \<Rightarrow> embedding" where
  "kept_embedding c e =
     (case floats_of (\<lambda>_. None) (json_dict (col_json c (JDict (weights_column e)))) of
        Inr ws \<Rightarrow> mk_embedding ws
      | Inl x \<Rightarrow> emb_empty)"

definition kept_dense :: "columns \<Rightarrow> dense_embedding \<Rightarrow> dense_embedding" where
  "kept_dense c d = DenseEmbedding (col_vector c (dense_values d))"

definition kept_time :: "columns \<Rightarrow> datetime \<Rightarrow> datetime" where
  "kept_time c t = aware (col_time c t)"

definition kept_game :: "columns \<Rightarrow> game_profile \<Rightarrow> game_profile" where
  "kept_game c g = g
     \<lparr>embedding := kept_embedding c (embedding g), dense := kept_dense c (dense g),
      published_at := map_option (kept_time c) (published_at g)\<rparr>"

definition kept_preference :: "columns \<Rightarrow> user_preference \<Rightarrow> user_preference" where
  "kept_preference c p = p
     \<lparr>taste := kept_embedding c (taste p), taste_dense := kept_dense c (taste_dense p),
      updated_at := map_option (kept_time c) (updated_at p)\<rparr>"

definition kept_recommendation :: "columns \<Rightarrow> recommendation \<Rightarrow> recommendation" where
  "kept_recommendation c r = r\<lparr>rec_generated_at := kept_time c (rec_generated_at r)\<rparr>"

lemma map_of_mset:
  assumes "dict_ok d" "mset d' = mset d"
  shows "dict_ok d'" "map_of d' = map_of d"
proof -
  have "mset (map fst d') = mset (map fst d)" using assms(2) by simp
  then show ok: "dict_ok d'" using assms(1) by (metis mset_eq_imp_distinct_iff)
  have "set d' = set d" using assms(2) by (rule mset_eq_setD)
  then show "map_of d' = map_of d"
    using dict_ok_in_set [OF ok] dict_ok_in_set [OF assms(1)] by (metis map_of_eqI option.exhaust fun_eq_iff)
qed

lemma floats_come_back:
  assumes "faithful_columns c" "wf_embedding e"
  shows "\<exists>ws. (\<forall>rf. floats_of rf (json_dict (col_json c (JDict (weights_column e)))) = Inr ws) \<and> mset ws = mset (weights e)"
proof -
  define num where "num = (\<lambda>j. case j of JFloat x \<Rightarrow> x | JInt i \<Rightarrow> of_int i | _ \<Rightarrow> (0 :: real))"
  have num: "py_float rf (col_json c (JFloat x)) = Inr x" "num (col_json c (JFloat x)) = x" for rf x
  proof -
    have "col_json c (JFloat x) = JFloat x \<or> (\<exists>i. of_int i = x \<and> col_json c (JFloat x) = JInt i)"
      using assms(1) by (simp add: faithful_columns_def)
    then show "py_float rf (col_json c (JFloat x)) = Inr x" "num (col_json c (JFloat x)) = x"
      by (auto simp: num_def)
  qed
  have "dict_ok (weights_column e)" using assms(2) by (simp add: weights_column_def wf_embedding_def comp_def case_prod_beta)
  then obtain d' where d': "col_json c (JDict (weights_column e)) = JDict d'"
    "mset d' = mset (map (\<lambda>(k, v). (k, col_json c v)) (weights_column e))"
    using assms(1) unfolding faithful_columns_def by blast
  have entry: "\<exists>x. v = col_json c (JFloat x)" if "(k, v) \<in> set d'" for k v
  proof -
    have "set d' = set (map (\<lambda>(k, v). (k, col_json c v)) (weights_column e))" using d'(2) by (rule mset_eq_setD)
    with that show ?thesis by (auto simp: weights_column_def)
  qed
  let ?ws = "map (\<lambda>(k, v). (k, num v)) d'"
  have "floats_of rf d' = Inr ?ws" for rf
    unfolding floats_of_def by (rule mapE_total) (auto simp: num dest!: entry)
  moreover have "mset ?ws = mset (map (\<lambda>(k, v). (k, num v)) (map (\<lambda>(k, v). (k, col_json c v)) (weights_column e)))"
    unfolding mset_map d'(2) by simp
  then have "mset ?ws = mset (weights e)"
    by (simp add: weights_column_def comp_def case_prod_beta num del: mset_map)
  ultimately show ?thesis using d'(1) by (auto simp: json_dict_def)
qed

lemma kept_embedding:
  assumes "faithful_columns c" "wf_embedding e"
  shows "\<exists>ws. (\<forall>rf. floats_of rf (json_dict (col_json c (JDict (weights_column e)))) = Inr ws) \<and>
      mk_embedding ws = kept_embedding c e"
    and "wf_embedding (kept_embedding c e)" "coord (kept_embedding c e) n = coord e n"
    and "emb_is_empty (kept_embedding c e) \<longleftrightarrow> emb_is_empty e"
proof -
  obtain ws where ws: "\<forall>rf. floats_of rf (json_dict (col_json c (JDict (weights_column e)))) = Inr ws"
    "mset ws = mset (weights e)"
    using floats_come_back [OF assms] by blast
  have kept: "kept_embedding c e = mk_embedding ws" by (simp add: kept_embedding_def ws(1))
  have ok: "dict_ok ws" "map_of ws = map_of (weights e)"
    using map_of_mset [OF _ ws(2)] assms(2) by (auto simp: wf_embedding_def)
  then show wf: "wf_embedding (kept_embedding c e)" unfolding kept by blast
  show "\<exists>ws. (\<forall>rf. floats_of rf (json_dict (col_json c (JDict (weights_column e)))) = Inr ws) \<and>
      mk_embedding ws = kept_embedding c e"
    using ws(1) kept by auto
  show co: "coord (kept_embedding c e) n = coord e n" for n
    unfolding kept using ok by (simp add: coord_mk_embedding) (simp add: coord_def dget_def)
  show "emb_is_empty (kept_embedding c e) \<longleftrightarrow> emb_is_empty e"
    using emb_is_empty_iff [OF wf] emb_is_empty_iff [OF assms(2)] co by simp
qed

lemma kept_dense:
  assumes "faithful_columns c"
  shows "dense_to_domain (map_option (col_vector c) (dense_to_column d)) = kept_dense c d"
    "dimensions (kept_dense c d) = dimensions d" "dense_is_empty (kept_dense c d) \<longleftrightarrow> dense_is_empty d"
proof -
  have len: "length (col_vector c v) = length v" for v using assms by (simp add: faithful_columns_def)
  then have nil: "col_vector c v = [] \<longleftrightarrow> v = []" for v by (metis length_0_conv)
  then show "dense_to_domain (map_option (col_vector c) (dense_to_column d)) = kept_dense c d"
    by (simp add: dense_to_domain_def dense_to_column_def kept_dense_def dense_is_empty_def dense_empty_def dense_of_def nil [THEN iffD2, OF refl])
  show "dimensions (kept_dense c d) = dimensions d" "dense_is_empty (kept_dense c d) \<longleftrightarrow> dense_is_empty d"
    by (simp_all add: kept_dense_def dimensions_def dense_is_empty_def len nil)
qed

lemma kept_time: "faithful_columns c \<Longrightarrow> offset t \<noteq> None \<Longrightarrow> instant (kept_time c t) = instant t"
  by (auto simp: faithful_columns_def kept_time_def)

lemma aware_offset: "offset (aware t) \<noteq> None"
  by (simp add: aware_def)

lemma uuid_of_str [simp]: "uuid_of (uuid_str u) = Inr u"
  by (simp add: uuid_of_def uuid_parse_str)

section \<open>Round trips\<close>

lemma game_comes_back:
  assumes c: "faithful_columns c" and wf: "wf_embedding (embedding g)" and ok: "mk_game_profile g = Inr g"
  shows "game_to_domain rf (stored_game c (write_game row g)) = Inr (kept_game c g)"
proof -
  obtain ws where ws: "\<forall>rf. floats_of rf (json_dict (col_json c (JDict (weights_column (embedding g))))) = Inr ws"
    "mk_embedding ws = kept_embedding c (embedding g)"
    using kept_embedding(1) [OF c wf] by blast
  have "game_to_domain rf (stored_game c (write_game row g)) = mk_game_profile (kept_game c g)"
    using ws
    by (cases g) (simp add: game_to_domain_def stored_game_def write_game_def kept_dense(1) [OF c] kept_game_def
        kept_time_def [abs_def] option.map_comp comp_def)
  also have "\<dots> = Inr (kept_game c g)"
  proof (cases "emb_is_empty (embedding g) \<and> (genres g \<noteq> [] \<or> tags g \<noteq> [])")
    case True
    then obtain e where e: "embed (genres g) (tags g) = Inr e" "g\<lparr>embedding := e\<rparr> = g"
      using ok by (auto simp: mk_game_profile_def res_simps split: if_splits)
    from e(2) have "e = embedding g" by (metis game_profile.select_convs(10) game_profile.surjective game_profile.update_convs(10))
    moreover have "weights (kept_embedding c (embedding g)) = weights (embedding g)"
      using kept_embedding(4) [OF c wf] True by (simp add: emb_is_empty_def)
    ultimately have "e = kept_embedding c (embedding g)" by (simp add: embedding.expand)
    with True ok e(1) kept_embedding(4) [OF c wf] show ?thesis
      by (auto simp: mk_game_profile_def kept_game_def split: if_splits)
  next
    case False
    with ok kept_embedding(4) [OF c wf] show ?thesis
      by (auto simp: mk_game_profile_def kept_game_def split: if_splits)
  qed
  finally show ?thesis .
qed

lemma preference_comes_back:
  assumes c: "faithful_columns c" and wf: "wf_embedding (taste p)"
  shows "preference_to_domain rf fs (stored_preference c (write_preference row p)) = Inr (kept_preference c p)"
proof -
  obtain ws where ws: "\<forall>rf. floats_of rf (json_dict (col_json c (JDict (weights_column (taste p))))) = Inr ws"
    "mk_embedding ws = kept_embedding c (taste p)"
    using kept_embedding(1) [OF c wf] by blast
  define us where "us = map (the \<circ> uuid_parse) (sorted_list_of_set (game_str ` fset (owned p)))"
  have us: "mapE uuid_of (sorted_list_of_set (game_str ` fset (owned p))) = Inr us" unfolding us_def
    by (rule mapE_total) (auto simp: game_str_def uuid_parse_str)
  have "fset (fset_of_list (map GameId us)) = fset (owned p)"
    by (simp add: us_def fset_of_list.rep_eq image_image game_str_def uuid_parse_str)
  then have owned: "fset_of_list (map GameId us) = owned p" by (simp only: fset_inject)
  have entry: "is_record (col_json c (JDict [(''game_id'', JStr (game_str (signal_game r))), (''weight'', JFloat (signal_weight r))]))"
    "record_of rf fs (col_json c (JDict [(''game_id'', JStr (game_str (signal_game r))), (''weight'', JFloat (signal_weight r))])) = Inr r"
    for r
  proof -
    let ?d = "[(''game_id'', JStr (game_str (signal_game r))), (''weight'', JFloat (signal_weight r))]"
    let ?e = "[(''game_id'', col_json c (JStr (game_str (signal_game r)))), (''weight'', col_json c (JFloat (signal_weight r)))]"
    have "dict_ok ?d" by simp
    then obtain d' where d': "col_json c (JDict ?d) = JDict d'" "mset d' = mset (map (\<lambda>(k, v). (k, col_json c v)) ?d)"
      using c unfolding faithful_columns_def by blast
    from d'(2) have "mset d' = mset ?e" by simp
    moreover have "dict_ok ?e" by simp
    ultimately have d: "map_of d' = map_of ?e" by (rule map_of_mset(2) [rotated])
    then have keys: "''game_id'' \<in> fst ` set d'" "''weight'' \<in> fst ` set d'"
      by (metis map_of_eq_None_iff option.distinct(1) map_of_Cons_code(2))+
    have str: "col_json c (JStr s) = JStr s" for s using c by (simp add: faithful_columns_def)
    have flt: "py_float rf (col_json c (JFloat x)) = Inr x" for x
    proof -
      have "col_json c (JFloat x) = JFloat x \<or> (\<exists>i. of_int i = x \<and> col_json c (JFloat x) = JInt i)"
        using c by (simp add: faithful_columns_def)
      then show ?thesis by auto
    qed
    show "is_record (col_json c (JDict ?d))" using keys d'(1) by (simp add: is_record_def)
    show "record_of rf fs (col_json c (JDict ?d)) = Inr r"
      unfolding d'(1) by (simp add: record_of_def json_get_def dget_def d str flt) (simp add: game_str_def)
  qed
  have keep: "filter is_record (map (col_json c) (history_column h)) = map (col_json c) (history_column h)" for h
    by (simp add: filter_id_conv history_column_def entry(1))
  have hist: "mapE (record_of rf fs) (map (col_json c) (history_column h)) = Inr h" for h
    by (induction h) (simp_all add: history_column_def entry(2))
  show ?thesis
    by (simp add: preference_to_domain_def stored_preference_def write_preference_def ws us owned [simplified] keep hist
        kept_dense(1) [OF c] kept_preference_def kept_time_def [abs_def] option.map_comp comp_def)
qed

lemma recommendation_comes_back:
  assumes "mk_recommendation r = Inr r"
  shows "recommendation_to_domain (stored_recommendation c (recommendation_row_of r)) = Inr (kept_recommendation c r)"
proof -
  have "source_of (source_str s) = Inr s" for s by (cases s) (simp_all add: source_of_def)
  with assms show ?thesis
    by (simp add: recommendation_to_domain_def stored_recommendation_def recommendation_row_of_def kept_recommendation_def
        kept_time_def mk_recommendation_def split: if_splits)
qed

section \<open>What the columns accept\<close>

text \<open>
  The types of \<open>models.py\<close>: a \<open>String(n)\<close> has at most \<open>n\<close> characters, an \<open>Integer\<close> is in 32
  bits, a \<open>Vector(n)\<close> has \<open>n\<close> coordinates, and no text column of PostgreSQL, JSONB included, holds
  the character of code 0. A row that does not fit is refused when it is flushed.
\<close>

definition text_fits :: "string \<Rightarrow> bool" where
  "text_fits s \<longleftrightarrow> CHR 0x00 \<notin> set s"

definition string_fits :: "nat \<Rightarrow> string \<Rightarrow> bool" where
  "string_fits n s \<longleftrightarrow> length s \<le> n \<and> text_fits s"

definition integer_fits :: "int \<Rightarrow> bool" where
  "integer_fits i \<longleftrightarrow> - (2 ^ 31) \<le> i \<and> i < 2 ^ 31"

definition vector_fits :: "nat \<Rightarrow> real list option \<Rightarrow> bool" where
  "vector_fits dims v = (case v of None \<Rightarrow> True | Some xs \<Rightarrow> length xs = dims)"

fun json_fits :: "json \<Rightarrow> bool" where
  "json_fits (JStr s) = text_fits s"
| "json_fits (JList xs) = list_all json_fits xs"
| "json_fits (JDict d) = list_all (\<lambda>(k, v). text_fits k \<and> json_fits v) d"
| "json_fits JNull = True"
| "json_fits (JBool b) = True"
| "json_fits (JInt i) = True"
| "json_fits (JFloat x) = True"

definition game_row_fits :: "nat \<Rightarrow> game_row \<Rightarrow> bool" where
  "game_row_fits dims r \<longleftrightarrow> string_fits MAX_TITLE_CHARS (gr_title r) \<and> list_all text_fits (gr_genres r) \<and>
     list_all text_fits (gr_tags r) \<and> text_fits (gr_description r) \<and> json_fits (JDict (gr_embedding r)) \<and>
     vector_fits dims (gr_dense r) \<and> integer_fits (gr_purchase_count r)"

definition preference_row_fits :: "nat \<Rightarrow> preference_row \<Rightarrow> bool" where
  "preference_row_fits dims r \<longleftrightarrow> json_fits (JDict (pr_taste r)) \<and> vector_fits dims (pr_taste_dense r) \<and>
     list_all text_fits (pr_owned r) \<and> list_all json_fits (pr_history r) \<and> integer_fits (pr_signal_count r)"

definition recommendation_row_fits :: "recommendation_row \<Rightarrow> bool" where
  "recommendation_row_fits r \<longleftrightarrow> string_fits 16 (rr_source r) \<and> integer_fits (rr_rank r) \<and>
     list_all text_fits (rr_reasons r)"

definition outbox_row_fits :: "outbox_row \<Rightarrow> bool" where
  "outbox_row_fits r \<longleftrightarrow> string_fits 64 (ox_aggregate_type r) \<and> string_fits 128 (ox_event_type r) \<and>
     string_fits 128 (ox_topic r) \<and> string_fits 128 (ox_partition_key r) \<and> json_fits (JDict (ox_payload r)) \<and>
     (case ox_correlation_id r of None \<Rightarrow> True | Some cid \<Rightarrow> string_fits 64 cid) \<and>
     integer_fits (ox_attempts r)"

end
