(* ===== verification/SqlOutbox.thy ===== *)
theory SqlOutbox
  imports Outbox Rows
begin

text \<open>
  The outbox store of the SQL backend (\<open>infrastructure/persistence/sql/outbox_store.py\<close>): the table
  the unit of work writes, polled by any number of replicas. A call of the store is one transaction,
  and the row locks it takes with \<open>SKIP LOCKED\<close> are gone when it ends, so calls are steps on the
  table, in the order in which they commit. The timestamps of the table are the clock's, in UTC.
  The theory shows that this store meets the contract the in-memory one meets, that a lease keeps a
  row from being handed out twice, and that a replica dying in the middle of a batch loses nothing.
\<close>

section \<open>The store\<close>

text \<open>The table, and the two counts a replica remembers from its last poll. \<open>so_lease\<close> is in microseconds.\<close>

record sql_outbox =
  so_rows :: "(uuid, outbox_row) dict"
  so_pending :: int
  so_dead_lettered :: int

record outbox_config =
  so_batch_size :: int
  so_lease :: int

definition default_outbox_config :: outbox_config where
  "default_outbox_config = \<lparr>so_batch_size = 50, so_lease = 30000000\<rparr>"

definition to_record :: "outbox_row \<Rightarrow> outbox_record" where
  "to_record row =
     \<lparr>ob_id = ox_id row, ob_aggregate_id = ox_aggregate_id row, ob_aggregate_type = ox_aggregate_type row,
      ob_event_type = ox_event_type row, ob_payload = ox_payload row, ob_occurred_at = aware (ox_occurred_at row),
      ob_topic = ox_topic row, ob_partition_key = ox_partition_key row,
      ob_correlation_id = ox_correlation_id row, ob_published_at = map_option aware (ox_published_at row),
      ob_attempts = ox_attempts row, ob_last_error = ox_last_error row,
      ob_next_attempt_at = map_option aware (ox_next_attempt_at row),
      ob_dead_lettered = ox_dead_lettered row, ob_headers = ox_headers row\<rparr>"

text \<open>The \<open>WHERE\<close> of the poll.\<close>

definition row_is_due :: "datetime \<Rightarrow> outbox_row \<Rightarrow> bool" where
  "row_is_due now row \<longleftrightarrow> ox_published_at row = None \<and> \<not> ox_dead_lettered row \<and>
     (case ox_next_attempt_at row of None \<Rightarrow> True | Some t \<Rightarrow> instant t \<le> instant now)"

definition refresh_counts :: "sql_outbox \<Rightarrow> sql_outbox" where
  "refresh_counts st = st
     \<lparr>so_pending := int (length (filter (\<lambda>r. ox_published_at r = None \<and> \<not> ox_dead_lettered r) (map snd (so_rows st)))),
      so_dead_lettered := int (length (filter ox_dead_lettered (map snd (so_rows st))))\<rparr>"

definition plus_micros :: "datetime \<Rightarrow> int \<Rightarrow> datetime" where
  "plus_micros t n = DateTime (wall t + n) (offset t)"

text \<open>The records are made before the lease is written into their rows.\<close>

definition sql_due :: "outbox_config \<Rightarrow> sql_outbox \<Rightarrow> datetime \<Rightarrow> int \<Rightarrow> outbox_record list \<times> sql_outbox" where
  "sql_due cfg st now limit =
     (let rows = take (nat (min limit (so_batch_size cfg)))
            (sort_key (\<lambda>r. instant (ox_occurred_at r)) (filter (row_is_due now) (map snd (so_rows st))));
          records = map to_record rows;
          leased = fold (\<lambda>r. AList.update (ox_id r) (r\<lparr>ox_next_attempt_at := Some (plus_micros now (so_lease cfg))\<rparr>))
            rows (so_rows st)
      in (records, refresh_counts (st\<lparr>so_rows := leased\<rparr>)))"

text \<open>\<open>UPDATE outbox SET ... WHERE id = ...\<close>\<close>

definition apply_values :: "uuid \<Rightarrow> (outbox_row \<Rightarrow> outbox_row) \<Rightarrow> sql_outbox \<Rightarrow> sql_outbox" where
  "apply_values i f st = st\<lparr>so_rows := map (\<lambda>(k, row). (k, if k = i then f row else row)) (so_rows st)\<rparr>"

definition sql_record_published :: "outbox_record \<Rightarrow> sql_outbox \<Rightarrow> sql_outbox" where
  "sql_record_published r =
     apply_values (ob_id r) (\<lambda>row. row\<lparr>ox_published_at := ob_published_at r, ox_attempts := ob_attempts r,
       ox_last_error := None\<rparr>)"

definition sql_record_failure :: "outbox_record \<Rightarrow> sql_outbox \<Rightarrow> sql_outbox" where
  "sql_record_failure r =
     apply_values (ob_id r) (\<lambda>row. row\<lparr>ox_attempts := ob_attempts r, ox_last_error := ob_last_error r,
       ox_next_attempt_at := ob_next_attempt_at r, ox_dead_lettered := ob_dead_lettered r\<rparr>)"

definition sql_outbox_store :: "outbox_config \<Rightarrow> sql_outbox outbox_store_ops" where
  "sql_outbox_store cfg =
     \<lparr>os_pending_count = so_pending, os_dlq_depth = so_dead_lettered, os_due = sql_due cfg,
      os_record_published = sql_record_published, os_record_failure = sql_record_failure\<rparr>"

section \<open>The table as a mapping of records\<close>

definition sql_recs :: "sql_outbox \<Rightarrow> uuid \<rightharpoonup> outbox_record" where
  "sql_recs st k = map_option to_record (map_of (so_rows st) k)"

lemma instant_aware [simp]: "instant (aware t) = instant t"
  by (simp add: instant_def aware_def)

lemma to_record_simps [simp]:
  "ob_id (to_record row) = ox_id row" "is_due now (to_record row) = row_is_due now row"
  "instant (ob_occurred_at (to_record row)) = instant (ox_occurred_at row)"
  "ob_dead_lettered (to_record row) = ox_dead_lettered row"
  "ob_published_at (to_record row) = None \<longleftrightarrow> ox_published_at row = None"
  by (simp_all add: to_record_def is_due_def is_pending_def row_is_due_def split: option.splits)

lemma to_record_leased:
  "to_record (row\<lparr>ox_next_attempt_at := t\<rparr>) = (to_record row)\<lparr>ob_next_attempt_at := map_option aware t\<rparr>"
  by (simp add: to_record_def)

lemma so_rows_counts [simp]: "so_rows (refresh_counts st) = so_rows st"
  by (simp add: refresh_counts_def)

lemma map_of_apply_values:
  "map_of (so_rows (apply_values i f st)) k = (if k = i then map_option f (map_of (so_rows st) k) else map_of (so_rows st) k)"
proof -
  have "map_of (map (\<lambda>(k, row). (k, if k = i then f row else row)) d) k =
      (if k = i then map_option f (map_of d k) else map_of d k)" for d
    by (induction d) auto
  then show ?thesis by (simp add: apply_values_def)
qed

lemma keyed_apply_values:
  assumes "keyed ox_id (so_rows st)" "\<And>row. ox_id (f row) = ox_id row"
  shows "keyed ox_id (so_rows (apply_values i f st))"
proof -
  have "map fst (so_rows (apply_values i f st)) = map fst (so_rows st)" by (simp add: apply_values_def comp_def case_prod_beta)
  with assms show ?thesis by (auto simp: keyed_iff map_of_apply_values simp del: map_of_eq_Some_iff split: if_splits)
qed

lemma map_of_leased:
  assumes "distinct (map ox_id rows)" "\<forall>r \<in> set rows. ox_id (f r) = ox_id r"
  shows "map_of (fold (\<lambda>r. AList.update (ox_id r) (f r)) rows d) k =
    (case find (\<lambda>r. ox_id r = k) rows of None \<Rightarrow> map_of d k | Some r \<Rightarrow> Some (f r))"
  using assms
proof (induction rows arbitrary: d)
  case Nil
  then show ?case by simp
next
  case (Cons r rows)
  have "find (\<lambda>q. ox_id q = ox_id r) rows = None" using Cons.prems(1) unfolding find_None_iff by (simp add: image_iff) metis
  with Cons show ?case by (auto simp: dict_simps split: option.splits)
qed

lemma find_key: "distinct (map f xs) \<Longrightarrow> x \<in> set xs \<Longrightarrow> find (\<lambda>y. f y = f x) xs = Some x"
  by (induction xs) (auto simp: image_iff)

lemma keyed_leased:
  "keyed ox_id d \<Longrightarrow> \<forall>r \<in> set rows. ox_id (f r) = ox_id r \<Longrightarrow>
    keyed ox_id (fold (\<lambda>r. AList.update (ox_id r) (f r)) rows d)"
  by (induction rows arbitrary: d) (simp_all add: keyed_update)

lemma insort_key_map: "insort_key key (f x) (map f xs) = map f (insort_key (\<lambda>x. key (f x)) x xs)"
  by (induction xs) auto

lemma sort_key_map: "sort_key key (map f xs) = map f (sort_key (\<lambda>x. key (f x)) xs)"
  by (induction xs) (simp_all add: insort_key_map sort_key_def)

text \<open>What a poll hands out, and the table it leaves.\<close>

lemma sql_due_spec:
  assumes "keyed ox_id (so_rows st)" "sql_due cfg st now limit = (rs, st')"
  shows "best_first (sql_recs st) (is_due now) (\<lambda>r. instant (ob_occurred_at r)) (max 0 (min limit (so_batch_size cfg))) rs"
    and "keyed ox_id (so_rows st')"
    and "k \<notin> ob_id ` set rs \<Longrightarrow> map_of (so_rows st') k = map_of (so_rows st) k"
    and "r \<in> set rs \<Longrightarrow> \<exists>row. map_of (so_rows st) (ob_id r) = Some row \<and> to_record row = r \<and> row_is_due now row \<and>
      map_of (so_rows st') (ob_id r) = Some (row\<lparr>ox_next_attempt_at := Some (plus_micros now (so_lease cfg))\<rparr>)"
proof -
  let ?n = "nat (min limit (so_batch_size cfg))"
  let ?all = "filter (row_is_due now) (map snd (so_rows st))"
  let ?lease = "\<lambda>r. r\<lparr>ox_next_attempt_at := Some (plus_micros now (so_lease cfg))\<rparr>"
  define rows where "rows = take ?n (sort_key (\<lambda>r. instant (ox_occurred_at r)) ?all)"
  have rs: "rs = map to_record rows" and st': "so_rows st' = fold (\<lambda>r. AList.update (ox_id r) (?lease r)) rows (so_rows st)"
    using arg_cong [where f = fst, OF assms(2)] arg_cong [where f = "so_rows \<circ> snd", OF assms(2)]
    by (simp_all add: sql_due_def rows_def Let_def)
  have row: "map_of (so_rows st) (ox_id r) = Some r \<and> row_is_due now r" if "r \<in> set rows" for r
  proof -
    have "r \<in> set ?all" using that by (auto simp: rows_def dest: in_set_takeD)
    then obtain k where k: "(k, r) \<in> set (so_rows st)" "row_is_due now r" by auto
    have ok: "dict_ok (so_rows st)" using assms(1) by (simp add: keyed_def)
    have "map_of (so_rows st) k = Some r" using k(1) dict_ok_in_set [OF ok] by blast
    with keyedD [OF assms(1) this] k(2) show ?thesis by simp
  qed
  have dist: "distinct (map ox_id (map snd (so_rows st)))"
  proof -
    have "map ox_id (map snd (so_rows st)) = map fst (so_rows st)"
      using assms(1) by (auto simp: keyed_def)
    with assms(1) show ?thesis unfolding keyed_def by (simp only:)
  qed
  then have "distinct (map ox_id ?all)" by (simp only: distinct_map_filter)
  then have "distinct (map ox_id (sort_key (\<lambda>r. instant (ox_occurred_at r)) ?all))"
    by (metis distinct_map distinct_sort set_sort)
  then have ids: "distinct (map ox_id rows)" unfolding rows_def by (simp add: take_map [symmetric] distinct_take)
  note find = find_key [OF ids]
  note look = map_of_leased [OF ids, of ?lease "so_rows st"]
  show "keyed ox_id (so_rows st')" unfolding st' by (rule keyed_leased [OF assms(1)]) simp
  show "map_of (so_rows st') k = map_of (so_rows st) k" if "k \<notin> ob_id ` set rs"
  proof -
    have "find (\<lambda>r. ox_id r = k) rows = None" using that by (auto simp: find_None_iff rs image_iff)
    with look [of k] show ?thesis by (simp add: st')
  qed
  show "\<exists>row. map_of (so_rows st) (ob_id r) = Some row \<and> to_record row = r \<and> row_is_due now row \<and>
      map_of (so_rows st') (ob_id r) = Some (?lease row)" if r: "r \<in> set rs"
  proof -
    obtain q where q: "q \<in> set rows" "r = to_record q" using r by (auto simp: rs)
    with row [OF q(1)] find [OF q(1)] look [of "ox_id q"] show ?thesis by (auto simp: st' simp del: map_of_eq_Some_iff)
  qed
  show "best_first (sql_recs st) (is_due now) (\<lambda>r. instant (ob_occurred_at r)) (max 0 (min limit (so_batch_size cfg))) rs"
    unfolding best_first_def
  proof (intro exI conjI)
    let ?xs = "map to_record ?all"
    have "distinct (map ob_id ?xs)" using \<open>distinct (map ox_id ?all)\<close> by (simp add: comp_def)
    then show "distinct ?xs" unfolding distinct_map [of ob_id] by blast
    show "set ?xs = {v \<in> ran (sql_recs st). is_due now v}"
    proof -
      have "ran (sql_recs st) = to_record ` ran (map_of (so_rows st))" by (auto simp: ran_def sql_recs_def)
      also have "ran (map_of (so_rows st)) = set (map snd (so_rows st))"
        by (rule set_values [symmetric]) (use assms(1) in \<open>simp add: keyed_def\<close>)
      finally show ?thesis by auto
    qed
    show "rs = py_take (max 0 (min limit (so_batch_size cfg))) (sort_key (\<lambda>r. instant (ob_occurred_at r)) ?xs)"
    proof -
      have "sort_key (\<lambda>r. instant (ob_occurred_at r)) ?xs = map to_record (sort_key (\<lambda>r. instant (ox_occurred_at r)) ?all)"
        by (simp add: sort_key_map)
      moreover have "nat (max 0 (min limit (so_batch_size cfg))) = ?n" by simp
      ultimately show ?thesis by (simp add: rs rows_def py_take_def take_map)
    qed
  qed
qed

lemma same_eventD:
  "same_event q r \<Longrightarrow> ob_id r = ob_id q \<and> ob_aggregate_id r = ob_aggregate_id q \<and> ob_aggregate_type r = ob_aggregate_type q
     \<and> ob_event_type r = ob_event_type q \<and> ob_payload r = ob_payload q \<and> ob_occurred_at r = ob_occurred_at q
     \<and> ob_topic r = ob_topic q \<and> ob_partition_key r = ob_partition_key q \<and> ob_correlation_id r = ob_correlation_id q
     \<and> ob_headers r = ob_headers q"
  by (cases q; cases r) (simp add: same_event_def)

lemma published_record:
  "same_event (to_record row) r \<Longrightarrow> ox_dead_lettered row = ob_dead_lettered r \<Longrightarrow> ob_last_error r = None \<Longrightarrow>
    to_record (row\<lparr>ox_published_at := p, ox_attempts := ob_attempts r, ox_last_error := None\<rparr>) =
    r\<lparr>ob_published_at := map_option aware p, ob_next_attempt_at := ob_next_attempt_at (to_record row)\<rparr>"
  by (drule same_eventD) (rule outbox_record.equality; simp add: to_record_def)

lemma failed_record:
  "same_event (to_record row) r \<Longrightarrow> map_option aware (ox_published_at row) = ob_published_at r \<Longrightarrow>
    to_record (row\<lparr>ox_attempts := ob_attempts r, ox_last_error := ob_last_error r,
      ox_next_attempt_at := t, ox_dead_lettered := ob_dead_lettered r\<rparr>) =
    r\<lparr>ob_next_attempt_at := map_option aware t\<rparr>"
  by (drule same_eventD) (rule outbox_record.equality; simp add: to_record_def)

interpretation sql_store: outbox_store "sql_outbox_store cfg" "\<lambda>st. keyed ox_id (so_rows st)" sql_recs
  "\<lambda>n. max 0 (min n (so_batch_size cfg))"
  for cfg
proof (unfold_locales, goal_cases)
  case (1 st k r)
  then show ?case by (auto simp: sql_recs_def dest: keyedD)
next
  case (2 st now n rs st')
  then show ?case using sql_due_spec(1) by (simp add: sql_outbox_store_def)
next
  case (3 st now n rs st')
  then show ?case using sql_due_spec(2) by (simp add: sql_outbox_store_def)
next
  case (4 st now n rs st' k)
  then show ?case using sql_due_spec(3) by (simp add: sql_outbox_store_def sql_recs_def)
next
  case (5 st now n rs st' r)
  then have "sql_due cfg st now n = (rs, st')" by (simp add: sql_outbox_store_def)
  from sql_due_spec(4) [OF 5(1) this 5(3)] show ?case
    by (auto simp: sql_recs_def to_record_leased)
next
  case (6 st r)
  then show ?case by (simp add: sql_outbox_store_def sql_record_published_def keyed_apply_values)
next
  case (7 st r q)
  then obtain row where row: "map_of (so_rows st) (ob_id r) = Some row" "q = to_record row" by (auto simp: sql_recs_def)
  then have "sql_recs (sql_record_published r st) = (sql_recs st)(ob_id r \<mapsto>
      r\<lparr>ob_published_at := map_option aware (ob_published_at r), ob_next_attempt_at := ob_next_attempt_at q\<rparr>)"
    using published_record [of row r "ob_published_at r"] 7
    by (simp add: fun_eq_iff sql_recs_def sql_record_published_def map_of_apply_values)
  then show ?case by (auto simp: sql_outbox_store_def)
next
  case (8 st r)
  then show ?case by (simp add: sql_outbox_store_def sql_record_failure_def keyed_apply_values)
next
  case (9 st r q)
  then obtain row where row: "map_of (so_rows st) (ob_id r) = Some row" "q = to_record row" by (auto simp: sql_recs_def)
  then have "map_option aware (ox_published_at row) = ob_published_at r" using 9(4) by (simp add: to_record_def)
  then have "sql_recs (sql_record_failure r st) = (sql_recs st)(ob_id r \<mapsto>
      r\<lparr>ob_next_attempt_at := map_option aware (ob_next_attempt_at r)\<rparr>)"
    using failed_record [of row r "ob_next_attempt_at r"] 9 row
    by (simp add: fun_eq_iff sql_recs_def sql_record_failure_def map_of_apply_values)
  then show ?case by (auto simp: sql_outbox_store_def option.map_comp comp_def)
qed

section \<open>Replicas that share the table\<close>

text \<open>The calls of any number of replicas, in the order in which they commit.\<close>

datatype relay_op = Poll datetime int | Published outbox_record | Failed outbox_record

fun relay :: "outbox_config \<Rightarrow> relay_op list \<Rightarrow> sql_outbox \<Rightarrow> sql_outbox" where
  "relay cfg [] st = st"
| "relay cfg (Poll now limit # ops) st = relay cfg ops (snd (sql_due cfg st now limit))"
| "relay cfg (Published r # ops) st = relay cfg ops (sql_record_published r st)"
| "relay cfg (Failed r # ops) st = relay cfg ops (sql_record_failure r st)"

text \<open>An operation that leaves alone the row of id \<open>i\<close> under a lease that ends at the instant \<open>expiry\<close>.\<close>

fun keeps_lease :: "uuid \<Rightarrow> int \<Rightarrow> relay_op \<Rightarrow> bool" where
  "keeps_lease i expiry (Poll now limit) \<longleftrightarrow> instant now < expiry"
| "keeps_lease i expiry (Published r) \<longleftrightarrow> ob_id r \<noteq> i"
| "keeps_lease i expiry (Failed r) \<longleftrightarrow> ob_id r \<noteq> i"

lemma instant_plus_micros [simp]: "instant (plus_micros t n) = instant t + n"
  by (simp add: instant_def plus_micros_def split: option.split)

lemma not_handed_out:
  assumes "keyed ox_id (so_rows st)" "map_of (so_rows st) i = Some row" "\<not> row_is_due now row"
  shows "i \<notin> ob_id ` set (fst (sql_due cfg st now limit))"
    and "map_of (so_rows (snd (sql_due cfg st now limit))) i = Some row"
    and "keyed ox_id (so_rows (snd (sql_due cfg st now limit)))"
proof -
  obtain rs st' where d: "sql_due cfg st now limit = (rs, st')" by fastforce
  show i: "i \<notin> ob_id ` set (fst (sql_due cfg st now limit))"
    using sql_due_spec(4) [OF assms(1) d] assms(2,3) by (fastforce simp: d)
  then show "map_of (so_rows (snd (sql_due cfg st now limit))) i = Some row"
    using sql_due_spec(3) [OF assms(1) d, of i] assms(2) by (simp add: d)
  show "keyed ox_id (so_rows (snd (sql_due cfg st now limit)))"
    using sql_due_spec(2) [OF assms(1) d] by (simp add: d)
qed

lemma leased_row_stays:
  assumes "keyed ox_id (so_rows st)" "map_of (so_rows st) i = Some row" "ox_next_attempt_at row = Some t"
    and "\<forall>op \<in> set ops. keeps_lease i (instant t) op"
  shows "keyed ox_id (so_rows (relay cfg ops st)) \<and> map_of (so_rows (relay cfg ops st)) i = Some row"
  using assms(1,2,4)
proof (induction ops arbitrary: st)
  case Nil
  then show ?case by simp
next
  case (Cons op ops)
  show ?case
  proof (cases op)
    case (Poll now limit)
    have "\<not> row_is_due now row" using Cons.prems(3) assms(3) by (simp add: Poll row_is_due_def)
    note n = not_handed_out [OF Cons.prems(1,2) this, of cfg limit]
    show ?thesis using Cons.IH [OF n(3) n(2)] Cons.prems(3) by (simp add: Poll)
  next
    case (Published r)
    have "keyed ox_id (so_rows (sql_record_published r st))" "map_of (so_rows (sql_record_published r st)) i = Some row"
      using Cons.prems Published by (auto simp: sql_record_published_def map_of_apply_values keyed_apply_values)
    from Cons.IH [OF this] Cons.prems(3) show ?thesis by (simp add: Published)
  next
    case (Failed r)
    have "keyed ox_id (so_rows (sql_record_failure r st))" "map_of (so_rows (sql_record_failure r st)) i = Some row"
      using Cons.prems Failed by (auto simp: sql_record_failure_def map_of_apply_values keyed_apply_values)
    from Cons.IH [OF this] Cons.prems(3) show ?thesis by (simp add: Failed)
  qed
qed

text \<open>A replica's drain that may stop after any number of records: it dies, or the batch ends.\<close>

definition relay_step :: "outbox_config \<Rightarrow> 'e transport \<Rightarrow> sql_outbox \<Rightarrow> sql_outbox \<Rightarrow> bool" where
  "relay_step cfg tr st st' \<longleftrightarrow> (\<exists>now batch rs st1 j e n e'. sql_due cfg st now batch = (rs, st1) \<and>
     drain_records (sql_outbox_store cfg) tr now (take j rs) 0 (st1, e) = (n, st', e'))"

text \<open>What such a drain may do to a record.\<close>

definition relayed :: "outbox_record \<Rightarrow> outbox_record \<Rightarrow> bool" where
  "relayed r r' \<longleftrightarrow> r' = r \<or> attempt r r' \<or> (is_pending r \<and> (\<exists>t. r' = r\<lparr>ob_next_attempt_at := t\<rparr>))"

lemma relay_step_record:
  assumes "relay_step cfg tr st st'" "keyed ox_id (so_rows st)" "sql_recs st k = Some r"
  shows "keyed ox_id (so_rows st') \<and> (\<exists>r'. sql_recs st' k = Some r' \<and> relayed r r')"
proof -
  obtain now batch rs st1 j e n e' where d: "sql_due cfg st now batch = (rs, st1)"
    "drain_records (sql_outbox_store cfg) tr now (take j rs) 0 (st1, e) = (n, st', e')"
    using assms(1) by (auto simp: relay_step_def)
  note s = sql_due_spec [OF assms(2) d(1)]
  have held: "is_pending q \<and> sql_recs st (ob_id q) = Some q \<and> (\<exists>t. sql_recs st1 (ob_id q) = Some (q\<lparr>ob_next_attempt_at := t\<rparr>))"
    if q: "q \<in> set rs" for q
  proof -
    obtain row where row: "map_of (so_rows st) (ob_id q) = Some row" "to_record row = q" "row_is_due now row"
      "map_of (so_rows st1) (ob_id q) = Some (row\<lparr>ox_next_attempt_at := Some (plus_micros now (so_lease cfg))\<rparr>)"
      using s(4) [OF q] by blast
    have "is_pending q" using row(3) unfolding row(2) [symmetric] by (simp add: is_pending_def row_is_due_def)
    with row show ?thesis by (auto simp: sql_recs_def to_record_leased simp del: map_of_eq_Some_iff)
  qed
  then have "inj_on ob_id (set rs)" by (metis inj_onI option.inject)
  then have "distinct (map ob_id rs)" using best_first_sorted [OF s(1)] by (simp add: distinct_map)
  then have "distinct (map ob_id (take j rs))" by (simp add: take_map [symmetric])
  from sql_store.drain_records_spec [OF s(2) this _ _ d(2)] held have dr: "keyed ox_id (so_rows st')"
    "\<forall>k. k \<notin> ob_id ` set (take j rs) \<longrightarrow> sql_recs st' k = sql_recs st1 k"
    "\<forall>r \<in> set (take j rs). \<exists>r'. sql_recs st' (ob_id r) = Some r' \<and> attempt r r'"
    by (meson in_set_takeD)+
  show ?thesis
  proof (intro conjI)
    consider "k \<in> ob_id ` set (take j rs)" | "k \<notin> ob_id ` set (take j rs)" "k \<in> ob_id ` set rs" | "k \<notin> ob_id ` set rs"
      by blast
    then show "\<exists>r'. sql_recs st' k = Some r' \<and> relayed r r'"
    proof cases
      case 1
      then obtain q where q: "q \<in> set (take j rs)" "k = ob_id q" by blast
      with held [OF in_set_takeD [OF q(1)]] assms(3) have "q = r" by simp
      with dr(3) q show ?thesis by (auto simp: relayed_def)
    next
      case 2
      then obtain q where q: "q \<in> set rs" "k = ob_id q" by blast
      with held [OF q(1)] assms(3) have "q = r" by simp
      with held [OF q(1)] dr(2) 2(1) q(2) show ?thesis by (auto simp: relayed_def)
    next
      case 3
      then have "k \<notin> ob_id ` set (take j rs)" by (auto dest: in_set_takeD)
      with 3 dr(2) s(3) assms(3) show ?thesis by (auto simp: relayed_def sql_recs_def)
    qed
  qed (rule dr(1))
qed

lemma relayed_keeps:
  assumes "relayed r r'" "record_ok r"
  shows "record_ok r' \<and> ob_id r' = ob_id r \<and> ob_payload r' = ob_payload r \<and> ob_attempts r \<le> ob_attempts r' \<and>
    (\<not> is_pending r \<longrightarrow> r' = r)"
  using assms(1) unfolding relayed_def
proof (elim disjE conjE exE)
  assume "attempt r r'"
  then show ?thesis using attempt_ok attempt_id attempt_pending assms(2) by simp
next
  fix t assume "is_pending r" "r' = r\<lparr>ob_next_attempt_at := t\<rparr>"
  moreover from this(2) have "is_pending r' = is_pending r" by (simp add: is_pending_def)
  ultimately show ?thesis using assms(2) by (simp add: record_ok_def)
qed (use assms(2) in simp)

section \<open>A small table\<close>

definition sample_row :: outbox_row where
  "sample_row =
     \<lparr>ox_id = 11, ox_aggregate_type = AGGREGATE_TYPE, ox_aggregate_id = 7, ox_event_type = event_type,
      ox_topic = ''reco-events'', ox_partition_key = uuid_str 7, ox_payload = [], ox_headers = [],
      ox_correlation_id = None, ox_occurred_at = utc 0, ox_published_at = None, ox_attempts = 0,
      ox_last_error = None, ox_next_attempt_at = None, ox_dead_lettered = False\<rparr>"

definition sample_table :: sql_outbox where
  "sample_table = \<lparr>so_rows = [(11, sample_row)], so_pending = 0, so_dead_lettered = 0\<rparr>"

lemma sample_table_keyed: "keyed ox_id (so_rows sample_table)"
  by (simp add: sample_table_def sample_row_def keyed_def)

lemma sample_poll:
  "\<exists>st. sql_due default_outbox_config sample_table (utc 5) 50 = ([to_record sample_row], st)"
  by (simp add: sql_due_def sample_table_def sample_row_def row_is_due_def default_outbox_config_def)

lemma sample_table_recs: "sql_recs sample_table 11 = Some (to_record sample_row)"
  by (simp add: sql_recs_def sample_table_def)

section \<open>Leases and lost replicas\<close>

text \<open>C10: a lease keeps a row to one replica at a time. After a poll has handed out a record, no poll of any
  replica hands it out again before the lease has run out, whatever the replicas do in between, unless an
  outcome of that very record is written; and when the lease has run out, with no outcome written, because
  the replica is gone, the record is still there unchanged and due again.\<close>

theorem leases_are_exclusive:
  assumes "keyed ox_id (so_rows st)" "sql_due cfg st now limit = (rs, st1)" "r \<in> set rs"
    and "\<forall>op \<in> set ops. keeps_lease (ob_id r) (instant now + so_lease cfg) op"
  shows "(instant t < instant now + so_lease cfg \<longrightarrow>
      ob_id r \<notin> ob_id ` set (fst (sql_due cfg (relay cfg ops st1) t n))) \<and>
    (\<exists>q. sql_recs (relay cfg ops st1) (ob_id r) = Some q \<and> q\<lparr>ob_next_attempt_at := ob_next_attempt_at r\<rparr> = r \<and>
      (is_due t q \<longleftrightarrow> instant now + so_lease cfg \<le> instant t))"
proof -
  obtain row where row: "to_record row = r" "row_is_due now row"
    "map_of (so_rows st1) (ob_id r) = Some (row\<lparr>ox_next_attempt_at := Some (plus_micros now (so_lease cfg))\<rparr>)"
    using sql_due_spec(4) [OF assms(1-3)] by blast
  let ?row = "row\<lparr>ox_next_attempt_at := Some (plus_micros now (so_lease cfg))\<rparr>"
  have ops: "\<forall>op \<in> set ops. keeps_lease (ob_id r) (instant (plus_micros now (so_lease cfg))) op"
    using assms(4) by simp
  have stays: "keyed ox_id (so_rows (relay cfg ops st1))" "map_of (so_rows (relay cfg ops st1)) (ob_id r) = Some ?row"
    using leased_row_stays [OF sql_due_spec(2) [OF assms(1,2)] row(3) _ ops] by simp_all
  have due: "row_is_due t ?row \<longleftrightarrow> instant now + so_lease cfg \<le> instant t"
    using row(2) by (simp add: row_is_due_def)
  have "sql_recs (relay cfg ops st1) (ob_id r) = Some (to_record ?row)"
    using stays(2) by (simp add: sql_recs_def)
  moreover have "(to_record ?row)\<lparr>ob_next_attempt_at := ob_next_attempt_at r\<rparr> = r"
    by (simp add: to_record_leased row(1) [symmetric])
  ultimately show ?thesis using not_handed_out(1) [OF stays, of t cfg n] due by auto
qed

lemma leases_are_exclusive_witness:
  "\<exists>st1. sql_due default_outbox_config sample_table (utc 5) 50 = ([to_record sample_row], st1) \<and>
     11 \<notin> ob_id ` set (fst (sql_due default_outbox_config
       (relay default_outbox_config [Poll (utc 6) 50, Poll (utc 7) 50] st1) (utc 8) 50)) \<and>
     (\<exists>q. sql_recs (relay default_outbox_config [Poll (utc 6) 50, Poll (utc 7) 50] st1) 11 = Some q \<and>
       is_due (utc 30000005) q)"
proof -
  obtain st1 where d: "sql_due default_outbox_config sample_table (utc 5) 50 = ([to_record sample_row], st1)"
    using sample_poll by blast
  have r: "to_record sample_row \<in> set [to_record sample_row]" "ob_id (to_record sample_row) = 11"
    by (simp_all add: sample_row_def)
  have ops: "\<forall>op \<in> set [Poll (utc 6) 50, Poll (utc 7) 50].
      keeps_lease (ob_id (to_record sample_row)) (instant (utc 5) + so_lease default_outbox_config) op"
    by (simp add: default_outbox_config_def instant_def utc_def)
  note e = leases_are_exclusive [OF sample_table_keyed d r(1) ops, unfolded r(2)]
  have "instant (utc 8) < instant (utc 5) + so_lease default_outbox_config"
    "instant (utc 5) + so_lease default_outbox_config \<le> instant (utc 30000005)"
    by (simp_all add: default_outbox_config_def instant_def utc_def)
  with d e [of "utc 8" 50] e [of "utc 30000005" 50] show ?thesis by blast
qed



end
