(* ===== verification/SqlTables.thy ===== *)
theory SqlTables
  imports SqlOutbox Bus
begin

text \<open>
  The repositories and the unit of work of the SQL backend (\<open>infrastructure/persistence/sql/repositories.py\<close>,
  \<open>unit_of_work.py\<close>, \<open>processed_events.py\<close>). The tables are dictionaries keyed by the primary
  key; what a statement asks of them is written out as the text of the statement says. SQLAlchemy's
  session, with \<open>autoflush\<close> off as \<open>engine.py\<close> sets it, is the parameter \<open>se\<close>: which rows a statement
  sees, what \<open>get\<close> finds, and what \<open>flush\<close> and \<open>commit\<close> do to the objects added or changed
  since. PostgreSQL leaves rows that tie in an \<open>ORDER BY\<close> in any order; here it is the table's.
\<close>

section \<open>Tables\<close>

record tables =
  t_games :: "(uuid, game_row) dict"
  t_prefs :: "(uuid, preference_row) dict"
  t_owners :: "(uuid \<times> uuid, ownership_row) dict"
  t_recs :: "(uuid, recommendation_row) dict"
  t_outbox :: "(uuid, outbox_row) dict"
  t_processed :: "(uuid, processed_event_row) dict"

abbreviation table_rows :: "('k, 'v) dict \<Rightarrow> 'v list" where
  "table_rows t \<equiv> map snd t"

text \<open>
  The session. \<open>se_tables\<close> is what its statements see; \<open>se_object\<close> is the object it returns for a
  game row a query selects, the one it already has when there is one. \<open>se_assign_game\<close> is the
  assignment of attributes to an object that \<open>se_get_game\<close> returned.
\<close>

record ('db, 's) session_ops =
  se_open :: "'db \<Rightarrow> 's"
  se_tables :: "'s \<Rightarrow> tables"
  se_object :: "'s \<Rightarrow> game_row \<Rightarrow> game_row"
  se_get_game :: "'s \<Rightarrow> uuid \<Rightarrow> game_row option"
  se_get_pref :: "'s \<Rightarrow> uuid \<Rightarrow> preference_row option"
  se_assign_game :: "game_row \<Rightarrow> 's \<Rightarrow> 's"
  se_assign_pref :: "preference_row \<Rightarrow> 's \<Rightarrow> 's"
  se_add_game :: "game_row \<Rightarrow> 's \<Rightarrow> 's"
  se_add_pref :: "preference_row \<Rightarrow> 's \<Rightarrow> 's"
  se_add_rec :: "recommendation_row \<Rightarrow> 's \<Rightarrow> 's"
  se_add_outbox :: "outbox_row \<Rightarrow> 's \<Rightarrow> 's"
  se_execute :: "(tables \<Rightarrow> tables) \<Rightarrow> 's \<Rightarrow> 's"
  se_flush :: "'s \<Rightarrow> exn + 's"
  se_commit :: "'s \<Rightarrow> exn + 's"
  se_rollback :: "'s \<Rightarrow> 's"
  se_close :: "'s \<Rightarrow> 'db"

section \<open>Games\<close>

text \<open>\<open>None\<close> or the value of the function.\<close>

definition optionE :: "('a \<Rightarrow> exn + 'b) \<Rightarrow> 'a option \<Rightarrow> exn + 'b option" where
  "optionE f x = (case x of None \<Rightarrow> Inr None | Some a \<Rightarrow> bindE (f a) (\<lambda>b. Inr (Some b)))"

definition sql_get_game ::
  "('db, 's) session_ops \<Rightarrow> (string \<Rightarrow> real option) \<Rightarrow> 's \<Rightarrow> game_id \<Rightarrow> exn + game_profile option" where
  "sql_get_game se rf s g = optionE (game_to_domain rf) (se_get_game se s (game_uuid g))"

definition sql_upsert_game :: "('db, 's) session_ops \<Rightarrow> game_profile \<Rightarrow> 's \<Rightarrow> 's" where
  "sql_upsert_game se game s =
     (case se_get_game se s (game_uuid (game_id game)) of
        None \<Rightarrow> se_add_game se (write_game (new_game_row (game_uuid (game_id game))) game) s
      | Some row \<Rightarrow> se_assign_game se (write_game row game) s)"

definition popular_first :: "game_row \<Rightarrow> int \<times> uuid" where
  "popular_first r = (- gr_purchase_count r, gr_game_id r)"

definition sql_recommendable ::
  "('db, 's) session_ops \<Rightarrow> (string \<Rightarrow> real option) \<Rightarrow> 's \<Rightarrow> int \<Rightarrow> exn + game_profile list" where
  "sql_recommendable se rf s limit =
     mapE (game_to_domain rf) (map (se_object se s)
       (take (nat limit) (sort_key popular_first (filter gr_is_published (table_rows (t_games (se_tables se s)))))))"

definition sql_by_ids ::
  "('db, 's) session_ops \<Rightarrow> (string \<Rightarrow> real option) \<Rightarrow> 's \<Rightarrow> game_id list \<Rightarrow> exn + game_profile list" where
  "sql_by_ids se rf s ids =
     (if ids = [] then Inr []
      else mapE (game_to_domain rf) (map (se_object se s)
        (filter (\<lambda>r. gr_game_id r \<in> game_uuid ` set ids) (table_rows (t_games (se_tables se s))))))"

definition sql_count_recommendable :: "('db, 's) session_ops \<Rightarrow> 's \<Rightarrow> int" where
  "sql_count_recommendable se s = int (length (filter gr_is_published (table_rows (t_games (se_tables se s)))))"

definition sql_needing_embedding ::
  "('db, 's) session_ops \<Rightarrow> (string \<Rightarrow> real option) \<Rightarrow> 's \<Rightarrow> int \<Rightarrow> exn + game_profile list" where
  "sql_needing_embedding se rf s limit =
     mapE (game_to_domain rf) (map (se_object se s)
       (take (nat limit) (sort_key popular_first
         (filter (\<lambda>r. gr_is_published r \<and> gr_dense r = None) (table_rows (t_games (se_tables se s)))))))"

text \<open>The operator of pgvector behind \<open>cosine_distance\<close> is the parameter \<open>distance\<close>.\<close>

definition sql_nearest_to ::
  "('db, 's) session_ops \<Rightarrow> (string \<Rightarrow> real option) \<Rightarrow> (real list \<Rightarrow> real list \<Rightarrow> real) \<Rightarrow> 's \<Rightarrow> game_profile \<Rightarrow> int \<Rightarrow>
     exn + game_profile list" where
  "sql_nearest_to se rf distance s game limit =
     (if dense_is_empty (dense game) then Inr []
      else mapE (game_to_domain rf) (map (se_object se s)
        (take (nat limit) (sort_key (\<lambda>r. distance (the (gr_dense r)) (dense_values (dense game)))
          (filter (\<lambda>r. gr_is_published r \<and> gr_dense r \<noteq> None \<and> gr_game_id r \<noteq> game_uuid (game_id game))
            (table_rows (t_games (se_tables se s))))))))"

section \<open>Preferences\<close>

definition sql_get_pref ::
  "('db, 's) session_ops \<Rightarrow> (string \<Rightarrow> real option) \<Rightarrow> (real \<Rightarrow> string) \<Rightarrow> 's \<Rightarrow> user_id \<Rightarrow> exn + user_preference option" where
  "sql_get_pref se rf fs s u = optionE (preference_to_domain rf fs) (se_get_pref se s (user_uuid u))"

definition sql_upsert_pref :: "('db, 's) session_ops \<Rightarrow> user_preference \<Rightarrow> 's \<Rightarrow> 's" where
  "sql_upsert_pref se p s =
     (case se_get_pref se s (user_uuid (pref_user_id p)) of
        None \<Rightarrow> se_add_pref se (write_preference (new_preference_row (user_uuid (pref_user_id p))) p) s
      | Some row \<Rightarrow> se_assign_pref se (write_preference row p) s)"

text \<open>\<open>ORDER BY updated_at DESC NULLS LAST, user_id\<close>\<close>

definition active_first :: "preference_row \<Rightarrow> bool \<times> int \<times> uuid" where
  "active_first r =
     (case pr_updated_at r of None \<Rightarrow> (True, 0, pr_user_id r) | Some t \<Rightarrow> (False, - instant t, pr_user_id r))"

definition sql_with_signals :: "('db, 's) session_ops \<Rightarrow> 's \<Rightarrow> int \<Rightarrow> user_id list" where
  "sql_with_signals se s limit =
     map (\<lambda>r. UserId (pr_user_id r)) (take (nat limit) (sort_key active_first
       (filter (\<lambda>r. 0 < pr_signal_count r) (table_rows (t_prefs (se_tables se s))))))"

section \<open>Ownerships\<close>

text \<open>\<open>INSERT ... ON CONFLICT DO UPDATE SET counted = counted OR excluded.counted\<close>\<close>

definition insert_owner :: "datetime \<Rightarrow> uuid \<Rightarrow> uuid \<Rightarrow> bool \<Rightarrow> tables \<Rightarrow> tables" where
  "insert_owner now u g counted t = t\<lparr>t_owners := AList.update (u, g)
     (case map_of (t_owners t) (u, g) of
        None \<Rightarrow> \<lparr>ow_user_id = u, ow_game_id = g, ow_acquired_at = now, ow_counted = counted\<rparr>
      | Some row \<Rightarrow> row\<lparr>ow_counted := ow_counted row \<or> counted\<rparr>) (t_owners t)\<rparr>"

definition sql_record_owner :: "('db, 's) session_ops \<Rightarrow> datetime \<Rightarrow> user_id \<Rightarrow> game_id \<Rightarrow> bool \<Rightarrow> 's \<Rightarrow> 's" where
  "sql_record_owner se now u g counted = se_execute se (insert_owner now (user_uuid u) (game_uuid g) counted)"

definition sql_uncounted_owners :: "('db, 's) session_ops \<Rightarrow> 's \<Rightarrow> game_id \<Rightarrow> int \<Rightarrow> user_id list" where
  "sql_uncounted_owners se s g limit =
     map (\<lambda>r. UserId (ow_user_id r)) (take (nat limit) (sort_key (\<lambda>r. instant (ow_acquired_at r))
       (filter (\<lambda>r. ow_game_id r = game_uuid g \<and> \<not> ow_counted r) (table_rows (t_owners (se_tables se s))))))"

definition update_counted :: "uuid \<Rightarrow> uuid list \<Rightarrow> tables \<Rightarrow> tables" where
  "update_counted g us t = t\<lparr>t_owners :=
     map (\<lambda>(k, r). (k, if ow_game_id r = g \<and> ow_user_id r \<in> set us then r\<lparr>ow_counted := True\<rparr> else r)) (t_owners t)\<rparr>"

definition sql_mark_counted :: "('db, 's) session_ops \<Rightarrow> game_id \<Rightarrow> user_id list \<Rightarrow> 's \<Rightarrow> 's" where
  "sql_mark_counted se g us s =
     (if us = [] then s else se_execute se (update_counted (game_uuid g) (map user_uuid us)) s)"

text \<open>The self-join: the rows \<open>theirs\<close>, once for every row \<open>mine\<close> they join, and the groups of them.\<close>

definition neighbour_rows :: "uuid \<Rightarrow> uuid list \<Rightarrow> ownership_row list \<Rightarrow> ownership_row list" where
  "neighbour_rows u mine owners =
     [theirs. m \<leftarrow> owners, theirs \<leftarrow> owners, ow_user_id m = ow_user_id theirs \<and> ow_game_id m \<in> set mine \<and>
        ow_user_id m \<noteq> u \<and> ow_game_id theirs \<notin> set mine]"

definition neighbours_of :: "uuid \<Rightarrow> ownership_row list \<Rightarrow> int" where
  "neighbours_of g joined = int (length (remdups (map ow_user_id (filter (\<lambda>r. ow_game_id r = g) joined))))"

definition sql_co_purchases ::
  "('db, 's) session_ops \<Rightarrow> 's \<Rightarrow> user_id \<Rightarrow> game_id list \<Rightarrow> int \<Rightarrow> (game_id, int) dict" where
  "sql_co_purchases se s u mine limit =
     (if mine = [] then []
      else let joined = neighbour_rows (user_uuid u) (map game_uuid mine) (table_rows (t_owners (se_tables se s)));
               counts = map (\<lambda>g. (g, neighbours_of g joined)) (remdups (map ow_game_id joined))
        in map (\<lambda>(g, n). (GameId g, n)) (take (nat limit) (sort_key (\<lambda>(g, n). (- n, g)) counts)))"

section \<open>Recommendations\<close>

definition delete_recs :: "uuid \<Rightarrow> tables \<Rightarrow> tables" where
  "delete_recs u t = t\<lparr>t_recs := filter (\<lambda>(k, r). rr_user_id r \<noteq> u) (t_recs t)\<rparr>"

definition sql_replace_for :: "('db, 's) session_ops \<Rightarrow> user_id \<Rightarrow> recommendation list \<Rightarrow> 's \<Rightarrow> exn + 's" where
  "sql_replace_for se u rs s =
     bindE (se_flush se (se_execute se (delete_recs (user_uuid u)) s)) (\<lambda>s.
     Inr (fold (\<lambda>r. se_add_rec se (recommendation_row_of r)) rs s))"

definition sql_for_user :: "('db, 's) session_ops \<Rightarrow> 's \<Rightarrow> user_id \<Rightarrow> int \<Rightarrow> exn + recommendation list" where
  "sql_for_user se s u limit =
     mapE recommendation_to_domain (take (nat limit) (sort_key rr_rank
       (filter (\<lambda>r. rr_user_id r = user_uuid u) (table_rows (t_recs (se_tables se s))))))"

section \<open>Outbox and processed events\<close>

text \<open>The columns an event does not set have the defaults of the table.\<close>

definition outbox_row_of :: "string \<Rightarrow> string option \<Rightarrow> recommendation_generated \<Rightarrow> outbox_row" where
  "outbox_row_of topic correlation_id e =
     \<lparr>ox_id = ev_event_id e, ox_aggregate_type = AGGREGATE_TYPE, ox_aggregate_id = ev_aggregate_id e,
      ox_event_type = event_type, ox_topic = topic, ox_partition_key = partition_key e,
      ox_payload = event_envelope e correlation_id, ox_headers = [], ox_correlation_id = correlation_id,
      ox_occurred_at = ev_occurred_at e, ox_published_at = None, ox_attempts = 0, ox_last_error = None,
      ox_next_attempt_at = None, ox_dead_lettered = False\<rparr>"

definition sql_enqueue ::
  "('db, 's) session_ops \<Rightarrow> string \<Rightarrow> string option \<Rightarrow> recommendation_generated list \<Rightarrow> 's \<Rightarrow> 's" where
  "sql_enqueue se topic correlation_id es s =
     fold (\<lambda>e. se_add_outbox se (outbox_row_of topic correlation_id e)) es s"

definition sql_seen :: "('db, 's) session_ops \<Rightarrow> 's \<Rightarrow> uuid \<Rightarrow> bool" where
  "sql_seen se s e \<longleftrightarrow> e \<in> pe_event_id ` set (table_rows (t_processed (se_tables se s)))"

text \<open>\<open>INSERT ... ON CONFLICT DO NOTHING\<close>\<close>

definition insert_processed :: "datetime \<Rightarrow> uuid \<Rightarrow> tables \<Rightarrow> tables" where
  "insert_processed now e t =
     (if e \<in> fst ` set (t_processed t) then t
      else t\<lparr>t_processed := AList.update e \<lparr>pe_event_id = e, pe_processed_at = now\<rparr> (t_processed t)\<rparr>)"

definition sql_mark :: "('db, 's) session_ops \<Rightarrow> datetime \<Rightarrow> uuid \<Rightarrow> 's \<Rightarrow> 's" where
  "sql_mark se now e = se_execute se (insert_processed now e)"

section \<open>The unit of work\<close>

record 's sql_uow =
  su_session :: 's
  su_committed :: bool
  su_topic :: string
  su_correlation_id :: "string option"

definition sql_open :: "('db, 's) session_ops \<Rightarrow> string \<Rightarrow> string option \<Rightarrow> 'db \<Rightarrow> 's sql_uow" where
  "sql_open se topic correlation_id db =
     \<lparr>su_session = se_open se db, su_committed = False, su_topic = topic, su_correlation_id = correlation_id\<rparr>"

definition sql_commit :: "('db, 's) session_ops \<Rightarrow> 's sql_uow \<Rightarrow> exn + 's sql_uow" where
  "sql_commit se w = bindE (se_commit se (su_session w)) (\<lambda>s. Inr (w\<lparr>su_session := s, su_committed := True\<rparr>))"

definition sql_exit :: "('db, 's) session_ops \<Rightarrow> 's sql_uow \<Rightarrow> 'db" where
  "sql_exit se w = se_close se (if su_committed w then su_session w else se_rollback se (su_session w))"

text \<open>\<open>SqlProcessedEventLog\<close>: a session of its own for every call.\<close>

definition sql_log_seen :: "('db, 's) session_ops \<Rightarrow> 'db \<Rightarrow> uuid \<Rightarrow> bool" where
  "sql_log_seen se db e = sql_seen se (se_open se db) e"

definition sql_log_mark :: "('db, 's) session_ops \<Rightarrow> datetime \<Rightarrow> 'db \<Rightarrow> uuid \<Rightarrow> exn + 'db" where
  "sql_log_mark se now db e =
     bindE (se_commit se (sql_mark se now e (se_open se db))) (\<lambda>s. Inr (se_close se s))"

end
