(* ===== verification/SqlWork.thy ===== *)
theory SqlWork
  imports SqlTables
begin

text \<open>
  What the SQL backend promises: a unit of work on it has the effect on the world of \<open>Ports\<close> that its
  calls name, at the commit and not before, and a fresh one reads what the contract of the port says. The
  documented behaviour of SQLAlchemy's session and of the constraints of the tables is the locale
  \<open>session\<close>; \<open>reference_session\<close> is an instance of it.
\<close>

section \<open>The world the tables hold\<close>

definition readable :: "('a \<Rightarrow> exn + 'b) \<Rightarrow> 'a \<Rightarrow> 'b option" where
  "readable f x = (case f x of Inr y \<Rightarrow> Some y | Inl e \<Rightarrow> None)"

definition list_of_user :: "(uuid, recommendation_row) dict \<Rightarrow> user_id \<Rightarrow> recommendation list" where
  "list_of_user t u = List.map_filter (readable recommendation_to_domain)
     (sort_key rr_rank (filter (\<lambda>r. rr_user_id r = user_uuid u) (table_rows t)))"

definition table_world :: "(string \<Rightarrow> real option) \<Rightarrow> (real \<Rightarrow> string) \<Rightarrow> tables \<Rightarrow> world" where
  "table_world rf fs t =
     \<lparr>w_games = (\<lambda>g. Option.bind (map_of (t_games t) (game_uuid g)) (readable (game_to_domain rf))),
      w_prefs = (\<lambda>u. Option.bind (map_of (t_prefs t) (user_uuid u)) (readable (preference_to_domain rf fs))),
      w_owners = (\<lambda>g u. map_option ow_counted (map_of (t_owners t) (user_uuid u, game_uuid g))),
      w_recs = list_of_user (t_recs t),
      w_outbox = (\<lambda>k. map_option to_record (map_of (t_outbox t) k)),
      w_processed = fst ` set (t_processed t)\<rparr>"

text \<open>The primary keys.\<close>

definition tables_ok :: "tables \<Rightarrow> bool" where
  "tables_ok t \<longleftrightarrow> keyed gr_game_id (t_games t) \<and> keyed pr_user_id (t_prefs t) \<and>
     keyed (\<lambda>r. (ow_user_id r, ow_game_id r)) (t_owners t) \<and> keyed rr_id (t_recs t) \<and>
     keyed ox_id (t_outbox t) \<and> keyed pe_event_id (t_processed t)"

definition stored_outbox :: "columns \<Rightarrow> outbox_row \<Rightarrow> outbox_row" where
  "stored_outbox c r = r\<lparr>ox_payload := json_dict (col_json c (JDict (ox_payload r))),
     ox_occurred_at := col_time c (ox_occurred_at r)\<rparr>"

definition kept_record :: "columns \<Rightarrow> outbox_record \<Rightarrow> outbox_record" where
  "kept_record c r = r\<lparr>ob_payload := json_dict (col_json c (JDict (ob_payload r))),
     ob_occurred_at := kept_time c (ob_occurred_at r)\<rparr>"

section \<open>The session\<close>

text \<open>What a session holds that is not flushed: a changed or added game or profile, added lists or events.\<close>

datatype pending = PGame uuid | PPref uuid | PRecs | POutbox

text \<open>A statement of this code: it changes the ownerships or the processed events only.\<close>

definition owner_statement :: "(tables \<Rightarrow> tables) \<Rightarrow> bool" where
  "owner_statement f \<longleftrightarrow> (\<exists>h. \<forall>t. f t = t\<lparr>t_owners := h (t_owners t)\<rparr>)"

definition processed_statement :: "(tables \<Rightarrow> tables) \<Rightarrow> bool" where
  "processed_statement f \<longleftrightarrow> (\<exists>h. \<forall>t. f t = t\<lparr>t_processed := h (t_processed t)\<rparr>)"

text \<open>
  \<open>view s\<close> is what a commit of the session would leave in the tables. \<open>get\<close> finds a row that the
  session has not touched; an object is added once, under a key of its own, with values that the columns
  take; a statement works on the tables at once. Under these conditions \<open>flush\<close> and \<open>commit\<close> succeed;
  closing after a rollback leaves the database as it was.
\<close>

locale session =
  fixes se :: "('db, 's) session_ops"
    and c :: columns
    and dims :: nat
    and ok :: "'db \<Rightarrow> bool"
    and rows :: "'db \<Rightarrow> tables"
    and txn :: "'db \<Rightarrow> 's \<Rightarrow> bool"
    and view :: "'s \<Rightarrow> tables"
    and unflushed :: "'s \<Rightarrow> pending set"
  assumes opens: "ok db \<Longrightarrow> txn db (se_open se db) \<and> view (se_open se db) = rows db \<and> unflushed (se_open se db) = {}"
    and keys: "txn db s \<Longrightarrow> tables_ok (view s)"
    and sees: "txn db s \<Longrightarrow> unflushed s = {} \<Longrightarrow> se_tables se s = view s \<and> se_object se s = (\<lambda>r. r)"
    and get_game: "txn db s \<Longrightarrow> PGame k \<notin> unflushed s \<Longrightarrow> se_get_game se s k = map_of (t_games (view s)) k"
    and get_pref: "txn db s \<Longrightarrow> PPref k \<notin> unflushed s \<Longrightarrow> se_get_pref se s k = map_of (t_prefs (view s)) k"
    and put_game: "txn db s \<Longrightarrow> PGame (gr_game_id r) \<notin> unflushed s \<Longrightarrow> game_row_fits dims r \<Longrightarrow>
      put = (if map_of (t_games (view s)) (gr_game_id r) = None then se_add_game se else se_assign_game se) \<Longrightarrow>
      txn db (put r s) \<and> unflushed (put r s) = insert (PGame (gr_game_id r)) (unflushed s) \<and>
      view (put r s) = (view s)\<lparr>t_games := AList.update (gr_game_id r) (stored_game c r) (t_games (view s))\<rparr>"
    and put_pref: "txn db s \<Longrightarrow> PPref (pr_user_id p) \<notin> unflushed s \<Longrightarrow> preference_row_fits dims p \<Longrightarrow>
      store = (if map_of (t_prefs (view s)) (pr_user_id p) = None then se_add_pref se else se_assign_pref se) \<Longrightarrow>
      txn db (store p s) \<and> unflushed (store p s) = insert (PPref (pr_user_id p)) (unflushed s) \<and>
      view (store p s) = (view s)\<lparr>t_prefs := AList.update (pr_user_id p) (stored_preference c p) (t_prefs (view s))\<rparr>"
    and add_rec: "txn db s \<Longrightarrow> recommendation_row_fits q \<Longrightarrow> map_of (t_recs (view s)) (rr_id q) = None \<Longrightarrow>
      \<forall>q' \<in> ran (map_of (t_recs (view s))). (rr_user_id q', rr_game_id q') \<noteq> (rr_user_id q, rr_game_id q) \<Longrightarrow>
      txn db (se_add_rec se q s) \<and> unflushed (se_add_rec se q s) = insert PRecs (unflushed s) \<and>
      view (se_add_rec se q s) = (view s)\<lparr>t_recs := AList.update (rr_id q) (stored_recommendation c q) (t_recs (view s))\<rparr>"
    and add_outbox: "txn db s \<Longrightarrow> outbox_row_fits x \<Longrightarrow> map_of (t_outbox (view s)) (ox_id x) = None \<Longrightarrow>
      txn db (se_add_outbox se x s) \<and> unflushed (se_add_outbox se x s) = insert POutbox (unflushed s) \<and>
      view (se_add_outbox se x s) = (view s)\<lparr>t_outbox := AList.update (ox_id x) (stored_outbox c x) (t_outbox (view s))\<rparr>"
    and execute: "txn db s \<Longrightarrow> tables_ok (f (view s)) \<Longrightarrow>
      owner_statement f \<or> processed_statement f \<or> (PRecs \<notin> unflushed s \<and> f = delete_recs u) \<Longrightarrow>
      txn db (se_execute se f s) \<and> unflushed (se_execute se f s) = unflushed s \<and> view (se_execute se f s) = f (view s)"
    and flush: "txn db s \<Longrightarrow> \<exists>s'. se_flush se s = Inr s' \<and> txn db s' \<and> unflushed s' \<subseteq> unflushed s \<and> view s' = view s"
    and commit: "txn db s \<Longrightarrow> \<exists>s'. se_commit se s = Inr s' \<and> ok (se_close se s') \<and> rows (se_close se s') = view s"
    and rollback: "txn db s \<Longrightarrow> se_close se (se_rollback se s) = db"

section \<open>The calls of a unit of work\<close>

datatype uow_call =
    UpsertGame game_profile
  | UpsertPref user_preference
  | RecordOwner user_id game_id bool
  | MarkCounted game_id "user_id list"
  | ReplaceRecs user_id "recommendation list"
  | Enqueue "recommendation_generated list"
  | MarkEvent uuid

fun sql_call :: "('db, 's) session_ops \<Rightarrow> datetime \<Rightarrow> string \<Rightarrow> string option \<Rightarrow> uow_call \<Rightarrow> 's \<Rightarrow> exn + 's" where
  "sql_call se now topic cid (UpsertGame g) s = Inr (sql_upsert_game se g s)"
| "sql_call se now topic cid (UpsertPref p) s = Inr (sql_upsert_pref se p s)"
| "sql_call se now topic cid (RecordOwner u g counted) s = Inr (sql_record_owner se now u g counted s)"
| "sql_call se now topic cid (MarkCounted g us) s = Inr (sql_mark_counted se g us s)"
| "sql_call se now topic cid (ReplaceRecs u rs) s = sql_replace_for se u rs s"
| "sql_call se now topic cid (Enqueue es) s = Inr (sql_enqueue se topic cid es s)"
| "sql_call se now topic cid (MarkEvent e) s = Inr (sql_mark se now e s)"

fun sql_calls :: "('db, 's) session_ops \<Rightarrow> datetime \<Rightarrow> string \<Rightarrow> string option \<Rightarrow> uow_call list \<Rightarrow> 's \<Rightarrow> exn + 's" where
  "sql_calls se now topic cid [] s = Inr s"
| "sql_calls se now topic cid (x # xs) s = bindE (sql_call se now topic cid x s) (sql_calls se now topic cid xs)"

text \<open>\<open>async with SqlUnitOfWork(...) as uow\<close>, the calls and the commit.\<close>

definition sql_transaction ::
  "('db, 's) session_ops \<Rightarrow> datetime \<Rightarrow> string \<Rightarrow> string option \<Rightarrow> uow_call list \<Rightarrow> 'db \<Rightarrow> (exn + unit) \<times> 'db" where
  "sql_transaction se now topic cid calls db =
     (let w = sql_open se topic cid db in
      case sql_calls se now topic cid calls (su_session w) of
        Inl x \<Rightarrow> (Inl x, sql_exit se w)
      | Inr s \<Rightarrow>
          (case sql_commit se (w\<lparr>su_session := s\<rparr>) of
             Inl x \<Rightarrow> (Inl x, sql_exit se (w\<lparr>su_session := s\<rparr>))
           | Inr w' \<Rightarrow> (Inr (), sql_exit se w')))"

text \<open>The effect the port promises, on the values as the columns keep them.\<close>

fun call_effect :: "columns \<Rightarrow> string \<Rightarrow> string option \<Rightarrow> uow_call \<Rightarrow> world \<Rightarrow> world" where
  "call_effect c topic cid (UpsertGame g) w = w\<lparr>w_games := (w_games w)(game_id g \<mapsto> kept_game c g)\<rparr>"
| "call_effect c topic cid (UpsertPref p) w = w\<lparr>w_prefs := (w_prefs w)(pref_user_id p \<mapsto> kept_preference c p)\<rparr>"
| "call_effect c topic cid (RecordOwner u g counted) w = w\<lparr>w_owners := raise_owner (w_owners w) u g counted\<rparr>"
| "call_effect c topic cid (MarkCounted g us) w = w\<lparr>w_owners := (w_owners w)
     (g := (\<lambda>u. if u \<in> set us then map_option (\<lambda>_. True) (w_owners w g u) else w_owners w g u))\<rparr>"
| "call_effect c topic cid (ReplaceRecs u rs) w = w\<lparr>w_recs := (w_recs w)(u := map (kept_recommendation c) rs)\<rparr>"
| "call_effect c topic cid (Enqueue es) w = w\<lparr>w_outbox :=
     fold (\<lambda>e m. m(ev_event_id e \<mapsto> kept_record c (outbox_record_of topic cid e))) es (w_outbox w)\<rparr>"
| "call_effect c topic cid (MarkEvent e) w = w\<lparr>w_processed := insert e (w_processed w)\<rparr>"

text \<open>What the calls of a transaction write: well-formed values that the columns take, and fresh ids.\<close>

fun storable :: "nat \<Rightarrow> string \<Rightarrow> string option \<Rightarrow> uow_call \<Rightarrow> bool" where
  "storable dims topic cid (UpsertGame g) \<longleftrightarrow> mk_game_profile g = Inr g \<and> wf_embedding (embedding g) \<and>
     game_row_fits dims (write_game (new_game_row 0) g)"
| "storable dims topic cid (UpsertPref p) \<longleftrightarrow> wf_embedding (taste p) \<and>
     preference_row_fits dims (write_preference (new_preference_row 0) p)"
| "storable dims topic cid (ReplaceRecs u rs) \<longleftrightarrow> sorted (map rec_rank rs) \<and> distinct (map rec_id rs) \<and>
     distinct (map rec_game_id rs) \<and>
     (\<forall>r \<in> set rs. rec_user_id r = u \<and> mk_recommendation r = Inr r \<and> recommendation_row_fits (recommendation_row_of r))"
| "storable dims topic cid (Enqueue es) \<longleftrightarrow> (\<forall>e \<in> set es. outbox_row_fits (outbox_row_of topic cid e))"
| "storable dims topic cid x \<longleftrightarrow> True"

fun call_keys :: "uow_call \<Rightarrow> pending list" where
  "call_keys (UpsertGame g) = [PGame (game_uuid (game_id g))]"
| "call_keys (UpsertPref p) = [PPref (user_uuid (pref_user_id p))]"
| "call_keys (ReplaceRecs u rs) = [PRecs]"
| "call_keys x = []"

fun new_recs :: "uow_call \<Rightarrow> uuid list" where
  "new_recs (ReplaceRecs u rs) = map (\<lambda>r. rec_uuid (rec_id r)) rs"
| "new_recs x = []"

fun new_events :: "uow_call \<Rightarrow> uuid list" where
  "new_events (Enqueue es) = map ev_event_id es"
| "new_events x = []"

definition writes_once :: "tables \<Rightarrow> uow_call list \<Rightarrow> bool" where
  "writes_once t calls \<longleftrightarrow> distinct (concat (map call_keys calls)) \<and>
     distinct (concat (map new_recs calls)) \<and> distinct (concat (map new_events calls)) \<and>
     fst ` set (t_recs t) \<inter> set (concat (map new_recs calls)) = {} \<and>
     fst ` set (t_outbox t) \<inter> set (concat (map new_events calls)) = {}"

section \<open>Writing rows, as the world sees it\<close>

lemma id_uuid_simps [simp]:
  "game_uuid g = game_uuid h \<longleftrightarrow> g = h" "user_uuid u = user_uuid v \<longleftrightarrow> u = v"
  by (auto intro: game_id.expand user_id.expand)

lemma write_any:
  "write_game row g = write_game (new_game_row 0) g"
  "write_preference row' p = write_preference (new_preference_row 0) p"
  by (simp_all add: write_game_def write_preference_def new_game_row_def new_preference_row_def)

lemma world_game:
  assumes "game_to_domain rf row = Inr g" "gr_game_id row = game_uuid (game_id g)"
  shows "table_world rf fs (t\<lparr>t_games := AList.update (game_uuid (game_id g)) row (t_games t)\<rparr>) =
    (table_world rf fs t)\<lparr>w_games := (w_games (table_world rf fs t))(game_id g \<mapsto> g)\<rparr>"
  using assms by (auto simp: table_world_def dict_simps fun_eq_iff readable_def)

lemma world_pref:
  assumes "preference_to_domain rf fs row = Inr p" "pr_user_id row = user_uuid (pref_user_id p)"
  shows "table_world rf fs (t\<lparr>t_prefs := AList.update (user_uuid (pref_user_id p)) row (t_prefs t)\<rparr>) =
    (table_world rf fs t)\<lparr>w_prefs := (w_prefs (table_world rf fs t))(pref_user_id p \<mapsto> p)\<rparr>"
  using assms by (auto simp: table_world_def dict_simps fun_eq_iff readable_def)

lemma world_owner:
  "table_world rf fs (insert_owner now (user_uuid u) (game_uuid g) counted t) =
    (table_world rf fs t)\<lparr>w_owners := raise_owner (w_owners (table_world rf fs t)) u g counted\<rparr>"
  by (auto simp: table_world_def insert_owner_def raise_owner_def dict_simps fun_eq_iff split: option.splits)

lemma map_of_map_if:
  "map_of (map (\<lambda>(k, r). (k, if P r then f r else r)) d) k = map_option (\<lambda>r. if P r then f r else r) (map_of d k)"
  by (induction d) auto

lemma map_of_counted:
  "map_of (t_owners (update_counted g us t)) k =
    map_option (\<lambda>r. if ow_game_id r = g \<and> ow_user_id r \<in> set us then r\<lparr>ow_counted := True\<rparr> else r) (map_of (t_owners t) k)"
  using map_of_map_if [where P = "\<lambda>r. ow_game_id r = g \<and> ow_user_id r \<in> set us" and f = "\<lambda>r. r\<lparr>ow_counted := True\<rparr>"]
  by (simp add: update_counted_def)

lemma world_counted:
  assumes "keyed (\<lambda>r. (ow_user_id r, ow_game_id r)) (t_owners t)"
  shows "table_world rf fs (update_counted (game_uuid g) (map user_uuid us) t) =
    (table_world rf fs t)\<lparr>w_owners := (w_owners (table_world rf fs t))
      (g := (\<lambda>u. if u \<in> set us then map_option (\<lambda>_. True) (w_owners (table_world rf fs t) g u)
                 else w_owners (table_world rf fs t) g u))\<rparr>"
proof -
  let ?t = "update_counted (game_uuid g) (map user_uuid us) t"
  have "map_option ow_counted (map_of (t_owners ?t) (user_uuid u, game_uuid h)) =
    (if h = g \<and> u \<in> set us then map_option (\<lambda>_. True) (map_of (t_owners t) (user_uuid u, game_uuid h))
     else map_option ow_counted (map_of (t_owners t) (user_uuid u, game_uuid h)))" for u h
    using keyedD [OF assms, of "(user_uuid u, game_uuid h)"] unfolding map_of_counted
    by (cases "map_of (t_owners t) (user_uuid u, game_uuid h)") (auto simp: image_iff)
  then have "w_owners (table_world rf fs ?t) = (w_owners (table_world rf fs t))
      (g := (\<lambda>u. if u \<in> set us then map_option (\<lambda>_. True) (w_owners (table_world rf fs t) g u)
                 else w_owners (table_world rf fs t) g u))"
    by (simp add: table_world_def fun_eq_iff option.map_comp comp_def)
  moreover have "table_world rf fs ?t = (table_world rf fs t)\<lparr>w_owners := w_owners (table_world rf fs ?t)\<rparr>"
    by (simp add: table_world_def update_counted_def)
  ultimately show ?thesis by simp
qed

lemma keyed_counted:
  assumes "keyed (\<lambda>r. (ow_user_id r, ow_game_id r)) (t_owners t)"
  shows "keyed (\<lambda>r. (ow_user_id r, ow_game_id r)) (t_owners (update_counted g us t))"
proof -
  have "map fst (t_owners (update_counted g us t)) = map fst (t_owners t)"
    by (simp add: update_counted_def comp_def case_prod_beta)
  then have "dict_ok (t_owners (update_counted g us t))" using assms by (simp only: keyed_iff)
  moreover have "(ow_user_id r, ow_game_id r) = k" if look: "map_of (t_owners (update_counted g us t)) k = Some r" for k r
  proof -
    obtain q where q: "map_of (t_owners t) k = Some q"
      "(if ow_game_id q = g \<and> ow_user_id q \<in> set us then q\<lparr>ow_counted := True\<rparr> else q) = r"
      using look unfolding map_of_counted map_option_eq_Some by blast
    with keyedD [OF assms q(1)] show ?thesis by auto
  qed
  ultimately show ?thesis unfolding keyed_iff by blast
qed

lemma keyed_owner:
  assumes "keyed (\<lambda>r. (ow_user_id r, ow_game_id r)) (t_owners t)"
  shows "keyed (\<lambda>r. (ow_user_id r, ow_game_id r)) (t_owners (insert_owner now u g counted t))"
proof -
  have "(ow_user_id row, ow_game_id row) = (u, g)" if "map_of (t_owners t) (u, g) = Some row" for row
    by (rule keyedD [OF assms that])
  then show ?thesis unfolding insert_owner_def
    by (auto intro!: keyed_update [OF assms] split: option.split)
qed

lemma world_processed:
  "table_world rf fs (insert_processed now e t) =
    (table_world rf fs t)\<lparr>w_processed := insert e (w_processed (table_world rf fs t))\<rparr>"
  by (auto simp: table_world_def insert_processed_def dict_simps)

lemma statements:
  "owner_statement (insert_owner now u g counted)" "owner_statement (update_counted g us)"
  "processed_statement (insert_processed now e)"
proof -
  show "owner_statement (insert_owner now u g counted)"
    unfolding owner_statement_def insert_owner_def by (intro exI allI) (rule refl)
  show "owner_statement (update_counted g us)"
    unfolding owner_statement_def update_counted_def by (intro exI allI) (rule refl)
  show "processed_statement (insert_processed now e)"
    unfolding processed_statement_def insert_processed_def
    by (intro exI [of _ "\<lambda>d. if e \<in> fst ` set d then d else AList.update e \<lparr>pe_event_id = e, pe_processed_at = now\<rparr> d"]) simp
qed

lemma update_fresh: "k \<notin> fst ` set d \<Longrightarrow> AList.update k v d = d @ [(k, v)]"
  by (induction d) auto

text \<open>The list of a user after it was replaced, and the lists of the others.\<close>

definition recs_added :: "columns \<Rightarrow> uuid \<Rightarrow> recommendation list \<Rightarrow> (uuid, recommendation_row) dict \<Rightarrow> (uuid, recommendation_row) dict" where
  "recs_added c u rs d = filter (\<lambda>(k, r). rr_user_id r \<noteq> u) d @
     map (\<lambda>r. (rec_uuid (rec_id r), stored_recommendation c (recommendation_row_of r))) rs"

lemma list_of_user_added:
  assumes "sorted (map rec_rank rs)" "\<forall>r \<in> set rs. rec_user_id r = u \<and> mk_recommendation r = Inr r"
  shows "list_of_user (recs_added c (user_uuid u) rs d) =
    (list_of_user d)(u := map (kept_recommendation c) rs)"
proof
  fix v
  let ?row = "\<lambda>r. stored_recommendation c (recommendation_row_of r)"
  have mine: "filter (\<lambda>r. rr_user_id r = user_uuid v) (map (\<lambda>r. ?row r) rs) = (if v = u then map ?row rs else [])"
    using assms(2) by (auto simp: filter_empty_conv filter_id_conv stored_recommendation_def recommendation_row_of_def)
  have others: "filter (\<lambda>r. rr_user_id r = user_uuid v) (table_rows (filter (\<lambda>(k, r). rr_user_id r \<noteq> user_uuid u) d)) =
      (if v = u then [] else filter (\<lambda>r. rr_user_id r = user_uuid v) (table_rows d))"
    by (induction d) auto
  have rows: "filter (\<lambda>r. rr_user_id r = user_uuid v) (table_rows (recs_added c (user_uuid u) rs d)) =
      (if v = u then map ?row rs else filter (\<lambda>r. rr_user_id r = user_uuid v) (table_rows d))"
    using mine others by (simp add: recs_added_def comp_def)
  show "list_of_user (recs_added c (user_uuid u) rs d) v = ((list_of_user d)(u := map (kept_recommendation c) rs)) v"
  proof (cases "v = u")
    case True
    have "sorted (map rr_rank (map ?row rs))"
      using assms(1) by (simp add: stored_recommendation_def recommendation_row_of_def comp_def)
    then have "sort_key rr_rank (map ?row rs) = map ?row rs" by (rule sort_key_id_if_sorted)
    moreover have "List.map_filter (readable recommendation_to_domain) (map ?row rs) = map (kept_recommendation c) rs"
      using assms(2) by (induction rs) (auto simp: List.map_filter_def readable_def recommendation_comes_back)
    ultimately show ?thesis using True unfolding list_of_user_def rows by simp
  next
    case False
    then show ?thesis unfolding list_of_user_def rows by simp
  qed
qed

text \<open>The outbox after events were added.\<close>

definition events_added :: "columns \<Rightarrow> string \<Rightarrow> string option \<Rightarrow> recommendation_generated list \<Rightarrow> (uuid, outbox_row) dict \<Rightarrow> (uuid, outbox_row) dict" where
  "events_added c topic cid es d =
     d @ map (\<lambda>e. (ev_event_id e, stored_outbox c (outbox_row_of topic cid e))) es"

lemma kept_event: "to_record (stored_outbox c (outbox_row_of topic cid e)) = kept_record c (outbox_record_of topic cid e)"
  by (simp add: to_record_def stored_outbox_def outbox_row_of_def kept_record_def outbox_record_of_def kept_time_def)

lemma map_of_events_added:
  assumes "distinct (map ev_event_id es)" "fst ` set d \<inter> ev_event_id ` set es = {}"
  shows "(\<lambda>k. map_option to_record (map_of (events_added c topic cid es d) k)) =
    fold (\<lambda>e m. m(ev_event_id e \<mapsto> kept_record c (outbox_record_of topic cid e))) es (\<lambda>k. map_option to_record (map_of d k))"
  using assms
proof (induction es arbitrary: d)
  case Nil
  then show ?case by (simp add: events_added_def)
next
  case (Cons e es)
  let ?d = "d @ [(ev_event_id e, stored_outbox c (outbox_row_of topic cid e))]"
  have "map_of d (ev_event_id e) = None" using Cons.prems(2) by (auto simp: map_of_eq_None_iff)
  then have "(\<lambda>k. map_option to_record (map_of ?d k)) =
      (\<lambda>k. map_option to_record (map_of d k))(ev_event_id e \<mapsto> kept_record c (outbox_record_of topic cid e))"
    by (auto simp: fun_eq_iff kept_event map_add_def split: option.split)
  moreover have "events_added c topic cid (e # es) d = events_added c topic cid es ?d" by (simp add: events_added_def)
  moreover have "distinct (map ev_event_id es)" "fst ` set ?d \<inter> ev_event_id ` set es = {}" using Cons.prems by auto
  ultimately show ?case using Cons.IH [of ?d] by (simp del: fun_upd_apply)
qed

section \<open>The calls on a session\<close>

context session
begin

lemma puts_game:
  assumes c: "faithful_columns c" and t: "txn db s" and st: "storable dims topic cid (UpsertGame g)"
    and new: "PGame (game_uuid (game_id g)) \<notin> unflushed s"
  shows "txn db (sql_upsert_game se g s) \<and>
    unflushed (sql_upsert_game se g s) = insert (PGame (game_uuid (game_id g))) (unflushed s) \<and>
    (\<exists>row. view (sql_upsert_game se g s) = (view s)\<lparr>t_games := AList.update (game_uuid (game_id g)) row (t_games (view s))\<rparr>) \<and>
    table_world rf fs (view (sql_upsert_game se g s)) = call_effect c topic cid (UpsertGame g) (table_world rf fs (view s))"
proof -
  let ?k = "game_uuid (game_id g)" and ?row = "write_game (new_game_row 0) g"
  have k: "gr_game_id ?row = ?k" by (simp add: write_game_def)
  define put where "put = (if map_of (t_games (view s)) ?k = None then se_add_game se else se_assign_game se)"
  have op: "sql_upsert_game se g s = put ?row s"
    by (cases "map_of (t_games (view s)) ?k"; simp add: sql_upsert_game_def get_game [OF t new] put_def; metis write_any(1))
  note p = put_game [OF t, of ?row put, unfolded k, OF new _ put_def]
  have p: "txn db (put ?row s)" "unflushed (put ?row s) = insert (PGame ?k) (unflushed s)"
    "view (put ?row s) = (view s)\<lparr>t_games := AList.update ?k (stored_game c ?row) (t_games (view s))\<rparr>"
    using p st by simp_all
  have "game_to_domain rf (stored_game c ?row) = Inr (kept_game c g)"
    using st by (intro game_comes_back [OF c]) simp_all
  moreover have "gr_game_id (stored_game c ?row) = game_uuid (game_id (kept_game c g))" "game_id (kept_game c g) = game_id g"
    by (simp_all add: stored_game_def kept_game_def k)
  ultimately show ?thesis
    using p world_game [of rf "stored_game c ?row" "kept_game c g" fs "view s"] by (auto simp: op)
qed

lemma puts_pref:
  assumes c: "faithful_columns c" and t: "txn db s" and st: "storable dims topic cid (UpsertPref p)"
    and new: "PPref (user_uuid (pref_user_id p)) \<notin> unflushed s"
  shows "txn db (sql_upsert_pref se p s) \<and>
    unflushed (sql_upsert_pref se p s) = insert (PPref (user_uuid (pref_user_id p))) (unflushed s) \<and>
    (\<exists>row. view (sql_upsert_pref se p s) = (view s)\<lparr>t_prefs := AList.update (user_uuid (pref_user_id p)) row (t_prefs (view s))\<rparr>) \<and>
    table_world rf fs (view (sql_upsert_pref se p s)) = call_effect c topic cid (UpsertPref p) (table_world rf fs (view s))"
proof -
  let ?k = "user_uuid (pref_user_id p)" and ?row = "write_preference (new_preference_row 0) p"
  have k: "pr_user_id ?row = ?k" by (simp add: write_preference_def)
  define store where "store = (if map_of (t_prefs (view s)) ?k = None then se_add_pref se else se_assign_pref se)"
  have op: "sql_upsert_pref se p s = store ?row s"
    by (cases "map_of (t_prefs (view s)) ?k"; simp add: sql_upsert_pref_def get_pref [OF t new] store_def; metis write_any(2))
  note p = put_pref [OF t, of ?row store, unfolded k, OF new _ store_def]
  have p: "txn db (store ?row s)" "unflushed (store ?row s) = insert (PPref ?k) (unflushed s)"
    "view (store ?row s) = (view s)\<lparr>t_prefs := AList.update ?k (stored_preference c ?row) (t_prefs (view s))\<rparr>"
    using p st by simp_all
  have "preference_to_domain rf fs (stored_preference c ?row) = Inr (kept_preference c p)"
    using st by (intro preference_comes_back [OF c]) simp
  moreover have "pr_user_id (stored_preference c ?row) = user_uuid (pref_user_id (kept_preference c p))"
    "pref_user_id (kept_preference c p) = pref_user_id p"
    by (simp_all add: stored_preference_def kept_preference_def k)
  ultimately show ?thesis
    using p world_pref [of rf fs "stored_preference c ?row" "kept_preference c p" "view s"] by (auto simp: op)
qed

lemma adds_recs:
  assumes "txn db s" "\<forall>r \<in> set rs. recommendation_row_fits (recommendation_row_of r)"
    and "distinct (map rec_id rs)" "distinct (map (\<lambda>r. (rec_user_id r, rec_game_id r)) rs)"
    and "fst ` set (t_recs (view s)) \<inter> (\<lambda>r. rec_uuid (rec_id r)) ` set rs = {}"
    and "\<forall>q \<in> ran (map_of (t_recs (view s))). \<forall>r \<in> set rs.
      (rr_user_id q, rr_game_id q) \<noteq> (user_uuid (rec_user_id r), game_uuid (rec_game_id r))"
  shows "txn db (fold (\<lambda>r. se_add_rec se (recommendation_row_of r)) rs s) \<and>
    unflushed (fold (\<lambda>r. se_add_rec se (recommendation_row_of r)) rs s) \<subseteq> insert PRecs (unflushed s) \<and>
    view (fold (\<lambda>r. se_add_rec se (recommendation_row_of r)) rs s) = (view s)\<lparr>t_recs := t_recs (view s) @
      map (\<lambda>r. (rec_uuid (rec_id r), stored_recommendation c (recommendation_row_of r))) rs\<rparr>"
  using assms
proof (induction rs arbitrary: s)
  case Nil
  then show ?case by (simp add: subset_insertI)
next
  case (Cons r rs)
  let ?q = "recommendation_row_of r" and ?k = "rec_uuid (rec_id r)"
  let ?s = "se_add_rec se ?q s"
  have k: "rr_id ?q = ?k" "rr_user_id ?q = user_uuid (rec_user_id r)" "rr_game_id ?q = game_uuid (rec_game_id r)"
    by (simp_all add: recommendation_row_of_def)
  have fresh: "?k \<notin> fst ` set (t_recs (view s))" using Cons.prems(5) by auto
  then have none: "map_of (t_recs (view s)) (rr_id ?q) = None" by (simp add: k map_of_eq_None_iff)
  have pair: "\<forall>q' \<in> ran (map_of (t_recs (view s))). (rr_user_id q', rr_game_id q') \<noteq> (rr_user_id ?q, rr_game_id ?q)"
    using Cons.prems(6) by (simp add: k)
  from add_rec [OF Cons.prems(1) _ none pair] Cons.prems(2)
  have s: "txn db ?s" "unflushed ?s = insert PRecs (unflushed s)"
    "view ?s = (view s)\<lparr>t_recs := AList.update ?k (stored_recommendation c ?q) (t_recs (view s))\<rparr>"
    by (simp_all add: k)
  have t: "t_recs (view ?s) = t_recs (view s) @ [(?k, stored_recommendation c ?q)]"
    using s(3) by (simp add: update_fresh [OF fresh])
  have ids: "rec_uuid (rec_id q) \<noteq> ?k" if "q \<in> set rs" for q
    using Cons.prems(3) that by (metis distinct.simps(2) image_eqI list.set_map list.simps(9) recommendation_id.expand)
  have "fst ` set (t_recs (view ?s)) \<inter> (\<lambda>r. rec_uuid (rec_id r)) ` set rs = {}"
    using Cons.prems(5) ids by (auto simp: t) metis
  moreover have "\<forall>q \<in> ran (map_of (t_recs (view ?s))). \<forall>r \<in> set rs.
      (rr_user_id q, rr_game_id q) \<noteq> (user_uuid (rec_user_id r), game_uuid (rec_game_id r))"
  proof (intro ballI)
    fix q q' assume q: "q \<in> ran (map_of (t_recs (view ?s)))" "q' \<in> set rs"
    have "map_of (t_recs (view ?s)) = (map_of (t_recs (view s)))(?k \<mapsto> stored_recommendation c ?q)"
      by (simp add: s(3) dict_simps)
    with q(1) have "q \<in> ran (map_of (t_recs (view s))) \<or> q = stored_recommendation c ?q"
      using none by (auto simp: k ran_map_upd)
    then show "(rr_user_id q, rr_game_id q) \<noteq> (user_uuid (rec_user_id q'), game_uuid (rec_game_id q'))"
    proof
      assume "q \<in> ran (map_of (t_recs (view s)))"
      with Cons.prems(6) q(2) show ?thesis by simp
    next
      assume "q = stored_recommendation c ?q"
      moreover have "(rec_user_id r, rec_game_id r) \<noteq> (rec_user_id q', rec_game_id q')"
        using Cons.prems(4) q(2) by (auto simp: image_iff)
      ultimately show ?thesis by (auto simp: stored_recommendation_def k)
    qed
  qed
  ultimately have IH: "txn db (fold (\<lambda>r. se_add_rec se (recommendation_row_of r)) rs ?s) \<and>
    unflushed (fold (\<lambda>r. se_add_rec se (recommendation_row_of r)) rs ?s) \<subseteq> insert PRecs (unflushed ?s) \<and>
    view (fold (\<lambda>r. se_add_rec se (recommendation_row_of r)) rs ?s) = (view ?s)\<lparr>t_recs := t_recs (view ?s) @
      map (\<lambda>r. (rec_uuid (rec_id r), stored_recommendation c (recommendation_row_of r))) rs\<rparr>"
    using Cons.prems(2-4) by (intro Cons.IH [OF s(1)]) simp_all
  then show ?case using s(2,3) t by simp
qed

lemma adds_events:
  assumes "txn db s" "\<forall>e \<in> set es. outbox_row_fits (outbox_row_of topic cid e)"
    and "distinct (map ev_event_id es)" "fst ` set (t_outbox (view s)) \<inter> ev_event_id ` set es = {}"
  shows "txn db (sql_enqueue se topic cid es s) \<and>
    unflushed (sql_enqueue se topic cid es s) \<subseteq> insert POutbox (unflushed s) \<and>
    view (sql_enqueue se topic cid es s) = (view s)\<lparr>t_outbox := events_added c topic cid es (t_outbox (view s))\<rparr>"
  using assms
proof (induction es arbitrary: s)
  case Nil
  then show ?case by (simp add: sql_enqueue_def events_added_def subset_insertI)
next
  case (Cons e es)
  let ?x = "outbox_row_of topic cid e" and ?k = "ev_event_id e"
  let ?s = "se_add_outbox se ?x s"
  have k: "ox_id ?x = ?k" by (simp add: outbox_row_of_def)
  have fresh: "?k \<notin> fst ` set (t_outbox (view s))" using Cons.prems(4) by auto
  then have none: "map_of (t_outbox (view s)) (ox_id ?x) = None" by (simp add: k map_of_eq_None_iff)
  from add_outbox [OF Cons.prems(1) _ none] Cons.prems(2)
  have s: "txn db ?s" "unflushed ?s = insert POutbox (unflushed s)"
    "view ?s = (view s)\<lparr>t_outbox := AList.update ?k (stored_outbox c ?x) (t_outbox (view s))\<rparr>"
    by (simp_all add: k)
  have t: "t_outbox (view ?s) = t_outbox (view s) @ [(?k, stored_outbox c ?x)]"
    using s(3) by (simp add: update_fresh [OF fresh])
  have "fst ` set (t_outbox (view ?s)) \<inter> ev_event_id ` set es = {}" "distinct (map ev_event_id es)"
    using Cons.prems(3,4) by (auto simp: t)
  from Cons.IH [OF s(1) _ this(2,1)] Cons.prems(2) s(2,3) t show ?case
    by (simp add: sql_enqueue_def events_added_def)
qed

lemma replaces_recs:
  assumes t: "txn db s" and st: "storable dims topic cid (ReplaceRecs u rs)" and new: "PRecs \<notin> unflushed s"
    and fresh: "fst ` set (t_recs (view s)) \<inter> (\<lambda>r. rec_uuid (rec_id r)) ` set rs = {}"
  shows "\<exists>s'. sql_replace_for se u rs s = Inr s' \<and> txn db s' \<and> unflushed s' \<subseteq> insert PRecs (unflushed s) \<and>
    view s' = (view s)\<lparr>t_recs := recs_added c (user_uuid u) rs (t_recs (view s))\<rparr>"
proof -
  let ?d = "delete_recs (user_uuid u)" and ?s = "se_execute se (delete_recs (user_uuid u)) s"
  have "tables_ok (?d (view s))"
    using keys [OF t] by (auto simp: tables_ok_def delete_recs_def keyed_def dict_ok_filter)
  from execute [where f = ?d and u = "user_uuid u", OF t this] new have e: "txn db ?s" "unflushed ?s = unflushed s" "view ?s = ?d (view s)" by simp_all
  obtain s1 where f: "se_flush se ?s = Inr s1" "txn db s1" "unflushed s1 \<subseteq> unflushed s" "view s1 = ?d (view s)"
    using flush [OF e(1)] e(2,3) by auto
  have d: "t_recs (view s1) = filter (\<lambda>(k, r). rr_user_id r \<noteq> user_uuid u) (t_recs (view s))"
    by (simp add: f(4) delete_recs_def)
  let ?s' = "fold (\<lambda>r. se_add_rec se (recommendation_row_of r)) rs s1"
  have us: "rec_user_id r = u" if "r \<in> set rs" for r using st that by simp
  have "map (\<lambda>r. (rec_user_id r, rec_game_id r)) rs = map (\<lambda>g. (u, g)) (map rec_game_id rs)" using us by simp
  then have pairs: "distinct (map (\<lambda>r. (rec_user_id r, rec_game_id r)) rs)"
    using st by (simp only: distinct_map [of "\<lambda>g. (u, g)"]) (simp add: inj_on_def)
  have gone: "rr_user_id q \<noteq> user_uuid u" if "q \<in> ran (map_of (t_recs (view s1)))" for q
    using that map_of_SomeD by (fastforce simp: d ran_def)
  have adds: "txn db ?s' \<and> unflushed ?s' \<subseteq> insert PRecs (unflushed s1) \<and>
    view ?s' = (view s1)\<lparr>t_recs := t_recs (view s1) @
      map (\<lambda>r. (rec_uuid (rec_id r), stored_recommendation c (recommendation_row_of r))) rs\<rparr>"
  proof (rule adds_recs [OF f(2)])
    show "fst ` set (t_recs (view s1)) \<inter> (\<lambda>r. rec_uuid (rec_id r)) ` set rs = {}"
      using fresh by (force simp: d)
    show "\<forall>q \<in> ran (map_of (t_recs (view s1))). \<forall>r \<in> set rs.
        (rr_user_id q, rr_game_id q) \<noteq> (user_uuid (rec_user_id r), game_uuid (rec_game_id r))"
      using gone us by auto
  qed (use st pairs in simp_all)
  then have "view ?s' = (view s)\<lparr>t_recs := recs_added c (user_uuid u) rs (t_recs (view s))\<rparr>"
    unfolding recs_added_def by (simp add: d) (simp add: f(4) delete_recs_def)
  with adds f show ?thesis by (auto simp: sql_replace_for_def)
qed

lemma calls_spec:
  assumes c: "faithful_columns c" and t: "txn db s" and st: "storable dims topic cid x"
    and new: "set (call_keys x) \<inter> unflushed s = {}"
    and ids: "fst ` set (t_recs (view s)) \<inter> set (new_recs x) = {}" "fst ` set (t_outbox (view s)) \<inter> set (new_events x) = {}"
      "distinct (new_events x)"
  shows "\<exists>s'. sql_call se now topic cid x s = Inr s' \<and> txn db s' \<and>
    unflushed s' \<subseteq> insert POutbox (unflushed s \<union> set (call_keys x)) \<and>
    fst ` set (t_recs (view s')) \<subseteq> fst ` set (t_recs (view s)) \<union> set (new_recs x) \<and>
    fst ` set (t_outbox (view s')) \<subseteq> fst ` set (t_outbox (view s)) \<union> set (new_events x) \<and>
    table_world rf fs (view s') = call_effect c topic cid x (table_world rf fs (view s))"
proof (cases x)
  case (UpsertGame g)
  then show ?thesis using puts_game [OF c t st [unfolded UpsertGame], of rf fs] new by auto
next
  case (UpsertPref p)
  then show ?thesis using puts_pref [OF c t st [unfolded UpsertPref], of rf fs] new by auto
next
  case (RecordOwner u g counted)
  let ?f = "insert_owner now (user_uuid u) (game_uuid g) counted"
  have "tables_ok (?f (view s))"
    using keys [OF t] keyed_owner [of "view s" now "user_uuid u" "game_uuid g" counted]
    by (simp add: tables_ok_def) (simp add: insert_owner_def)
  from execute [where f = ?f, OF t this] statements(1) have "txn db (se_execute se ?f s)"
    "unflushed (se_execute se ?f s) = unflushed s" "view (se_execute se ?f s) = ?f (view s)" by simp_all
  moreover have "t_recs (?f (view s)) = t_recs (view s)" "t_outbox (?f (view s)) = t_outbox (view s)"
    by (simp_all add: insert_owner_def)
  ultimately show ?thesis by (auto simp: RecordOwner sql_record_owner_def world_owner)
next
  case (MarkCounted g us)
  let ?f = "update_counted (game_uuid g) (map user_uuid us)"
  have own: "keyed (\<lambda>r. (ow_user_id r, ow_game_id r)) (t_owners (view s))" using keys [OF t] by (simp add: tables_ok_def)
  show ?thesis
  proof (cases "us = []")
    case True
    then show ?thesis using t by (auto simp: MarkCounted sql_mark_counted_def)
  next
    case False
    have "tables_ok (?f (view s))"
      using keys [OF t] keyed_counted [OF own] by (simp add: tables_ok_def) (simp add: update_counted_def)
    from execute [where f = ?f, OF t this] statements(2) have "txn db (se_execute se ?f s)"
      "unflushed (se_execute se ?f s) = unflushed s" "view (se_execute se ?f s) = ?f (view s)" by simp_all
    moreover have "t_recs (?f (view s)) = t_recs (view s)" "t_outbox (?f (view s)) = t_outbox (view s)"
      by (simp_all add: update_counted_def)
    ultimately show ?thesis using False by (auto simp: MarkCounted sql_mark_counted_def world_counted [OF own])
  qed
next
  case (ReplaceRecs u rs)
  have "PRecs \<notin> unflushed s" using new by (simp add: ReplaceRecs)
  moreover have "fst ` set (t_recs (view s)) \<inter> (\<lambda>r. rec_uuid (rec_id r)) ` set rs = {}" using ids(1) by (simp add: ReplaceRecs)
  ultimately obtain s' where s': "sql_replace_for se u rs s = Inr s'" "txn db s'" "unflushed s' \<subseteq> insert PRecs (unflushed s)"
    "view s' = (view s)\<lparr>t_recs := recs_added c (user_uuid u) rs (t_recs (view s))\<rparr>"
    using replaces_recs [OF t st [unfolded ReplaceRecs]] by blast
  have "table_world rf fs (view s') = call_effect c topic cid x (table_world rf fs (view s))"
    using st list_of_user_added [of rs u c "t_recs (view s)"] by (simp add: s'(4) table_world_def ReplaceRecs)
  with s' show ?thesis by (auto simp: ReplaceRecs recs_added_def)
next
  case (Enqueue es)
  have e: "txn db (sql_enqueue se topic cid es s)" "unflushed (sql_enqueue se topic cid es s) \<subseteq> insert POutbox (unflushed s)"
    "view (sql_enqueue se topic cid es s) = (view s)\<lparr>t_outbox := events_added c topic cid es (t_outbox (view s))\<rparr>"
    using adds_events [OF t, of es topic cid] st ids by (simp_all add: Enqueue)
  have "(\<lambda>k. map_option to_record (map_of (events_added c topic cid es (t_outbox (view s))) k)) =
    fold (\<lambda>e m. m(ev_event_id e \<mapsto> kept_record c (outbox_record_of topic cid e))) es
      (\<lambda>k. map_option to_record (map_of (t_outbox (view s)) k))"
    using ids by (intro map_of_events_added) (simp_all add: Enqueue)
  with e show ?thesis by (auto simp: Enqueue table_world_def events_added_def simp del: fun_upd_apply)
next
  case (MarkEvent e)
  let ?f = "insert_processed now e"
  have "keyed pe_event_id (t_processed (view s))" using keys [OF t] by (simp add: tables_ok_def)
  then have "keyed pe_event_id (t_processed (?f (view s)))" by (simp add: insert_processed_def keyed_update)
  then have "tables_ok (?f (view s))" using keys [OF t] by (simp add: tables_ok_def) (simp add: insert_processed_def)
  from execute [where f = ?f, OF t this] statements(3) have "txn db (se_execute se ?f s)"
    "unflushed (se_execute se ?f s) = unflushed s" "view (se_execute se ?f s) = ?f (view s)" by simp_all
  moreover have "t_recs (?f (view s)) = t_recs (view s)" "t_outbox (?f (view s)) = t_outbox (view s)"
    by (simp_all add: insert_processed_def)
  ultimately show ?thesis by (auto simp: MarkEvent sql_mark_def world_processed)
qed

lemma all_calls_spec:
  assumes c: "faithful_columns c" and t: "txn db s" and st: "\<forall>x \<in> set calls. storable dims topic cid x"
    and new: "set (concat (map call_keys calls)) \<inter> unflushed s = {}" and once: "writes_once (view s) calls"
  shows "\<exists>s'. sql_calls se now topic cid calls s = Inr s' \<and> txn db s' \<and>
    table_world rf fs (view s') = fold (call_effect c topic cid) calls (table_world rf fs (view s))"
  using t st new once
proof (induction calls arbitrary: s)
  case Nil
  then show ?case by simp
next
  case (Cons x calls)
  have ids: "fst ` set (t_recs (view s)) \<inter> set (new_recs x) = {}" "fst ` set (t_outbox (view s)) \<inter> set (new_events x) = {}"
    "distinct (new_events x)" "set (call_keys x) \<inter> unflushed s = {}" "storable dims topic cid x"
    using Cons.prems by (auto simp: writes_once_def)
  obtain s1 where s1: "sql_call se now topic cid x s = Inr s1" "txn db s1"
    "unflushed s1 \<subseteq> insert POutbox (unflushed s \<union> set (call_keys x))"
    "fst ` set (t_recs (view s1)) \<subseteq> fst ` set (t_recs (view s)) \<union> set (new_recs x)"
    "fst ` set (t_outbox (view s1)) \<subseteq> fst ` set (t_outbox (view s)) \<union> set (new_events x)"
    "table_world rf fs (view s1) = call_effect c topic cid x (table_world rf fs (view s))"
    using calls_spec [OF c Cons.prems(1) ids(5,4) ids(1,2,3), of now rf fs] by blast
  have "POutbox \<notin> set (call_keys y)" for y by (cases y) simp_all
  then have "set (concat (map call_keys calls)) \<inter> unflushed s1 = {}"
    using s1(3) Cons.prems(3,4) by (auto simp: writes_once_def) blast+
  moreover have "writes_once (view s1) calls"
  proof -
    let ?r = "set (concat (map new_recs calls))" and ?e = "set (concat (map new_events calls))"
    have d: "set (new_recs x) \<inter> ?r = {}" "set (new_events x) \<inter> ?e = {}"
      "fst ` set (t_recs (view s)) \<inter> ?r = {}" "fst ` set (t_outbox (view s)) \<inter> ?e = {}"
      using Cons.prems(4) by (auto simp: writes_once_def)
    have "fst ` set (t_recs (view s1)) \<inter> ?r = {}" using s1(4) d(1,3) by blast
    moreover have "fst ` set (t_outbox (view s1)) \<inter> ?e = {}" using s1(5) d(2,4) by blast
    ultimately show ?thesis using Cons.prems(4) by (simp add: writes_once_def)
  qed
  ultimately show ?case using Cons.IH [OF s1(2)] Cons.prems(2) s1(1,6) by simp
qed

lemma transaction_spec:
  assumes "faithful_columns c" "ok db" "\<forall>x \<in> set calls. storable dims topic cid x" "writes_once (rows db) calls"
  shows "(\<exists>db'. sql_transaction se now topic cid calls db = (Inr (), db') \<and> ok db' \<and>
      table_world rf fs (rows db') = fold (call_effect c topic cid) calls (table_world rf fs (rows db))) \<and>
    (\<exists>s. sql_calls se now topic cid calls (su_session (sql_open se topic cid db)) = Inr s \<and>
      sql_exit se ((sql_open se topic cid db)\<lparr>su_session := s\<rparr>) = db)"
proof -
  have o: "txn db (se_open se db)" "view (se_open se db) = rows db" "unflushed (se_open se db) = {}"
    using opens [OF assms(2)] by simp_all
  obtain s where s: "sql_calls se now topic cid calls (se_open se db) = Inr s" "txn db s"
    "table_world rf fs (view s) = fold (call_effect c topic cid) calls (table_world rf fs (rows db))"
    using all_calls_spec [OF assms(1) o(1) assms(3), of now rf fs] assms(4) unfolding o(2,3) by blast
  obtain s' where s': "se_commit se s = Inr s'" "ok (se_close se s')" "rows (se_close se s') = view s"
    using commit [OF s(2)] by blast
  show ?thesis
  proof
    show "\<exists>db'. sql_transaction se now topic cid calls db = (Inr (), db') \<and> ok db' \<and>
      table_world rf fs (rows db') = fold (call_effect c topic cid) calls (table_world rf fs (rows db))"
      using s s' by (simp add: sql_transaction_def sql_open_def sql_commit_def sql_exit_def Let_def)
    show "\<exists>s. sql_calls se now topic cid calls (su_session (sql_open se topic cid db)) = Inr s \<and>
      sql_exit se ((sql_open se topic cid db)\<lparr>su_session := s\<rparr>) = db"
      using s rollback [OF s(2)] by (simp add: sql_open_def sql_exit_def)
  qed
qed

end

end
