(* ===== verification/SqlReference.thy ===== *)
theory SqlReference
  imports SqlWork
begin

text \<open>
  A reference session: tables, and the rows a session has added or changed and not flushed. It behaves
  as the locale \<open>session\<close> asks, constraints and rollback included, and the properties of the SQL
  backend are evaluated on it. \<open>plain_columns\<close> are columns that keep what they are given.
\<close>

section \<open>The session\<close>

text \<open>A written row carries whether it was added (\<open>True\<close>) or assigned to (\<open>False\<close>).\<close>

record ref_session =
  rs_base :: tables
  rs_seen :: tables
  rs_games :: "(bool \<times> game_row) list"
  rs_prefs :: "(bool \<times> preference_row) list"
  rs_recs :: "recommendation_row list"
  rs_outbox :: "outbox_row list"

definition ref_open :: "tables \<Rightarrow> ref_session" where
  "ref_open db = \<lparr>rs_base = db, rs_seen = db, rs_games = [], rs_prefs = [], rs_recs = [], rs_outbox = []\<rparr>"

definition assigned :: "('r \<Rightarrow> uuid) \<Rightarrow> (bool \<times> 'r) list \<Rightarrow> (uuid, 'r) dict \<Rightarrow> uuid \<Rightarrow> 'r option" where
  "assigned key ws t k =
     (case find (\<lambda>(new, r). \<not> new \<and> key r = k) ws of Some (_, r) \<Rightarrow> Some r | None \<Rightarrow> map_of t k)"

definition put_rows :: "('r \<Rightarrow> uuid) \<Rightarrow> ('r \<Rightarrow> 'r) \<Rightarrow> 'r list \<Rightarrow> (uuid, 'r) dict \<Rightarrow> (uuid, 'r) dict" where
  "put_rows key store rs t = fold (\<lambda>r. AList.update (key r) (store r)) rs t"

text \<open>The tables after a flush.\<close>

definition ref_view :: "columns \<Rightarrow> ref_session \<Rightarrow> tables" where
  "ref_view c s = (rs_seen s)
     \<lparr>t_games := put_rows gr_game_id (stored_game c) (map snd (rs_games s)) (t_games (rs_seen s)),
      t_prefs := put_rows pr_user_id (stored_preference c) (map snd (rs_prefs s)) (t_prefs (rs_seen s)),
      t_recs := put_rows rr_id (stored_recommendation c) (rs_recs s) (t_recs (rs_seen s)),
      t_outbox := put_rows ox_id (stored_outbox c) (rs_outbox s) (t_outbox (rs_seen s))\<rparr>"

text \<open>What the database checks: column types, primary keys, and one list entry per user and game.\<close>

definition rows_placed :: "('r \<Rightarrow> uuid) \<Rightarrow> (bool \<times> 'r) list \<Rightarrow> (uuid, 'r) dict \<Rightarrow> bool" where
  "rows_placed key ws t \<longleftrightarrow> distinct (map (\<lambda>(new, r). key r) ws) \<and> (\<forall>(new, r) \<in> set ws. new = (map_of t (key r) = None))"

definition rows_new :: "('r \<Rightarrow> 'k) \<Rightarrow> 'r list \<Rightarrow> 'r set \<Rightarrow> bool" where
  "rows_new key rs old \<longleftrightarrow> distinct (map key rs) \<and> key ` set rs \<inter> key ` old = {}"

abbreviation list_place :: "recommendation_row \<Rightarrow> uuid \<times> uuid" where
  "list_place r \<equiv> (rr_user_id r, rr_game_id r)"

definition flushable :: "nat \<Rightarrow> ref_session \<Rightarrow> bool" where
  "flushable dims s \<longleftrightarrow>
     list_all (\<lambda>(new, r). game_row_fits dims r) (rs_games s) \<and> rows_placed gr_game_id (rs_games s) (t_games (rs_seen s)) \<and>
     list_all (\<lambda>(new, p). preference_row_fits dims p) (rs_prefs s) \<and> rows_placed pr_user_id (rs_prefs s) (t_prefs (rs_seen s)) \<and>
     list_all recommendation_row_fits (rs_recs s) \<and> rows_new rr_id (rs_recs s) (set (table_rows (t_recs (rs_seen s)))) \<and>
     rows_new list_place (rs_recs s) (set (table_rows (t_recs (rs_seen s)))) \<and>
     list_all outbox_row_fits (rs_outbox s) \<and> rows_new ox_id (rs_outbox s) (set (table_rows (t_outbox (rs_seen s))))"

definition ref_flush :: "columns \<Rightarrow> nat \<Rightarrow> ref_session \<Rightarrow> exn + ref_session" where
  "ref_flush c dims s =
     (if flushable dims s
      then Inr (s\<lparr>rs_seen := ref_view c s, rs_games := [], rs_prefs := [], rs_recs := [], rs_outbox := []\<rparr>)
      else Inl (RuntimeError ''the database refused the rows''))"

definition reference_session :: "columns \<Rightarrow> nat \<Rightarrow> (tables, ref_session) session_ops" where
  "reference_session c dims =
     \<lparr>se_open = ref_open, se_tables = rs_seen, se_object = (\<lambda>s r. the (assigned gr_game_id (rs_games s) [(gr_game_id r, r)] (gr_game_id r))),
      se_get_game = (\<lambda>s. assigned gr_game_id (rs_games s) (t_games (rs_seen s))),
      se_get_pref = (\<lambda>s. assigned pr_user_id (rs_prefs s) (t_prefs (rs_seen s))),
      se_assign_game = (\<lambda>r s. s\<lparr>rs_games := rs_games s @ [(False, r)]\<rparr>),
      se_assign_pref = (\<lambda>p s. s\<lparr>rs_prefs := rs_prefs s @ [(False, p)]\<rparr>),
      se_add_game = (\<lambda>r s. s\<lparr>rs_games := rs_games s @ [(True, r)]\<rparr>),
      se_add_pref = (\<lambda>p s. s\<lparr>rs_prefs := rs_prefs s @ [(True, p)]\<rparr>),
      se_add_rec = (\<lambda>r s. s\<lparr>rs_recs := rs_recs s @ [r]\<rparr>),
      se_add_outbox = (\<lambda>r s. s\<lparr>rs_outbox := rs_outbox s @ [r]\<rparr>),
      se_execute = (\<lambda>f s. s\<lparr>rs_seen := f (rs_seen s)\<rparr>),
      se_flush = ref_flush c dims,
      se_commit = (\<lambda>s. bindE (ref_flush c dims s) (\<lambda>s. Inr (s\<lparr>rs_base := rs_seen s\<rparr>))),
      se_rollback = (\<lambda>s. ref_open (rs_base s)), se_close = rs_base\<rparr>"

definition ref_unflushed :: "ref_session \<Rightarrow> pending set" where
  "ref_unflushed s = (\<lambda>(new, r). PGame (gr_game_id r)) ` set (rs_games s) \<union> (\<lambda>(new, p). PPref (pr_user_id p)) ` set (rs_prefs s) \<union>
     (if rs_recs s = [] then {} else {PRecs}) \<union> (if rs_outbox s = [] then {} else {POutbox})"

definition ref_txn :: "columns \<Rightarrow> nat \<Rightarrow> tables \<Rightarrow> ref_session \<Rightarrow> bool" where
  "ref_txn c dims db s \<longleftrightarrow> rs_base s = db \<and> tables_ok (rs_seen s) \<and> tables_ok (ref_view c s) \<and> flushable dims s"

section \<open>It is one\<close>

lemma put_rows_simps [simp]:
  "put_rows key store [] t = t"
  "put_rows key store (rs @ [r]) t = AList.update (key r) (store r) (put_rows key store rs t)"
  by (simp_all add: put_rows_def)

lemma map_of_put_rows: "k \<notin> key ` set rs \<Longrightarrow> map_of (put_rows key store rs t) k = map_of t k"
  unfolding put_rows_def by (induction rs arbitrary: t) (simp_all add: dict_simps)

lemma keyed_put_rows: "keyed key t \<Longrightarrow> (\<And>r. key (store r) = key r) \<Longrightarrow> keyed key (put_rows key store rs t)"
  unfolding put_rows_def by (induction rs arbitrary: t) (simp_all add: keyed_update)

lemma put_rows_grow: "fst ` set (put_rows key store rs t) = fst ` set t \<union> key ` set rs"
  unfolding put_rows_def by (induction rs arbitrary: t) (auto simp: dict_simps)

lemma stored_keys [simp]:
  "gr_game_id (stored_game c r) = gr_game_id r" "pr_user_id (stored_preference c p) = pr_user_id p"
  "rr_id (stored_recommendation c q) = rr_id q" "ox_id (stored_outbox c x) = ox_id x"
  "rr_user_id (stored_recommendation c q) = rr_user_id q" "rr_game_id (stored_recommendation c q) = rr_game_id q"
  by (simp_all add: stored_game_def stored_preference_def stored_recommendation_def stored_outbox_def)

lemma assigned_untouched: "k \<notin> (\<lambda>(new, r). key r) ` set ws \<Longrightarrow> assigned key ws t k = map_of t k"
proof -
  assume "k \<notin> (\<lambda>(new, r). key r) ` set ws"
  then have "find (\<lambda>(new, r). \<not> new \<and> key r = k) ws = None" by (force simp: find_None_iff)
  then show ?thesis by (simp add: assigned_def)
qed

lemma tables_ok_updates:
  assumes "tables_ok t"
  shows "tables_ok (t\<lparr>t_games := AList.update (gr_game_id r) r (t_games t)\<rparr>)"
    "tables_ok (t\<lparr>t_prefs := AList.update (pr_user_id p) p (t_prefs t)\<rparr>)"
    "tables_ok (t\<lparr>t_recs := AList.update (rr_id q) q (t_recs t)\<rparr>)"
    "tables_ok (t\<lparr>t_outbox := AList.update (ox_id x) x (t_outbox t)\<rparr>)"
  using assms by (simp_all add: tables_ok_def keyed_update)

lemma rows_placed_snoc:
  assumes "rows_placed key ws t" "key r \<notin> (\<lambda>(new, r). key r) ` set ws" "new = (map_of t (key r) = None)"
  shows "rows_placed key (ws @ [(new, r)]) t"
  using assms by (auto simp: rows_placed_def)

lemma rows_new_snoc:
  assumes "rows_new key rs old" "key r \<notin> key ` set rs" "key r \<notin> key ` old"
  shows "rows_new key (rs @ [r]) old"
  using assms by (auto simp: rows_new_def)

text \<open>The rows of a table after fresh rows were put.\<close>

lemma table_rows_put:
  assumes "distinct (map key rs)" "key ` set rs \<inter> fst ` set t = {}"
  shows "put_rows key store rs t = t @ map (\<lambda>r. (key r, store r)) rs"
  using assms
proof (induction rs rule: rev_induct)
  case Nil
  then show ?case by simp
next
  case (snoc r rs)
  then have "put_rows key store rs t = t @ map (\<lambda>r. (key r, store r)) rs" by auto
  moreover have "key r \<notin> fst ` set (t @ map (\<lambda>r. (key r, store r)) rs)" using snoc.prems by (auto simp: image_iff)
  ultimately show ?case by (simp add: update_fresh)
qed

lemma not_image: "(\<And>x. x \<in> A \<Longrightarrow> f x \<noteq> y) \<Longrightarrow> y \<notin> f ` A"
  by blast

lemma keyed_keys: "keyed key t \<Longrightarrow> key ` set (table_rows t) = fst ` set t"
  by (force simp: keyed_def)

lemma new_recs_rows:
  assumes "flushable dims s" "tables_ok (rs_seen s)"
  shows "t_recs (ref_view c s) = t_recs (rs_seen s) @ map (\<lambda>r. (rr_id r, stored_recommendation c r)) (rs_recs s)"
    "t_outbox (ref_view c s) = t_outbox (rs_seen s) @ map (\<lambda>r. (ox_id r, stored_outbox c r)) (rs_outbox s)"
proof -
  have "rr_id ` set (rs_recs s) \<inter> fst ` set (t_recs (rs_seen s)) = {}" "distinct (map rr_id (rs_recs s))"
    "ox_id ` set (rs_outbox s) \<inter> fst ` set (t_outbox (rs_seen s)) = {}" "distinct (map ox_id (rs_outbox s))"
    using assms keyed_keys [of rr_id "t_recs (rs_seen s)"] keyed_keys [of ox_id "t_outbox (rs_seen s)"]
    by (auto simp: flushable_def rows_new_def tables_ok_def)
  then show "t_recs (ref_view c s) = t_recs (rs_seen s) @ map (\<lambda>r. (rr_id r, stored_recommendation c r)) (rs_recs s)"
    "t_outbox (ref_view c s) = t_outbox (rs_seen s) @ map (\<lambda>r. (ox_id r, stored_outbox c r)) (rs_outbox s)"
    by (simp_all add: ref_view_def table_rows_put)
qed

lemma ref_put_game:
  assumes t: "ref_txn c dims db s" and new: "PGame (gr_game_id r) \<notin> ref_unflushed s" and fits: "game_row_fits dims r"
    and b: "b = (map_of (t_games (ref_view c s)) (gr_game_id r) = None)"
  shows "ref_txn c dims db (s\<lparr>rs_games := rs_games s @ [(b, r)]\<rparr>) \<and>
    ref_unflushed (s\<lparr>rs_games := rs_games s @ [(b, r)]\<rparr>) = insert (PGame (gr_game_id r)) (ref_unflushed s) \<and>
    ref_view c (s\<lparr>rs_games := rs_games s @ [(b, r)]\<rparr>) = (ref_view c s)
      \<lparr>t_games := AList.update (gr_game_id r) (stored_game c r) (t_games (ref_view c s))\<rparr>"
proof -
  let ?s = "s\<lparr>rs_games := rs_games s @ [(b, r)]\<rparr>"
  have k: "gr_game_id r \<notin> (\<lambda>(n, r). gr_game_id r) ` set (rs_games s)" using new by (auto simp: ref_unflushed_def)
  then have "gr_game_id r \<notin> gr_game_id ` set (map snd (rs_games s))" by force
  then have "b = (map_of (t_games (rs_seen s)) (gr_game_id r) = None)"
    by (simp add: b ref_view_def map_of_put_rows del: set_map)
  with t k fits have f: "flushable dims ?s" by (simp add: ref_txn_def flushable_def rows_placed_snoc)
  have v: "ref_view c ?s = (ref_view c s)
      \<lparr>t_games := AList.update (gr_game_id r) (stored_game c r) (t_games (ref_view c s))\<rparr>"
    by (simp add: ref_view_def)
  have "tables_ok (ref_view c ?s)"
    using tables_ok_updates(1) [of "ref_view c s" "stored_game c r"] t unfolding v ref_txn_def by simp
  with f t v show ?thesis by (auto simp: ref_txn_def ref_unflushed_def)
qed

lemma ref_put_pref:
  assumes t: "ref_txn c dims db s" and new: "PPref (pr_user_id r) \<notin> ref_unflushed s" and fits: "preference_row_fits dims r"
    and b: "b = (map_of (t_prefs (ref_view c s)) (pr_user_id r) = None)"
  shows "ref_txn c dims db (s\<lparr>rs_prefs := rs_prefs s @ [(b, r)]\<rparr>) \<and>
    ref_unflushed (s\<lparr>rs_prefs := rs_prefs s @ [(b, r)]\<rparr>) = insert (PPref (pr_user_id r)) (ref_unflushed s) \<and>
    ref_view c (s\<lparr>rs_prefs := rs_prefs s @ [(b, r)]\<rparr>) = (ref_view c s)
      \<lparr>t_prefs := AList.update (pr_user_id r) (stored_preference c r) (t_prefs (ref_view c s))\<rparr>"
proof -
  let ?s = "s\<lparr>rs_prefs := rs_prefs s @ [(b, r)]\<rparr>"
  have k: "pr_user_id r \<notin> (\<lambda>(n, r). pr_user_id r) ` set (rs_prefs s)" using new by (auto simp: ref_unflushed_def)
  then have "pr_user_id r \<notin> pr_user_id ` set (map snd (rs_prefs s))" by force
  then have "b = (map_of (t_prefs (rs_seen s)) (pr_user_id r) = None)"
    by (simp add: b ref_view_def map_of_put_rows del: set_map)
  with t k fits have f: "flushable dims ?s" by (simp add: ref_txn_def flushable_def rows_placed_snoc)
  have v: "ref_view c ?s = (ref_view c s)
      \<lparr>t_prefs := AList.update (pr_user_id r) (stored_preference c r) (t_prefs (ref_view c s))\<rparr>"
    by (simp add: ref_view_def)
  have "tables_ok (ref_view c ?s)"
    using tables_ok_updates(2) [of "ref_view c s" "stored_preference c r"] t unfolding v ref_txn_def by simp
  with f t v show ?thesis by (auto simp: ref_txn_def ref_unflushed_def)
qed

lemma ref_add_rec:
  assumes t: "ref_txn c dims db s" and fits: "recommendation_row_fits q"
    and id: "map_of (t_recs (ref_view c s)) (rr_id q) = None"
    and pair: "\<forall>q' \<in> ran (map_of (t_recs (ref_view c s))). list_place q' \<noteq> list_place q"
  shows "ref_txn c dims db (s\<lparr>rs_recs := rs_recs s @ [q]\<rparr>) \<and>
    ref_unflushed (s\<lparr>rs_recs := rs_recs s @ [q]\<rparr>) = insert PRecs (ref_unflushed s) \<and>
    ref_view c (s\<lparr>rs_recs := rs_recs s @ [q]\<rparr>) = (ref_view c s)
      \<lparr>t_recs := AList.update (rr_id q) (stored_recommendation c q) (t_recs (ref_view c s))\<rparr>"
proof -
  let ?s = "s\<lparr>rs_recs := rs_recs s @ [q]\<rparr>"
  have fl: "flushable dims s" and ok: "tables_ok (rs_seen s)" "tables_ok (ref_view c s)"
    using t by (simp_all add: ref_txn_def)
  note view = new_recs_rows(1) [OF fl ok(1), of c]
  have "rr_id q \<notin> fst ` set (t_recs (ref_view c s))" using id by (simp add: map_of_eq_None_iff)
  then have ids: "rr_id q \<notin> rr_id ` set (rs_recs s)" "rr_id q \<notin> rr_id ` set (table_rows (t_recs (rs_seen s)))"
    using keyed_keys [of rr_id "t_recs (rs_seen s)"] ok(1)
    by (simp_all add: ref_view_def put_rows_grow tables_ok_def del: set_map)
  have "ran (map_of (t_recs (ref_view c s))) = set (table_rows (t_recs (ref_view c s)))"
    by (rule set_values [symmetric]) (use ok(2) in \<open>simp add: tables_ok_def keyed_def\<close>)
  also have "\<dots> = set (table_rows (t_recs (rs_seen s))) \<union> stored_recommendation c ` set (rs_recs s)"
    unfolding view by force
  finally have ran: "\<forall>q' \<in> set (table_rows (t_recs (rs_seen s))) \<union> stored_recommendation c ` set (rs_recs s). list_place q' \<noteq> list_place q"
    using pair by simp
  have "list_place q \<notin> list_place ` set (table_rows (t_recs (rs_seen s)))"
    by (rule not_image) (use ran in simp)
  moreover have "list_place q \<notin> list_place ` set (rs_recs s)"
    by (rule not_image) (use ran in \<open>simp add: ball_Un\<close>)
  ultimately have f: "flushable dims ?s" using fl fits ids by (simp add: flushable_def rows_new_snoc del: set_map)
  have v: "ref_view c ?s = (ref_view c s)
      \<lparr>t_recs := AList.update (rr_id q) (stored_recommendation c q) (t_recs (ref_view c s))\<rparr>"
    by (simp add: ref_view_def)
  have "tables_ok (ref_view c ?s)"
    using tables_ok_updates(3) [OF ok(2), of "stored_recommendation c q"] unfolding v by simp
  with f t v show ?thesis by (auto simp: ref_txn_def ref_unflushed_def)
qed

lemma ref_add_outbox:
  assumes t: "ref_txn c dims db s" and fits: "outbox_row_fits x"
    and id: "map_of (t_outbox (ref_view c s)) (ox_id x) = None"
  shows "ref_txn c dims db (s\<lparr>rs_outbox := rs_outbox s @ [x]\<rparr>) \<and>
    ref_unflushed (s\<lparr>rs_outbox := rs_outbox s @ [x]\<rparr>) = insert POutbox (ref_unflushed s) \<and>
    ref_view c (s\<lparr>rs_outbox := rs_outbox s @ [x]\<rparr>) = (ref_view c s)
      \<lparr>t_outbox := AList.update (ox_id x) (stored_outbox c x) (t_outbox (ref_view c s))\<rparr>"
proof -
  let ?s = "s\<lparr>rs_outbox := rs_outbox s @ [x]\<rparr>"
  have fl: "flushable dims s" and ok: "tables_ok (rs_seen s)" "tables_ok (ref_view c s)"
    using t by (simp_all add: ref_txn_def)
  have "ox_id x \<notin> fst ` set (t_outbox (ref_view c s))" using id by (simp add: map_of_eq_None_iff)
  then have "ox_id x \<notin> ox_id ` set (rs_outbox s)" "ox_id x \<notin> ox_id ` set (table_rows (t_outbox (rs_seen s)))"
    using keyed_keys [of ox_id "t_outbox (rs_seen s)"] ok(1)
    by (simp_all add: ref_view_def put_rows_grow tables_ok_def del: set_map)
  then have f: "flushable dims ?s" using fl fits by (simp add: flushable_def rows_new_snoc del: set_map)
  have v: "ref_view c ?s = (ref_view c s)
      \<lparr>t_outbox := AList.update (ox_id x) (stored_outbox c x) (t_outbox (ref_view c s))\<rparr>"
    by (simp add: ref_view_def)
  have "tables_ok (ref_view c ?s)"
    using tables_ok_updates(4) [OF ok(2), of "stored_outbox c x"] unfolding v by simp
  with f t v show ?thesis by (auto simp: ref_txn_def ref_unflushed_def)
qed

lemma ref_execute:
  assumes t: "ref_txn c dims db s" and ok: "tables_ok (f (ref_view c s))"
    and f: "owner_statement f \<or> processed_statement f \<or> (PRecs \<notin> ref_unflushed s \<and> f = delete_recs u)"
  shows "ref_txn c dims db (s\<lparr>rs_seen := f (rs_seen s)\<rparr>) \<and>
    ref_unflushed (s\<lparr>rs_seen := f (rs_seen s)\<rparr>) = ref_unflushed s \<and>
    ref_view c (s\<lparr>rs_seen := f (rs_seen s)\<rparr>) = f (ref_view c s)"
  using f
proof (elim disjE conjE)
  assume "owner_statement f"
  then obtain h where h: "\<And>t. f t = t\<lparr>t_owners := h (t_owners t)\<rparr>" by (auto simp: owner_statement_def)
  show ?thesis using t ok
    by (simp add: h ref_txn_def ref_view_def flushable_def tables_ok_def ref_unflushed_def)
next
  assume "processed_statement f"
  then obtain h where h: "\<And>t. f t = t\<lparr>t_processed := h (t_processed t)\<rparr>" by (auto simp: processed_statement_def)
  show ?thesis using t ok
    by (simp add: h ref_txn_def ref_view_def flushable_def tables_ok_def ref_unflushed_def)
next
  assume "PRecs \<notin> ref_unflushed s" "f = delete_recs u"
  moreover from this(1) have "rs_recs s = []" by (auto simp: ref_unflushed_def split: if_splits)
  ultimately show ?thesis using t ok
    by (simp add: delete_recs_def ref_txn_def ref_view_def flushable_def tables_ok_def ref_unflushed_def rows_new_def)
qed

interpretation reference: session "reference_session c dims" c dims tables_ok "\<lambda>t. t" "ref_txn c dims" "ref_view c" ref_unflushed
  for c dims
proof (unfold_locales, goal_cases)
  case (1 db)
  then show ?case
    by (simp add: reference_session_def ref_open_def ref_txn_def ref_view_def flushable_def rows_placed_def rows_new_def ref_unflushed_def)
next
  case (2 db s)
  then show ?case by (simp add: ref_txn_def)
next
  case (3 db s)
  then have "rs_games s = []" "rs_prefs s = []" "rs_recs s = []" "rs_outbox s = []"
    by (auto simp: ref_unflushed_def split: if_splits)
  then show ?case by (simp add: reference_session_def ref_view_def assigned_def)
next
  case (4 db s k)
  then have "k \<notin> (\<lambda>(n, r). gr_game_id r) ` set (rs_games s)" by (auto simp: ref_unflushed_def)
  moreover from this have "k \<notin> gr_game_id ` set (map snd (rs_games s))" by force
  ultimately show ?case
    by (simp add: reference_session_def assigned_untouched ref_view_def map_of_put_rows del: set_map)
next
  case (5 db s k)
  then have "k \<notin> (\<lambda>(n, r). pr_user_id r) ` set (rs_prefs s)" by (auto simp: ref_unflushed_def)
  moreover from this have "k \<notin> pr_user_id ` set (map snd (rs_prefs s))" by force
  ultimately show ?case
    by (simp add: reference_session_def assigned_untouched ref_view_def map_of_put_rows del: set_map)
next
  case (6 db s r put)
  then show ?case using ref_put_game [OF 6(1-3) refl]
    by (cases "map_of (t_games (ref_view c s)) (gr_game_id r)") (simp_all add: reference_session_def)
next
  case (7 db s p store)
  then show ?case using ref_put_pref [OF 7(1-3) refl]
    by (cases "map_of (t_prefs (ref_view c s)) (pr_user_id p)") (simp_all add: reference_session_def)
next
  case (8 db s q)
  then show ?case using ref_add_rec [OF 8] by (simp add: reference_session_def)
next
  case (9 db s x)
  then show ?case using ref_add_outbox [OF 9] by (simp add: reference_session_def)
next
  case (10 db s f u)
  then show ?case using ref_execute [OF 10] by (simp add: reference_session_def)
next
  case (11 db s)
  then show ?case
    by (simp add: reference_session_def ref_flush_def ref_txn_def ref_unflushed_def ref_view_def flushable_def rows_placed_def rows_new_def)
next
  case (12 db s)
  then show ?case by (simp add: reference_session_def ref_flush_def ref_txn_def)
next
  case (13 db s)
  then show ?case by (simp add: reference_session_def ref_txn_def ref_open_def)
qed

end
