(* ===== verification/RowLaws.thy ===== *)
theory RowLaws
  imports Rows Laws
begin

text \<open>
  What the tables promise the domain: whatever was written comes back as it was, up to what the columns
  change, and a description the domain accepts fits its row.
\<close>

section \<open>Columns that change nothing\<close>

definition plain_columns :: columns where
  "plain_columns = \<lparr>col_json = (\<lambda>j. j), col_vector = (\<lambda>v. v), col_time = (\<lambda>t. t)\<rparr>"

lemma plain_columns_faithful: "faithful_columns plain_columns"
proof -
  have "mset d = mset (map (\<lambda>(k, v). (k, v)) d)" for d :: "(string, json) dict" by simp
  then show ?thesis by (auto simp: faithful_columns_def plain_columns_def aware_def)
qed

section \<open>Round trips\<close>

text \<open>C26: what the SQL backend writes is what a later transaction reads, with columns that behave as
  documented. A well-formed game comes back with every field, except that its features may be in another
  order and their weights integers, its vector in single precision and its date the same instant. A
  profile comes back with its owner, its library, its whole history in order and its count, under the same
  reservations, and a recommendation with everything but its date spelled as before.\<close>

theorem rows_read_back:
  assumes c: "faithful_columns c" and g: "wf_game g" and p: "wf_pref p" and r: "mk_recommendation r = Inr r"
    and aware: "\<forall>t \<in> set_option (published_at g) \<union> set_option (updated_at p) \<union> {rec_generated_at r}. offset t \<noteq> None"
  shows "(\<exists>g'. game_to_domain rf (stored_game c (write_game row g)) = Inr g' \<and>
      g' = g\<lparr>embedding := embedding g', dense := dense g', published_at := published_at g'\<rparr> \<and>
      (\<forall>n. coord (embedding g') n = coord (embedding g) n) \<and> dimensions (dense g') = dimensions (dense g) \<and>
      map_option instant (published_at g') = map_option instant (published_at g)) \<and>
    (\<exists>p'. preference_to_domain rf fs (stored_preference c (write_preference prow p)) = Inr p' \<and> wf_pref p' \<and>
      p' = p\<lparr>taste := taste p', taste_dense := taste_dense p', updated_at := updated_at p'\<rparr> \<and>
      (\<forall>n. coord (taste p') n = coord (taste p) n) \<and> dimensions (taste_dense p') = dimensions (taste_dense p) \<and>
      map_option instant (updated_at p') = map_option instant (updated_at p)) \<and>
    (\<exists>r'. recommendation_to_domain (stored_recommendation c (recommendation_row_of r)) = Inr r' \<and>
      r' = r\<lparr>rec_generated_at := rec_generated_at r'\<rparr> \<and> instant (rec_generated_at r') = instant (rec_generated_at r))"
proof -
  have wf: "wf_embedding (embedding g)" "wf_embedding (taste p)" using g p by (simp_all add: wf_game_def wf_pref_def)
  have time: "map_option instant (map_option (kept_time c) t) = map_option instant t"
    if "\<forall>u \<in> set_option t. offset u \<noteq> None" for t
    using that by (cases t) (simp_all add: kept_time [OF c])
  have "wf_pref (kept_preference c p)"
    using p kept_embedding(2) [OF c wf(2)] by (simp add: wf_pref_def kept_preference_def)
  moreover have "map_option instant (map_option (kept_time c) (published_at g)) = map_option instant (published_at g)"
    "map_option instant (map_option (kept_time c) (updated_at p)) = map_option instant (updated_at p)"
    "instant (kept_time c (rec_generated_at r)) = instant (rec_generated_at r)"
    using aware by (simp_all add: time kept_time [OF c] del: option.map_comp)
  ultimately show ?thesis
    unfolding game_comes_back [OF c wf(1) mk_game_profile_wf [OF g]] preference_comes_back [OF c wf(2)]
      recommendation_comes_back [OF r]
    using kept_embedding(3) [OF c wf(1)] kept_embedding(3) [OF c wf(2)] kept_dense(2) [OF c]
    by (simp add: kept_game_def kept_preference_def kept_recommendation_def del: option.map_comp)
qed

definition sample_recommendation :: recommendation where
  "sample_recommendation = \<lparr>rec_id = RecommendationId 3, rec_user_id = UserId 7, rec_game_id = GameId 1,
     rec_score = 1 / 2, rec_source = HYBRID, rec_rank = 1, rec_generated_at = utc 0, rec_reasons = []\<rparr>"

lemma rows_read_back_witness:
  "\<exists>p'. preference_to_domain (\<lambda>_. None) (\<lambda>_. []) (stored_preference plain_columns (write_preference (new_preference_row 0)
      (blank (UserId 7)))) = Inr p' \<and> wf_pref p'"
proof -
  have "mk_recommendation sample_recommendation = Inr sample_recommendation"
    "\<forall>t \<in> set_option (published_at sample_game) \<union> set_option (updated_at (blank (UserId 7))) \<union>
      {rec_generated_at sample_recommendation}. offset t \<noteq> None"
    by (simp_all add: sample_recommendation_def mk_recommendation_def sample_game_def blank_game_def blank_def utc_def)
  from rows_read_back [OF plain_columns_faithful wf_sample_game wf_blank this, THEN conjunct2, THEN conjunct1]
  show ?thesis by blast
qed

section \<open>Fitting the columns\<close>

lemma text_fits_strip: "text_fits s \<Longrightarrow> text_fits (py_strip s)"
  using set_py_strip by (auto simp: text_fits_def)

lemma lower_char_zero: "lower_char c = CHR 0x00 \<longleftrightarrow> c = CHR 0x00"
proof -
  have "cp (lower_char c) = cp (CHR 0x00) \<longleftrightarrow> cp c = cp (CHR 0x00)"
    by (cases c) (simp add: lower_char_def cp_def Let_def)
  then show ?thesis by (metis cp_def of_char_eq_iff)
qed

lemma text_fits_normalised:
  assumes "text_fits l"
  shows "text_fits (normalised l)"
proof -
  let ?words = "py_split (py_lower (py_strip l))"
  have "CHR 0x00 \<notin> lower_char ` set (py_strip l)"
    using text_fits_strip [OF assms] lower_char_zero unfolding text_fits_def by (metis imageE)
  then have "CHR 0x00 \<notin> set (py_lower (py_strip l))" by (simp add: py_lower_def)
  then have "CHR 0x00 \<notin> \<Union> (set ` set ?words)" using py_split_word [of _ "py_lower (py_strip l)"] by blast
  moreover have "CHR 0x00 \<notin> set ''-''" by simp
  ultimately show ?thesis
    unfolding text_fits_def normalised_def using py_join_set [of "''-''" ?words] by blast
qed

text \<open>C39: the type of a game's row. A description the domain accepts, whether for a new game or for a known
  one, fits the columns of the game's row: the title in 200 characters, the texts, the labels and the
  features of the embedding without the character PostgreSQL cannot hold, no vector yet and the count in 32
  bits, if the four texts of the event have no such character and the count of a known game fits. And the
  texts as they are written are the only way to miss: a row with such a character does not fit.\<close>

theorem accepted_descriptions_fit_their_row:
  assumes accepted: "published gid dev t gs ts pa d = Inr g \<or>
      (redescribed known t gs ts d = Inr g \<and> 0 \<le> purchase_count known \<and> purchase_count known < 2 ^ 31)"
  shows "game_row_fits dims (write_game row g) \<longleftrightarrow>
      text_fits (py_strip t) \<and> list_all text_fits gs \<and> list_all text_fits ts \<and> text_fits (trimmed d)"
proof -
  have g: "title g = py_strip t \<and> length (py_strip t) \<le> MAX_TITLE_CHARS \<and> genres g = gs \<and> tags g = ts \<and>
      description g = trimmed d \<and> dense g = dense_empty \<and> embedding g = emb_of (label_features gs ts) \<and>
      0 \<le> purchase_count g \<and> purchase_count g < 2 ^ 31"
    using accepted
    by (auto simp: published_def redescribed_def mk_game_profile_def res_simps dest!: embed_InrD split: if_splits)
  have "list_all (\<lambda>(k, v). text_fits k \<and> json_fits v) (weights_column (embedding g))"
    if "list_all text_fits gs" "list_all text_fits ts"
  proof -
    have "text_fits (normalised l)" if "l \<in> set gs \<union> set ts" for l
      using that \<open>list_all text_fits gs\<close> \<open>list_all text_fits ts\<close> text_fits_normalised by (auto simp: list_all_iff)
    then have "text_fits n" if "n \<in> set (label_features gs ts)" for n
      using that by (auto simp: label_features_def text_fits_def)
    moreover have "fst ` set (dfromkeys (label_features gs ts) (1 :: real)) = set (label_features gs ts)"
      unfolding dom_map_of_conv_image_fst [symmetric] map_of_dfromkeys by (auto split: if_splits)
    then have "fst ` set (weights (emb_of (label_features gs ts))) \<subseteq> set (label_features gs ts)"
      by (auto simp: emb_of_def mk_embedding_def)
    ultimately show ?thesis using g by (fastforce simp: list_all_iff weights_column_def)
  qed
  then show ?thesis
    using g
    by (auto simp: game_row_fits_def write_game_def string_fits_def vector_fits_def dense_to_column_def
        dense_is_empty_def dense_empty_def integer_fits_def)
qed

lemma accepted_descriptions_fit_their_row_witness:
  "\<exists>g. published (GameId 1) (UserId 2) ''Hades'' [''RPG''] [] None ''Escape'' = Inr g \<and>
     game_row_fits 1024 (write_game (new_game_row 0) g)"
proof -
  obtain g where g: "published (GameId 1) (UserId 2) ''Hades'' [''RPG''] [] None ''Escape'' = Inr g"
    using sample_describable mk_described by (auto simp: published_def describable_def embed_fits mk_game_profile_def res_simps)
  moreover have "text_fits (py_strip ''Hades'') \<and> list_all text_fits [''RPG''] \<and> list_all text_fits [] \<and> text_fits (trimmed ''Escape'')"
    by (simp add: text_fits_def list_all_iff, code_simp)
  ultimately show ?thesis
    using accepted_descriptions_fit_their_row [OF disjI1 [OF g], of 1024 "new_game_row 0"] by blast
qed

end
