(* ===== verification/SqlPromises.thy ===== *)
theory SqlPromises
  imports SqlReference RowLaws Delivery
begin

text \<open>
  The promises of the SQL backend, for any session that behaves as documented: a committed unit of work
  has exactly the effect of its calls, an uncommitted one has none, and the reads of a fresh one are
  those the contract \<open>unit_of_work\<close> asks for, which the in-memory backend meets too.
\<close>

section \<open>A small database\<close>

definition no_tables :: tables where
  "no_tables = \<lparr>t_games = [], t_prefs = [], t_owners = [], t_recs = [], t_outbox = [], t_processed = []\<rparr>"

lemma no_tables_ok: "tables_ok no_tables"
  by (simp add: no_tables_def tables_ok_def keyed_def)

lemma sample_game_storable: "storable dims topic cid (UpsertGame sample_game)"
proof -
  have "game_row_fits dims (write_game (new_game_row 0) sample_game)"
    by (simp add: sample_game_def blank_game_def game_row_fits_def write_game_def new_game_row_def string_fits_def
        text_fits_def MAX_TITLE_CHARS_def weights_column_def dense_to_column_def dense_is_empty_def dense_empty_def
        vector_fits_def integer_fits_def emb_of_def mk_embedding_def dfromkeys_def)
  with wf_sample_game show ?thesis by (simp add: mk_game_profile_wf wf_game_def)
qed

section \<open>Writes\<close>

text \<open>C7: a unit of work on the SQL backend has exactly the effect of its calls, all of it at the commit and
  none of it before. With a session that behaves as documented, on a database in order, a transaction whose
  calls write each game, each profile and one user's list at most once, with values that fit the columns,
  commits without an exception, and the database then holds the world before with the effect of every call
  in turn, on the values as the columns keep them; the same unit of work closed before its commit leaves
  the database as it was.\<close>

theorem sql_commit_has_the_effect_of_the_calls:
  assumes "session se c dims ok rows txn view unflushed" "faithful_columns c" "ok db"
    and "\<forall>x \<in> set calls. storable dims topic cid x" "writes_once (rows db) calls"
  shows "(\<exists>db'. sql_transaction se now topic cid calls db = (Inr (), db') \<and> ok db' \<and>
      table_world rf fs (rows db') = fold (call_effect c topic cid) calls (table_world rf fs (rows db))) \<and>
    (\<exists>s. sql_calls se now topic cid calls (su_session (sql_open se topic cid db)) = Inr s \<and>
      sql_exit se ((sql_open se topic cid db)\<lparr>su_session := s\<rparr>) = db)"
  using session.transaction_spec [OF assms] .

lemma sql_commit_has_the_effect_of_the_calls_witness:
  "\<exists>db'. sql_transaction (reference_session plain_columns 2) (utc 5) ''reco-events'' None
      [UpsertGame sample_game, RecordOwner (UserId 7) (GameId 1) True, MarkEvent 9] no_tables = (Inr (), db') \<and>
    w_games (table_world (\<lambda>_. None) (\<lambda>_. []) db') (GameId 1) = Some (kept_game plain_columns sample_game) \<and>
    w_owners (table_world (\<lambda>_. None) (\<lambda>_. []) db') (GameId 1) (UserId 7) = Some True \<and>
    9 \<in> w_processed (table_world (\<lambda>_. None) (\<lambda>_. []) db')"
proof -
  let ?calls = "[UpsertGame sample_game, RecordOwner (UserId 7) (GameId 1) True, MarkEvent 9]"
  have calls: "\<forall>x \<in> set ?calls. storable 2 ''reco-events'' None x" using sample_game_storable by simp
  have once: "writes_once no_tables ?calls" by (simp add: writes_once_def no_tables_def)
  have g: "game_id sample_game = GameId 1" by (simp add: sample_game_def blank_game_def)
  from sql_commit_has_the_effect_of_the_calls [OF reference.session_axioms plain_columns_faithful no_tables_ok calls once,
      of "utc 5" "\<lambda>_. None" "\<lambda>_. []"]
  obtain db' where db': "sql_transaction (reference_session plain_columns 2) (utc 5) ''reco-events'' None ?calls no_tables = (Inr (), db')"
    "table_world (\<lambda>_. None) (\<lambda>_. []) db' =
      fold (call_effect plain_columns ''reco-events'' None) ?calls (table_world (\<lambda>_. None) (\<lambda>_. []) no_tables)"
    by blast
  have "w_games (table_world (\<lambda>_. None) (\<lambda>_. []) db') (GameId 1) = Some (kept_game plain_columns sample_game)"
    "w_owners (table_world (\<lambda>_. None) (\<lambda>_. []) db') (GameId 1) (UserId 7) = Some True"
    "9 \<in> w_processed (table_world (\<lambda>_. None) (\<lambda>_. []) db')"
    unfolding db'(2) by (simp_all add: g raise_owner_def)
  with db'(1) show ?thesis by blast
qed

section \<open>Reads\<close>

lemma insort_key_iso:
  assumes "\<forall>y \<in> set ys. key x \<le> key y \<longleftrightarrow> key' x \<le> key' y"
  shows "insort_key key x ys = insort_key key' x ys"
  using assms by (induction ys) auto

lemma sort_key_iso:
  assumes "\<forall>x \<in> set xs. \<forall>y \<in> set xs. key x \<le> key y \<longleftrightarrow> key' x \<le> key' y"
  shows "sort_key key xs = sort_key key' xs"
  using assms
proof (induction xs)
  case Nil
  then show ?case by simp
next
  case (Cons x xs)
  then have "sort_key key xs = sort_key key' xs" by simp
  moreover have "insort_key key x (sort_key key' xs) = insort_key key' x (sort_key key' xs)"
    using Cons.prems by (intro insort_key_iso) simp
  ultimately show ?case by (simp add: sort_key_def)
qed

text \<open>A row that can be read, and the fields of the game it holds.\<close>

definition rows_readable :: "(string \<Rightarrow> real option) \<Rightarrow> (real \<Rightarrow> string) \<Rightarrow> tables \<Rightarrow> bool" where
  "rows_readable rf fs t \<longleftrightarrow>
     (\<forall>r \<in> set (table_rows (t_games t)). gr_dense r \<noteq> Some [] \<and> (\<exists>g. game_to_domain rf r = Inr g)) \<and>
     (\<forall>r \<in> set (table_rows (t_prefs t)). \<exists>p. preference_to_domain rf fs r = Inr p) \<and>
     (\<forall>r \<in> set (table_rows (t_recs t)). \<exists>q. recommendation_to_domain r = Inr q)"

lemma game_to_domain_fields:
  assumes "game_to_domain rf r = Inr g"
  shows "game_id g = GameId (gr_game_id r)" "is_published g = gr_is_published r" "purchase_count g = gr_purchase_count r"
    "dense g = dense_to_domain (gr_dense r)"
  using assms by (auto simp: game_to_domain_def mk_game_profile_def res_simps split: if_splits)

definition game_at :: "(string \<Rightarrow> real option) \<Rightarrow> game_row \<Rightarrow> game_profile" where
  "game_at rf r = projr (game_to_domain rf r)"

lemma game_at: "rows_readable rf fs t \<Longrightarrow> r \<in> set (table_rows (t_games t)) \<Longrightarrow> game_to_domain rf r = Inr (game_at rf r)"
  by (fastforce simp: rows_readable_def game_at_def)

lemma world_games_ran:
  assumes "tables_ok t" "rows_readable rf fs t"
  shows "ran (w_games (table_world rf fs t)) = game_at rf ` set (table_rows (t_games t))"
    "w_games (table_world rf fs t) k = Some g \<longleftrightarrow>
      (\<exists>r \<in> set (table_rows (t_games t)). gr_game_id r = game_uuid k \<and> game_at rf r = g)"
proof -
  have d: "keyed gr_game_id (t_games t)" using assms(1) by (simp add: tables_ok_def)
  show w: "w_games (table_world rf fs t) k = Some g \<longleftrightarrow>
      (\<exists>r \<in> set (table_rows (t_games t)). gr_game_id r = game_uuid k \<and> game_at rf r = g)" for k g
  proof
    assume "w_games (table_world rf fs t) k = Some g"
    then obtain r where r: "map_of (t_games t) (game_uuid k) = Some r" "readable (game_to_domain rf) r = Some g"
      by (auto simp: table_world_def bind_eq_Some_conv)
    then have "r \<in> set (table_rows (t_games t))" by (metis image_eqI map_of_SomeD set_map snd_conv)
    with r keyedD [OF d r(1)] game_at [OF assms(2)]
    show "\<exists>r \<in> set (table_rows (t_games t)). gr_game_id r = game_uuid k \<and> game_at rf r = g"
      by (auto simp: readable_def intro!: bexI [of _ r])
  next
    assume "\<exists>r \<in> set (table_rows (t_games t)). gr_game_id r = game_uuid k \<and> game_at rf r = g"
    then obtain r where r: "r \<in> set (table_rows (t_games t))" "gr_game_id r = game_uuid k" "game_at rf r = g" by blast
    then obtain k' where "(k', r) \<in> set (t_games t)" by auto
    with d r(2) have "map_of (t_games t) (game_uuid k) = Some r" by (auto simp: keyed_def)
    with r game_at [OF assms(2) r(1)] show "w_games (table_world rf fs t) k = Some g"
      by (simp add: table_world_def readable_def)
  qed
  show "ran (w_games (table_world rf fs t)) = game_at rf ` set (table_rows (t_games t))"
  proof (intro equalityI subsetI)
    fix g assume "g \<in> ran (w_games (table_world rf fs t))"
    then show "g \<in> game_at rf ` set (table_rows (t_games t))" by (auto simp: ran_def w)
  next
    fix g assume "g \<in> game_at rf ` set (table_rows (t_games t))"
    then obtain r where "r \<in> set (table_rows (t_games t))" "g = game_at rf r" by blast
    then have "w_games (table_world rf fs t) (GameId (gr_game_id r)) = Some g" unfolding w by auto
    then show "g \<in> ran (w_games (table_world rf fs t))" by (auto simp: ran_def)
  qed
qed

lemma distinct_game_rows:
  assumes "tables_ok t" "rows_readable rf fs t"
  shows "distinct (map (game_at rf) (table_rows (t_games t)))" "inj_on (game_at rf) (set (table_rows (t_games t)))"
proof -
  let ?rows = "table_rows (t_games t)"
  have d: "keyed gr_game_id (t_games t)" using assms(1) by (simp add: tables_ok_def)
  have "map (game_id \<circ> game_at rf) ?rows = map GameId (map gr_game_id ?rows)"
    using game_to_domain_fields(1) [OF game_at [OF assms(2)]] by simp
  also have "map gr_game_id ?rows = map fst (t_games t)" using d by (auto simp: keyed_def)
  finally have "distinct (map (game_id \<circ> game_at rf) ?rows)"
    using d by (simp add: keyed_def distinct_map inj_on_def)
  then show dist: "distinct (map (game_at rf) ?rows)" by (metis distinct_map map_map)
  then show "inj_on (game_at rf) (set ?rows)" by (simp only: distinct_map)
qed

lemma distinct_filter_map: "distinct (map f xs) \<Longrightarrow> distinct (map f (filter Q xs))"
  by (rule distinct_map_filter)

text \<open>A query for the most popular games that satisfy a condition.\<close>

lemma popular_games:
  assumes t: "tables_ok t" and r: "rows_readable rf fs t" and n: "0 \<le> n"
    and Q: "\<And>row. row \<in> set (table_rows (t_games t)) \<Longrightarrow> Q row = P (game_at rf row)"
  shows "\<exists>gs. mapE (game_to_domain rf) (take (nat n) (sort_key popular_first (filter Q (table_rows (t_games t))))) = Inr gs \<and>
    best_first (w_games (table_world rf fs t)) P popularity_key n gs"
proof -
  let ?rows = "table_rows (t_games t)" and ?f = "game_at rf"
  let ?ys = "take (nat n) (sort_key popular_first (filter Q ?rows))"
  have sub: "set ?ys \<subseteq> set ?rows" by (auto dest: in_set_takeD)
  have total: "mapE (game_to_domain rf) ?ys = Inr (map ?f ?ys)"
    by (rule mapE_total, rule game_at [OF r]) (use sub in blast)
  have key: "popularity_key (?f x) \<le> popularity_key (?f y) \<longleftrightarrow> popular_first x \<le> popular_first y"
    if "x \<in> set ?rows" "y \<in> set ?rows" for x y
    using game_to_domain_fields [OF game_at [OF r that(1)]] game_to_domain_fields [OF game_at [OF r that(2)]]
    by (simp add: popularity_key_def popular_first_def)
  have "sort_key popularity_key (map ?f (filter Q ?rows)) = map ?f (sort_key (\<lambda>x. popularity_key (?f x)) (filter Q ?rows))"
    by (rule sort_key_map)
  also have "sort_key (\<lambda>x. popularity_key (?f x)) (filter Q ?rows) = sort_key popular_first (filter Q ?rows)"
    by (rule sort_key_iso) (use key in auto)
  finally have sorted: "map ?f ?ys = py_take n (sort_key popularity_key (map ?f (filter Q ?rows)))"
    using n by (simp add: py_take_def take_map)
  have "distinct (map ?f (filter Q ?rows))" using distinct_game_rows(1) [OF t r] by (rule distinct_filter_map)
  moreover have "set (map ?f (filter Q ?rows)) = {v \<in> ran (w_games (table_world rf fs t)). P v}"
    unfolding world_games_ran(1) [OF t r] using Q by auto
  ultimately show ?thesis using total sorted unfolding best_first_def by blast
qed

lemma published_games:
  assumes "tables_ok t" "rows_readable rf fs t"
  shows "int (length (filter gr_is_published (table_rows (t_games t)))) =
    int (card {g \<in> ran (w_games (table_world rf fs t)). is_published g})"
proof -
  let ?rows = "table_rows (t_games t)" and ?f = "game_at rf"
  have pub: "is_published (?f r) = gr_is_published r" if "r \<in> set ?rows" for r
    using game_to_domain_fields(2) [OF game_at [OF assms(2) that]] .
  then have "{g \<in> ran (w_games (table_world rf fs t)). is_published g} = set (map ?f (filter gr_is_published ?rows))"
    unfolding world_games_ran(1) [OF assms] by auto
  moreover have "distinct (map ?f (filter gr_is_published ?rows))"
    using distinct_game_rows(1) [OF assms] by (rule distinct_filter_map)
  ultimately show ?thesis by (simp only: distinct_card length_map)
qed

lemma games_of_ids:
  assumes "tables_ok t" "rows_readable rf fs t"
  shows "\<exists>gs. mapE (game_to_domain rf) (filter (\<lambda>r. gr_game_id r \<in> game_uuid ` set ids) (table_rows (t_games t))) = Inr gs \<and>
    distinct gs \<and> set gs = {g. \<exists>i \<in> set ids. w_games (table_world rf fs t) i = Some g}"
proof -
  let ?rows = "table_rows (t_games t)" and ?f = "game_at rf"
  let ?sel = "filter (\<lambda>r. gr_game_id r \<in> game_uuid ` set ids) ?rows"
  have "mapE (game_to_domain rf) ?sel = Inr (map ?f ?sel)"
    by (rule mapE_total, rule game_at [OF assms(2)]) simp
  moreover have "distinct (map ?f ?sel)" using distinct_game_rows(1) [OF assms] by (rule distinct_filter_map)
  moreover have "set (map ?f ?sel) = {g. \<exists>i \<in> set ids. w_games (table_world rf fs t) i = Some g}"
    unfolding world_games_ran(2) [OF assms] by auto
  ultimately show ?thesis by blast
qed

text \<open>The co-purchase query counts the other users who own something of \<open>mine\<close> and the game.\<close>

lemma neighbour_exists:
  "(\<exists>r \<in> set (neighbour_rows (user_uuid u) (map game_uuid mine) owners). ow_user_id r = v \<and> ow_game_id r = game_uuid h) \<longleftrightarrow>
    UserId v \<noteq> u \<and> h \<notin> set mine \<and>
    (\<exists>g \<in> set mine. \<exists>r \<in> set owners. ow_user_id r = v \<and> ow_game_id r = game_uuid g) \<and>
    (\<exists>r \<in> set owners. ow_user_id r = v \<and> ow_game_id r = game_uuid h)"
proof -
  have mem: "r \<in> set (neighbour_rows (user_uuid u) (map game_uuid mine) owners) \<longleftrightarrow> r \<in> set owners \<and>
      (\<exists>m \<in> set owners. ow_user_id m = ow_user_id r \<and> ow_game_id m \<in> game_uuid ` set mine \<and>
        ow_user_id m \<noteq> user_uuid u) \<and> ow_game_id r \<notin> game_uuid ` set mine" for r
    by (auto simp: neighbour_rows_def split: if_splits)
  have img: "game_uuid h \<in> game_uuid ` set mine \<longleftrightarrow> h \<in> set mine" by (auto simp: image_iff)
  have ne: "UserId v \<noteq> u \<longleftrightarrow> v \<noteq> user_uuid u" by (cases u) simp
  show ?thesis
  proof
    assume "\<exists>r \<in> set (neighbour_rows (user_uuid u) (map game_uuid mine) owners). ow_user_id r = v \<and> ow_game_id r = game_uuid h"
    then show "UserId v \<noteq> u \<and> h \<notin> set mine \<and>
      (\<exists>g \<in> set mine. \<exists>r \<in> set owners. ow_user_id r = v \<and> ow_game_id r = game_uuid g) \<and>
      (\<exists>r \<in> set owners. ow_user_id r = v \<and> ow_game_id r = game_uuid h)"
      unfolding ne by (auto simp: mem img) metis
  next
    assume "UserId v \<noteq> u \<and> h \<notin> set mine \<and>
      (\<exists>g \<in> set mine. \<exists>r \<in> set owners. ow_user_id r = v \<and> ow_game_id r = game_uuid g) \<and>
      (\<exists>r \<in> set owners. ow_user_id r = v \<and> ow_game_id r = game_uuid h)"
    then obtain g m r where *: "v \<noteq> user_uuid u" "h \<notin> set mine" "g \<in> set mine" "m \<in> set owners" "ow_user_id m = v"
      "ow_game_id m = game_uuid g" "r \<in> set owners" "ow_user_id r = v" "ow_game_id r = game_uuid h"
      unfolding ne by blast
    then have "r \<in> set (neighbour_rows (user_uuid u) (map game_uuid mine) owners)"
      unfolding mem by (auto simp: img)
    with * show "\<exists>r \<in> set (neighbour_rows (user_uuid u) (map game_uuid mine) owners). ow_user_id r = v \<and> ow_game_id r = game_uuid h"
      by blast
  qed
qed

lemma joined_rows:
  assumes "keyed (\<lambda>r. (ow_user_id r, ow_game_id r)) (t_owners t)"
  shows "(\<exists>r \<in> set (neighbour_rows (user_uuid u) (map game_uuid mine) (table_rows (t_owners t))).
      ow_user_id r = v \<and> ow_game_id r = game_uuid h) \<longleftrightarrow>
    UserId v \<in> co_owners (w_owners (table_world rf fs t)) u (set mine) h"
proof -
  have row: "(\<exists>r \<in> set (table_rows (t_owners t)). ow_user_id r = user_uuid x \<and> ow_game_id r = game_uuid g) \<longleftrightarrow>
      w_owners (table_world rf fs t) g x \<noteq> None" for x g
  proof -
    have "(\<exists>r \<in> set (table_rows (t_owners t)). ow_user_id r = user_uuid x \<and> ow_game_id r = game_uuid g) \<longleftrightarrow>
        (user_uuid x, game_uuid g) \<in> (\<lambda>r. (ow_user_id r, ow_game_id r)) ` set (table_rows (t_owners t))"
      unfolding image_iff prod.inject by metis
    also have "\<dots> \<longleftrightarrow> (user_uuid x, game_uuid g) \<in> fst ` set (t_owners t)"
      by (simp only: keyed_keys [OF assms])
    finally show ?thesis by (simp add: table_world_def map_of_eq_None_iff)
  qed
  from row [of "UserId v"] show ?thesis unfolding neighbour_exists by (simp add: co_owners_def del: set_map) blast
qed

lemma counted_neighbours:
  assumes "keyed (\<lambda>r. (ow_user_id r, ow_game_id r)) (t_owners t)"
  shows "neighbours_of (game_uuid h) (neighbour_rows (user_uuid u) (map game_uuid mine) (table_rows (t_owners t))) =
    int (card (co_owners (w_owners (table_world rf fs t)) u (set mine) h))"
proof -
  let ?joined = "neighbour_rows (user_uuid u) (map game_uuid mine) (table_rows (t_owners t))"
  let ?V = "{v. \<exists>r \<in> set ?joined. ow_user_id r = v \<and> ow_game_id r = game_uuid h}"
  have "neighbours_of (game_uuid h) ?joined = int (card (set (map ow_user_id (filter (\<lambda>r. ow_game_id r = game_uuid h) ?joined))))"
    by (simp only: neighbours_of_def length_remdups_card_conv)
  also have "set (map ow_user_id (filter (\<lambda>r. ow_game_id r = game_uuid h) ?joined)) = ?V" by auto
  finally have n: "neighbours_of (game_uuid h) ?joined = int (card ?V)" .
  have "co_owners (w_owners (table_world rf fs t)) u (set mine) h = UserId ` ?V"
  proof (intro equalityI subsetI)
    fix x assume "x \<in> co_owners (w_owners (table_world rf fs t)) u (set mine) h"
    then have "user_uuid x \<in> ?V" using joined_rows [OF assms, of u mine "user_uuid x" h rf fs] by simp
    then show "x \<in> UserId ` ?V" by (intro image_eqI [of x UserId "user_uuid x"]) simp_all
  next
    fix x assume "x \<in> UserId ` ?V"
    then show "x \<in> co_owners (w_owners (table_world rf fs t)) u (set mine) h"
      using joined_rows [OF assms, of u mine _ h rf fs] by auto
  qed
  then have "card (co_owners (w_owners (table_world rf fs t)) u (set mine) h) = card ?V"
    by (simp only:) (rule card_image, simp add: inj_on_def)
  with n show ?thesis by (simp only:)
qed

lemma dict_ok_sort: "dict_ok d \<Longrightarrow> dict_ok (sort_key key d)"
  by (simp add: distinct_map)

lemma co_purchases_query:
  assumes "keyed (\<lambda>r. (ow_user_id r, ow_game_id r)) (t_owners (se_tables se s))"
  shows "\<exists>full. dict_ok full \<and> sorted (map (\<lambda>(h, n). - n) full) \<and>
    (\<forall>h. map_of full h = (let n = int (card (co_owners (w_owners (table_world rf fs (se_tables se s))) u (set mine) h)) in
       if n = 0 then None else Some n)) \<and>
    sql_co_purchases se s u mine limit = take (nat limit) full"
proof (cases "mine = []")
  case True
  then show ?thesis by (intro exI [of _ "[]"]) (simp add: sql_co_purchases_def co_owners_def)
next
  case False
  let ?t = "se_tables se s"
  let ?joined = "neighbour_rows (user_uuid u) (map game_uuid mine) (table_rows (t_owners ?t))"
  let ?gs = "remdups (map ow_game_id ?joined)"
  let ?counts = "map (\<lambda>g. (g, neighbours_of g ?joined)) ?gs"
  let ?key = "\<lambda>(g, n). (- n, g) :: int \<times> uuid"
  let ?full = "map (\<lambda>(g, n). (GameId g, n)) (sort_key ?key ?counts)"
  have keys: "fst ` set ?counts = ow_game_id ` set ?joined" by force
  have "map fst ?counts = ?gs" by (simp add: comp_def del: set_map)
  then have dc: "dict_ok ?counts" by (simp only: distinct_remdups)
  then have "dict_ok (sort_key ?key ?counts)" by (rule dict_ok_sort)
  then have ok: "dict_ok ?full" by (simp add: comp_def case_prod_beta distinct_map inj_on_def)
  have "sorted (map ?key (sort_key ?key ?counts))" by (rule sorted_sort_key)
  then have "sorted (map fst (map ?key (sort_key ?key ?counts)))"
    by (auto simp: sorted_map less_eq_prod_def elim!: sorted_wrt_mono_rel [rotated])
  then have sorted: "sorted (map (\<lambda>(h, n). - n) ?full)" by (simp add: comp_def case_prod_beta)
  have look: "map_of ?full h = (let n = int (card (co_owners (w_owners (table_world rf fs ?t)) u (set mine) h)) in
       if n = 0 then None else Some n)" for h
  proof -
    have n: "neighbours_of (game_uuid h) ?joined = int (card (co_owners (w_owners (table_world rf fs ?t)) u (set mine) h))"
      by (rule counted_neighbours [OF assms])
    have mem: "(h, m) \<in> set ?full \<longleftrightarrow> game_uuid h \<in> ow_game_id ` set ?joined \<and> m = neighbours_of (game_uuid h) ?joined" for m
      by (cases h) auto
    have pos: "0 < neighbours_of (game_uuid h) ?joined \<longleftrightarrow> game_uuid h \<in> ow_game_id ` set ?joined"
      by (auto simp: neighbours_of_def length_remdups_card_conv card_gt_0_iff image_iff eq_commute [of "game_uuid h"])
    show ?thesis
    proof (cases "game_uuid h \<in> ow_game_id ` set ?joined")
      case True
      then have "map_of ?full h = Some (neighbours_of (game_uuid h) ?joined)"
        using mem dict_ok_in_set [OF ok] by blast
      with True pos n show ?thesis by simp
    next
      case False
      then have "map_of ?full h = None" using mem by (meson map_of_SomeD not_Some_eq old.prod.exhaust option.exhaust)
      moreover have "neighbours_of (game_uuid h) ?joined = 0" using False pos by (simp add: neighbours_of_def)
      ultimately show ?thesis using n by simp
    qed
  qed
  have "sql_co_purchases se s u mine limit = take (nat limit) ?full"
    using False by (simp add: sql_co_purchases_def Let_def take_map)
  with ok sorted look show ?thesis by blast
qed

lemma distinct_map_sort: "distinct (map f (sort_key key xs)) = distinct (map f xs)"
  by (simp add: distinct_map)

lemma distinct_users: "distinct (map f xs) \<Longrightarrow> distinct (map (\<lambda>x. UserId (f x)) xs)"
  by (induction xs) auto

lemma active_users:
  fixes n :: nat
  assumes t: "tables_ok t" and r: "rows_readable rf fs t"
  defines "us \<equiv> map (\<lambda>r. UserId (pr_user_id r)) (take n (sort_key active_first (filter (\<lambda>r. 0 < pr_signal_count r) (table_rows (t_prefs t)))))"
  shows "distinct us" "set us \<subseteq> {u. \<exists>p. w_prefs (table_world rf fs t) u = Some p \<and> 0 < signal_count p}"
proof -
  let ?rows = "table_rows (t_prefs t)"
  have d: "keyed pr_user_id (t_prefs t)" using t by (simp add: tables_ok_def)
  have "map pr_user_id ?rows = map fst (t_prefs t)" using d by (auto simp: keyed_def)
  then have "distinct (map pr_user_id ?rows)" using d unfolding keyed_def by (simp only:)
  then have "distinct (map pr_user_id (filter (\<lambda>r. 0 < pr_signal_count r) ?rows))" by (rule distinct_filter_map)
  then have "distinct (map pr_user_id (sort_key active_first (filter (\<lambda>r. 0 < pr_signal_count r) ?rows)))"
    by (simp only: distinct_map_sort)
  then have "distinct (map pr_user_id (take n (sort_key active_first (filter (\<lambda>r. 0 < pr_signal_count r) ?rows))))"
    unfolding take_map [symmetric] by (rule distinct_take)
  then show "distinct us" unfolding us_def by (rule distinct_users)
  show "set us \<subseteq> {u. \<exists>p. w_prefs (table_world rf fs t) u = Some p \<and> 0 < signal_count p}"
  proof
    fix u assume "u \<in> set us"
    then have "u \<in> (\<lambda>r. UserId (pr_user_id r)) ` set (take n (sort_key active_first (filter (\<lambda>r. 0 < pr_signal_count r) ?rows)))"
      by (simp only: us_def list.set_map)
    then have "u \<in> (\<lambda>r. UserId (pr_user_id r)) ` set (filter (\<lambda>r. 0 < pr_signal_count r) ?rows)"
      using set_take_subset [of n "sort_key active_first (filter (\<lambda>r. 0 < pr_signal_count r) ?rows)"]
      unfolding set_sort by blast
    then obtain q where q: "q \<in> set ?rows" "0 < pr_signal_count q" "u = UserId (pr_user_id q)"
      unfolding set_filter by blast
    obtain p where p: "preference_to_domain rf fs q = Inr p" using r q(1) unfolding rows_readable_def by blast
    then have "signal_count p = pr_signal_count q" by (auto simp: preference_to_domain_def res_simps)
    moreover have "map_of (t_prefs t) (pr_user_id q) = Some q" using q(1) d by (auto simp: keyed_def)
    ultimately show "u \<in> {u. \<exists>p. w_prefs (table_world rf fs t) u = Some p \<and> 0 < signal_count p}"
      using p q(2,3) by (simp add: table_world_def readable_def)
  qed
qed

lemma waiting_owners:
  fixes g :: game_id
  assumes "keyed (\<lambda>r. (ow_user_id r, ow_game_id r)) (t_owners t)"
  defines "us \<equiv> map (\<lambda>r. UserId (ow_user_id r)) (sort_key (\<lambda>r. instant (ow_acquired_at r))
    (filter (\<lambda>r. ow_game_id r = game_uuid g \<and> \<not> ow_counted r) (table_rows (t_owners t))))"
  shows "distinct us" "set us = {u. w_owners (table_world rf fs t) g u = Some False}"
proof -
  let ?rows = "table_rows (t_owners t)" and ?P = "\<lambda>r. ow_game_id r = game_uuid g \<and> \<not> ow_counted r"
  have ok: "dict_ok (t_owners t)" using assms(1) by (simp add: keyed_def)
  have "map (\<lambda>r. (ow_user_id r, ow_game_id r)) ?rows = map fst (t_owners t)" using assms(1) by (auto simp: keyed_def)
  then have "distinct (map (\<lambda>r. (ow_user_id r, ow_game_id r)) ?rows)" using ok by (simp only:)
  then have "distinct (map (\<lambda>r. (ow_user_id r, ow_game_id r)) (filter ?P ?rows))" by (rule distinct_filter_map)
  then have inj: "distinct (filter ?P ?rows)" "inj_on (\<lambda>r. (ow_user_id r, ow_game_id r)) (set (filter ?P ?rows))"
    by (simp_all only: distinct_map)
  then have "inj_on (\<lambda>r. UserId (ow_user_id r)) (set (filter ?P ?rows))"
    by (auto simp: inj_on_def simp del: set_map)
  with inj(1) show "distinct us" by (simp add: us_def distinct_map del: set_map)
  have row: "map_of (t_owners t) (user_uuid u, game_uuid g) = Some r \<longleftrightarrow>
      r \<in> set ?rows \<and> ow_user_id r = user_uuid u \<and> ow_game_id r = game_uuid g" for u r
    using assms(1) keyedD [OF assms(1), of "(user_uuid u, game_uuid g)" r]
    by (force simp: keyed_def)
  show "set us = {u. w_owners (table_world rf fs t) g u = Some False}"
  proof (intro equalityI subsetI)
    fix u assume "u \<in> set us"
    then have "u \<in> (\<lambda>r. UserId (ow_user_id r)) ` set (filter ?P ?rows)" by (simp only: us_def list.set_map set_sort)
    then obtain r where "r \<in> set ?rows" "?P r" "u = UserId (ow_user_id r)" unfolding set_filter by blast
    then show "u \<in> {u. w_owners (table_world rf fs t) g u = Some False}"
      using row [of u r] by (simp add: table_world_def)
  next
    fix u assume "u \<in> {u. w_owners (table_world rf fs t) g u = Some False}"
    then obtain r where "map_of (t_owners t) (user_uuid u, game_uuid g) = Some r" "\<not> ow_counted r"
      by (auto simp: table_world_def simp del: map_of_eq_Some_iff)
    with row [of u r] have "r \<in> set (filter ?P ?rows)" "u = UserId (ow_user_id r)" by simp_all
    then show "u \<in> set us" by (simp add: us_def)
  qed
qed

lemma stored_list:
  assumes "rows_readable rf fs t" "0 \<le> n"
  shows "mapE recommendation_to_domain (take (nat n) (sort_key rr_rank (filter (\<lambda>r. rr_user_id r = user_uuid u) (table_rows (t_recs t))))) =
    Inr (py_take n (sort_key rec_rank (w_recs (table_world rf fs t) u)))"
proof -
  let ?rows = "sort_key rr_rank (filter (\<lambda>r. rr_user_id r = user_uuid u) (table_rows (t_recs t)))"
  define f where "f = (\<lambda>r. projr (recommendation_to_domain r))"
  have f: "recommendation_to_domain r = Inr (f r)" "rec_rank (f r) = rr_rank r" if r: "r \<in> set ?rows" for r
  proof -
    have "r \<in> set (table_rows (t_recs t))" using r by simp
    then obtain q where q: "recommendation_to_domain r = Inr q"
      using assms(1) unfolding rows_readable_def by blast
    then have "rec_rank q = rr_rank r"
      by (auto simp: recommendation_to_domain_def mk_recommendation_def res_simps split: if_splits)
    moreover have "q = f r" using q by (simp add: f_def)
    ultimately show "recommendation_to_domain r = Inr (f r)" "rec_rank (f r) = rr_rank r" using q by simp_all
  qed
  have "List.map_filter (readable recommendation_to_domain) rs = map f rs" if "set rs \<subseteq> set ?rows" for rs
    using that by (induction rs) (auto simp: List.map_filter_def readable_def f(1))
  then have w: "w_recs (table_world rf fs t) u = map f ?rows" by (simp add: table_world_def list_of_user_def)
  have "map rec_rank (map f ?rows) = map rr_rank ?rows" using f(2) by simp
  then have "sorted (map rec_rank (map f ?rows))" by (metis sorted_sort_key)
  then have "sort_key rec_rank (map f ?rows) = map f ?rows" by (rule sort_key_id_if_sorted)
  moreover have "mapE recommendation_to_domain (take (nat n) ?rows) = Inr (map f (take (nat n) ?rows))"
    by (rule mapE_total, rule f(1)) (blast dest: in_set_takeD)
  ultimately show ?thesis using assms(2) by (simp add: w py_take_def take_map)
qed

lemma needs_embedding_row:
  assumes "rows_readable rf fs t" "row \<in> set (table_rows (t_games t))"
  shows "(gr_is_published row \<and> gr_dense row = None) = needs_embedding (game_at rf row)"
proof -
  note f = game_to_domain_fields [OF game_at [OF assms]]
  have "gr_dense row \<noteq> Some []" using assms unfolding rows_readable_def by blast
  then show ?thesis
    by (auto simp: needs_embedding_def f dense_to_domain_def dense_is_empty_def dense_empty_def dense_of_def split: option.splits)
qed

text \<open>C9: the reads of a fresh unit of work on the SQL backend are those of the contract the in-memory
  backend meets: a game and a profile by id, the published games and the ones without a vector, most
  popular first and cut at the limit, the games of a list of ids, each once, the number of published
  games, users with signals, the owners a game has not counted, the co-purchases with the number of
  other owners, most first, a user's list by rank, and the deduplication log.\<close>

theorem sql_reads_meet_the_contract:
  assumes "session se c dims ok rows txn view unflushed" "ok db" "rows_readable rf fs (rows db)" "0 \<le> n"
  shows "let s = su_session (sql_open se topic cid db); w = table_world rf fs (rows db) in
    sql_get_game se rf s g = Inr (w_games w g) \<and> sql_get_pref se rf fs s u = Inr (w_prefs w u) \<and>
    (\<exists>gs. sql_recommendable se rf s n = Inr gs \<and> best_first (w_games w) is_published popularity_key n gs) \<and>
    (\<exists>gs. sql_needing_embedding se rf s n = Inr gs \<and> best_first (w_games w) needs_embedding popularity_key n gs) \<and>
    (\<exists>gs. sql_by_ids se rf s ids = Inr gs \<and> distinct gs \<and> set gs = {g. \<exists>i \<in> set ids. w_games w i = Some g}) \<and>
    sql_count_recommendable se s = int (card {g \<in> ran (w_games w). is_published g}) \<and>
    distinct (sql_with_signals se s n) \<and>
    set (sql_with_signals se s n) \<subseteq> {u. \<exists>p. w_prefs w u = Some p \<and> 0 < signal_count p} \<and>
    (\<exists>us. distinct us \<and> set us = {u. w_owners w g u = Some False} \<and> sql_uncounted_owners se s g n = py_take n us) \<and>
    (\<exists>full. dict_ok full \<and> sorted (map (\<lambda>(h, n). - n) full) \<and>
      (\<forall>h. map_of full h = (let n = int (card (co_owners (w_owners w) u (set mine) h)) in if n = 0 then None else Some n)) \<and>
      sql_co_purchases se s u mine n = take (nat n) full) \<and>
    sql_for_user se s u n = Inr (py_take n (sort_key rec_rank (w_recs w u))) \<and>
    (sql_seen se s e \<longleftrightarrow> e \<in> w_processed w)"
proof -
  let ?s = "se_open se db" and ?t = "rows db"
  have o: "txn db ?s" "view ?s = ?t" "unflushed ?s = {}" using session.opens [OF assms(1,2)] by simp_all
  have sees: "se_tables se ?s = ?t" "se_object se ?s = (\<lambda>r. r)"
    using session.sees [OF assms(1) o(1,3)] o(2) by simp_all
  have ok: "tables_ok ?t" using session.keys [OF assms(1) o(1)] o(2) by simp
  then have own: "keyed (\<lambda>r. (ow_user_id r, ow_game_id r)) (t_owners ?t)" by (simp add: tables_ok_def)
  have get: "se_get_game se ?s k = map_of (t_games ?t) k" "se_get_pref se ?s k = map_of (t_prefs ?t) k" for k
    using session.get_game [OF assms(1) o(1)] session.get_pref [OF assms(1) o(1)] o(2,3) by simp_all
  have game: "sql_get_game se rf ?s g = Inr (w_games (table_world rf fs ?t) g)"
  proof (cases "map_of (t_games ?t) (game_uuid g)")
    case None
    then show ?thesis by (simp add: sql_get_game_def get optionE_def table_world_def)
  next
    case (Some r)
    then have "r \<in> set (table_rows (t_games ?t))" by (force dest: map_of_SomeD)
    with Some game_at [OF assms(3)] show ?thesis by (simp add: sql_get_game_def get optionE_def table_world_def readable_def)
  qed
  have pref: "sql_get_pref se rf fs ?s u = Inr (w_prefs (table_world rf fs ?t) u)"
  proof (cases "map_of (t_prefs ?t) (user_uuid u)")
    case None
    then show ?thesis by (simp add: sql_get_pref_def get optionE_def table_world_def)
  next
    case (Some r)
    then have "r \<in> set (table_rows (t_prefs ?t))" by (force dest: map_of_SomeD)
    then obtain p where "preference_to_domain rf fs r = Inr p" using assms(3) unfolding rows_readable_def by blast
    with Some show ?thesis by (simp add: sql_get_pref_def get optionE_def table_world_def readable_def)
  qed
  have recommendable: "\<exists>gs. sql_recommendable se rf ?s n = Inr gs \<and>
      best_first (w_games (table_world rf fs ?t)) is_published popularity_key n gs"
    using popular_games [OF ok assms(3,4), of gr_is_published is_published] game_to_domain_fields(2) [OF game_at [OF assms(3)]]
    unfolding sql_recommendable_def sees map_ident by blast
  have needing: "\<exists>gs. sql_needing_embedding se rf ?s n = Inr gs \<and>
      best_first (w_games (table_world rf fs ?t)) needs_embedding popularity_key n gs"
    using popular_games [OF ok assms(3,4), of "\<lambda>r. gr_is_published r \<and> gr_dense r = None" needs_embedding]
      needs_embedding_row [OF assms(3)]
    unfolding sql_needing_embedding_def sees map_ident by blast
  have ids: "\<exists>gs. sql_by_ids se rf ?s ids = Inr gs \<and> distinct gs \<and>
      set gs = {g. \<exists>i \<in> set ids. w_games (table_world rf fs ?t) i = Some g}"
    using games_of_ids [OF ok assms(3), of ids] unfolding sql_by_ids_def sees map_ident by (cases "ids = []") simp_all
  have uncounted: "\<exists>us. distinct us \<and> set us = {u. w_owners (table_world rf fs ?t) g u = Some False} \<and>
      sql_uncounted_owners se ?s g n = py_take n us"
    unfolding sql_uncounted_owners_def sees
    by (intro exI conjI, rule waiting_owners(1) [OF own], rule waiting_owners(2) [OF own])
      (simp only: py_take_def take_map assms(4) if_True)
  have seen: "sql_seen se ?s e \<longleftrightarrow> e \<in> w_processed (table_world rf fs ?t)"
    using keyed_keys [of pe_event_id "t_processed ?t"] ok by (simp add: sql_seen_def sees table_world_def tables_ok_def del: list.set_map)
  show ?thesis
    unfolding Let_def sql_open_def sql_uow.select_convs
    using game pref recommendable needing ids published_games [OF ok assms(3)]
      active_users [OF ok assms(3), of "nat n"] uncounted
      co_purchases_query [of se ?s rf fs u mine n, unfolded sees Let_def, OF own] stored_list [OF assms(3,4), of u] seen
    by (simp only: sql_count_recommendable_def sql_with_signals_def sql_for_user_def sees simp_thms)
qed

definition one_game_table :: tables where
  "one_game_table = no_tables\<lparr>t_games := [(1, write_game (new_game_row 0) sample_game)]\<rparr>"

lemma one_game_table_ok: "tables_ok one_game_table" "rows_readable (\<lambda>_. None) (\<lambda>_. []) one_game_table"
proof -
  show "tables_ok one_game_table"
    by (simp add: one_game_table_def no_tables_def tables_ok_def keyed_def write_game_def sample_game_def blank_game_def)
  have d: "dense sample_game = dense_empty" by (simp add: sample_game_def blank_game_def)
  have "stored_game plain_columns (write_game (new_game_row 0) sample_game) = write_game (new_game_row 0) sample_game"
    by (rule game_row.equality) (simp_all add: stored_game_def plain_columns_def json_dict_def write_game_def option.map_ident)
  moreover have "game_to_domain (\<lambda>_. None) (stored_game plain_columns (write_game (new_game_row 0) sample_game)) =
      Inr (kept_game plain_columns sample_game)"
    using wf_sample_game by (intro game_comes_back [OF plain_columns_faithful] mk_game_profile_wf) (simp_all add: wf_game_def)
  ultimately show "rows_readable (\<lambda>_. None) (\<lambda>_. []) one_game_table"
    by (simp add: rows_readable_def one_game_table_def no_tables_def write_game_def d dense_to_column_def dense_is_empty_def dense_empty_def)
qed

lemma sql_reads_meet_the_contract_witness:
  "\<exists>gs. sql_recommendable (reference_session plain_columns 2) (\<lambda>_. None)
      (su_session (sql_open (reference_session plain_columns 2) ''reco-events'' None one_game_table)) 10 = Inr gs \<and>
    best_first (w_games (table_world (\<lambda>_. None) (\<lambda>_. []) one_game_table)) is_published popularity_key 10 gs"
  using sql_reads_meet_the_contract [OF reference.session_axioms [where c = plain_columns and dims = 2] one_game_table_ok, of 10]
  unfolding Let_def by simp

end
