(* ===== verification/Spec2Isabelle.thy ===== *)
theory Spec2Isabelle
  imports Serve Streams Composition SqlPromises
begin

text \<open>
  \<^bold>\<open>The recommendation service.\<close> The service learns what every user likes from the events of other
  services, stores a ranked list of games per user, and serves the lists over HTTP. Paths below are
  under \<open>src/src/arcadia_recommendation/\<close>. One message travels through all of the program: the Kafka
  subscriber reads it, a consumer turns it into a command, an ingest use case runs the command in a unit
  of work, the scheduler's sweep generates lists from the result and puts an event into the outbox of the
  same transaction, the dispatcher publishes the outbox, and the routes read the lists through a cache.

  \<^bold>\<open>The theories, in the order they build on each other.\<close>

  \<^item> \<open>Prelude\<close>, \<open>PyText\<close>: Python's dictionaries, slices, rounding and string methods; \<open>exn\<close> has a
    constructor per exception the code raises or lets through, and a fallible function returns
    \<open>exn + 'a\<close>.
  \<^item> \<open>Ids\<close> (\<open>domain/shared/\<close>), \<open>Embedding\<close>, \<open>Dense\<close>, \<open>Scoring\<close> (\<open>domain/policy/\<close>,
    \<open>domain/recommendation/\<close>), \<open>Catalog\<close> (\<open>domain/catalog/\<close>), \<open>Preference\<close>
    (\<open>domain/preference/\<close>): the domain, one record or datatype per class, one function per method.
    \<open>Laws\<close> has its properties; the interface of a scorer is the locale \<open>content_scorer\<close>.
  \<^item> \<open>Messaging\<close> (\<open>infrastructure/messaging/serialization.py\<close>, \<open>outbox/record.py\<close>),
    \<open>Timestamps\<close> (\<open>fromisoformat\<close>), \<open>Wire\<close>, \<open>Consumers\<close> (\<open>presentation/consumers/\<close>): events and
    envelopes, written and read.
  \<^item> \<open>Ports\<close> (\<open>application/ports/outbound/\<close>): the persistence port as a record of operations, the
    abstract \<open>world\<close> it stores and the locale \<open>unit_of_work\<close>, its contract. \<open>Memory\<close>
    (\<open>infrastructure/persistence/memory/\<close>) is the in-memory backend, interpreted as that contract.
  \<^item> \<open>Ingest\<close>, \<open>Delivery\<close> (\<open>application/usecases/ingest.py\<close>): the four handlers, the abstract effect
    of an event on a world, and what any sequence of deliveries keeps. The lemmas are proved inside
    \<open>unit_of_work\<close> and reach the properties through its interpretation.
  \<^item> \<open>Generate\<close>, \<open>Refresh\<close> (\<open>generate.py\<close>, \<open>enrich.py\<close>): the embedding stage, one user's generation,
    the sweep. \<open>Serve\<close> (\<open>serve.py\<close>): the reads and the fallback.
  \<^item> \<open>Outbox\<close> (\<open>messaging/outbox/dispatcher.py\<close>, the memory store): draining, retries, backoff and dead
    letters, over the locales \<open>outbox_store\<close> and \<open>counted_outbox_store\<close>. \<open>Bus\<close>
    (\<open>messaging/bus/\<close>, \<open>messaging/kafka/\<close>) and \<open>Streams\<close>: the idempotency wrapper, the in-process
    bus, the subscriber's retries and rerouting, and a whole stream of messages to its end.
  \<^item> \<open>Rows\<close>, \<open>RowLaws\<close>, \<open>SqlOutbox\<close>, \<open>SqlTables\<close>, \<open>SqlWork\<close>, \<open>SqlReference\<close>, \<open>SqlPromises\<close>
    (\<open>infrastructure/persistence/sql/\<close>): the row classes and their mapping, the relay table with its
    leases, every query of the repositories, the SQL unit of work and what it promises.
  \<^item> \<open>Config\<close>, \<open>Adapters\<close>, \<open>Auth\<close>, \<open>Api\<close>, \<open>Tasks\<close>, \<open>Composition\<close>: the settings and their
    validators, the model clients, callers and problem documents, routes, cache and readiness, the
    background loops, and the composition root with the lifespan.

  \<^bold>\<open>What the properties show.\<close> A property is a theorem after a text that starts with its number.

  \<^item> Ingestion: events may be redelivered and interleaved in any order; a purchase is counted once, a
    handled event changes nothing, a handler either succeeds or leaves the store as it was; what each
    handler changes, and what depends on the order of a purchase and a publication.
  \<^item> Generation and reads: the list a generation stores is well shaped and complete (a game left out was
    beaten), one user's failure does not reach another, and a read serves exactly the stored list or the
    fallback.
  \<^item> Messages: envelopes are read back as written; a stream is consumed to its end; which messages are
    rerouted and which end the consumer.
  \<^item> Outbox: no record is lost, changed or attempted more than five times, on the in-memory store and, with
    any number of replicas dying at any point, on the table; a lease keeps a row with one replica.
  \<^item> SQL: a committed unit of work has the effect of its calls and no other, its reads are those of the
    contract, rows are read back as written, and which descriptions fit their row.
  \<^item> Edge: lists only go to those entitled to them, only moderators change anything, a cache outage is
    invisible, a deployment that boots runs its sweeps whatever third parties answer.
\<close>

text \<open>
  \<^bold>\<open>Bounds and termination.\<close> There is no fuel: every loop of the code that is modelled is structural, on a
  list that the caller supplies. The endless loops (the subscriber, the scheduler, the dispatcher) run over
  the finite list of the messages or wake-ups that arrive, so a property about them holds after any number.
  A drain takes one batch; that drains end, in the sense that every record is published or dead after at
  most five attempts, is proved over any number of them. Python's integers are \<open>int\<close>; the columns of 32
  bits appear in \<open>integer_fits\<close>.

  \<^bold>\<open>Parameters.\<close> Code outside the repository is an argument with its documented behaviour as a named
  hypothesis, which an instance shows to be satisfiable: the broker (\<open>transport\<close>), PyJWT's decoding, the
  HTTP client of the models, blake2b, \<open>json.loads\<close> and \<open>float\<close> of a text, the Redis client, pydantic's
  dump of a response, the iteration order of a set, the random jitter, the clock and the stream of new ids.
  For the SQL backend: \<open>columns\<close> with \<open>faithful_columns\<close> says what JSONB, \<open>vector\<close> and \<open>timestamptz\<close> do
  to a value (JSONB may reorder keys and print a whole float as an integer, \<open>vector\<close> keeps the length
  and not the precision, \<open>timestamptz\<close> keeps the instant); the locale \<open>session\<close> is SQLAlchemy's session
  with \<open>autoflush\<close> off, with the constraints of the tables, and \<open>reference_session\<close> is an instance of it;
  pgvector's distance is an argument of \<open>sql_nearest_to\<close>.

  \<^bold>\<open>Simplifications.\<close> Floats are reals, so rounding errors do not show, nor do infinities. A character is
  a code point below 256. \<open>fromisoformat\<close> is read for the extended format, the one RFC 3339 and
  \<open>isoformat\<close> write. A coroutine runs from its call to its return; interleaving is modelled between
  transactions, deliveries, requests and polls, not inside one. A transaction of the SQL backend is one
  step, in the order of the commits, and a row lock is not seen from outside. Rows that tie in an
  \<open>ORDER BY\<close> come in the order of the table. The reads of the contract are proved for a session with
  nothing unflushed and the effect of a commit for calls that write each object once, which is what the use
  cases make; that an object added and not flushed is not found again by \<open>get\<close> is a finding.

  \<^bold>\<open>Not modelled.\<close> Log lines, metrics and tracing (\<open>infrastructure/observability/\<close> but for the gauge)
  and the three middlewares, which read and write context variables and response headers only. Alembic's
  migrations and \<open>engine.py\<close>, which are DDL and the construction of a connection pool. The connecting,
  topic creation and shutdown of aiokafka's clients, and the parsing of requests by FastAPI. The
  generation use case is run on the contract and on the in-memory backend; on SQL the commit and the reads it
  is made of are proved one by one.
\<close>

end
